(* ===== verification/Prelude.thy ===== *)
theory Prelude
  imports Complex_Main "HOL-Library.Word" "HOL-Library.AList"
begin

text \<open>
  The types and the generic facts every component shares.

  \<^item> Go's \<open>byte\<close>, \<open>uint16\<close>, \<open>uint32\<close>, \<open>uint64\<close> are words of that width; \<open>[3]byte\<close> (an ECHONET
    object code, EOJ) is a triple of bytes; a \<open>[]byte\<close> is a list of bytes.
  \<^item> A Go \<open>string\<close> is a byte string, so Isabelle's \<open>string\<close> (a list of 8-bit characters).
  \<^item> A Go map that the code ranges over or takes the length of is an association list
    with distinct keys (\<open>gomap\<close>), in an arbitrary order, as Go's iteration order is; it is
    read with \<open>map_of\<close>, written with \<open>AList.update\<close> and \<open>AList.delete\<close>. A Go map that the
    code only reads and writes by key is a HOL map.
  \<^item> A \<open>map[byte]struct{}\<close> is a set of bytes; where nil differs from empty, a set option.
  \<^item> \<open>time.Time\<close> is an \<open>int\<close>, nanoseconds since the zero time; \<open>time.Duration\<close> is an \<open>int\<close>
    in the range of \<open>int64\<close>; arithmetic that can leave the range is wrapped (\<open>wrap64\<close>) or, for
    the difference of two times, saturated as the \<open>time\<close> package does it.
  \<^item> Go's \<open>int\<close> is 64 bits wide; it is an \<open>int\<close>, wrapped where an operation may overflow.
\<close>

type_synonym byte = "8 word"
type_synonym bytes = "8 word list"
type_synonym eoj = "8 word \<times> 8 word \<times> 8 word"
type_synonym ('k, 'v) gomap = "('k \<times> 'v) list"
type_synonym duration = int
type_synonym time = int

named_theorems gomap_simps "lookup and key laws of association lists used as Go maps"
named_theorems wf_intros "preservation lemmas of the components' well-formedness invariants"

section \<open>Go maps\<close>

abbreviation gokeys :: "('k, 'v) gomap \<Rightarrow> 'k set" where
  "gokeys m \<equiv> fst ` set m"

definition gomap_ok :: "('k, 'v) gomap \<Rightarrow> bool" where
  "gomap_ok m \<longleftrightarrow> distinct (map fst m)"

lemma gomap_ok_Nil [simp, intro]: "gomap_ok []"
  by (simp add: gomap_ok_def)

lemma gomap_ok_update [simp, intro]: "gomap_ok m \<Longrightarrow> gomap_ok (AList.update k v m)"
  by (simp add: gomap_ok_def distinct_update)

lemma gomap_ok_delete [simp, intro]: "gomap_ok m \<Longrightarrow> gomap_ok (AList.delete k m)"
  by (simp add: gomap_ok_def distinct_delete)

lemma gomap_ok_filter [simp, intro]: "gomap_ok m \<Longrightarrow> gomap_ok (filter P m)"
  by (induction m) (auto simp: gomap_ok_def)

lemma map_of_update [simp, gomap_simps]:
  "map_of (AList.update k v m) = (map_of m)(k \<mapsto> v)"
  by (simp add: update_conv' fun_eq_iff)

lemma map_of_delete [simp, gomap_simps]:
  "map_of (AList.delete k m) = (map_of m)(k := None)"
  by (simp add: delete_conv')

lemma length_update_le: "length (AList.update k v m) \<le> Suc (length m)"
  by (induction m) auto

lemma length_update_new: "map_of m k = None \<Longrightarrow> length (AList.update k v m) = Suc (length m)"
  by (induction m) (auto split: if_splits)

lemma length_update_old: "map_of m k \<noteq> None \<Longrightarrow> length (AList.update k v m) = length m"
  by (induction m) auto

text \<open>
  \<open>for k, v := range src { dst[k] = v }\<close>: the result does not depend on the order, it is
  map override.
\<close>

definition go_copy_into :: "('k, 'v) gomap \<Rightarrow> ('k, 'v) gomap \<Rightarrow> ('k, 'v) gomap" where
  "go_copy_into dst src = fold (\<lambda>(k, v). AList.update k v) src dst"

lemma gomap_ok_fold_update: "gomap_ok d \<Longrightarrow> gomap_ok (fold (\<lambda>(k, v). AList.update k v) src d)"
  by (induction src arbitrary: d) auto

lemma gomap_ok_copy_into [simp, intro]: "gomap_ok dst \<Longrightarrow> gomap_ok (go_copy_into dst src)"
  by (simp add: go_copy_into_def gomap_ok_fold_update)

lemma map_of_copy_into:
  assumes "gomap_ok src"
  shows "map_of (go_copy_into dst src) = map_of dst ++ map_of src"
proof -
  have "map_of (fold (\<lambda>(k, v). AList.update k v) src dst) = map_of dst ++ map_of src"
    if "distinct (map fst src)" for dst
    using that
  proof (induction src arbitrary: dst)
    case Nil
    then show ?case by simp
  next
    case (Cons p src)
    obtain k v where p: "p = (k, v)" by force
    from Cons.prems p have notin: "k \<notin> dom (map_of src)"
      by (auto simp: dom_map_of_conv_image_fst)
    from Cons have "map_of (fold (\<lambda>(k, v). AList.update k v) src (AList.update k v dst))
        = (map_of dst)(k \<mapsto> v) ++ map_of src"
      by simp
    also have "\<dots> = map_of dst ++ (map_of src)(k \<mapsto> v)"
      using notin by (simp add: fun_eq_iff map_add_def domIff split: option.splits)
    finally show ?case by (simp add: p fun_upd_def)
  qed
  with assms show ?thesis by (simp add: go_copy_into_def gomap_ok_def)
qed

lemma map_of_copy_into_self [simp]: "gomap_ok src \<Longrightarrow> map_of (go_copy_into [] src) = map_of src"
  by (simp add: map_of_copy_into)

section \<open>Integers of fixed width\<close>

definition wrap64 :: "int \<Rightarrow> int" where
  "wrap64 x = (x + 2 ^ 63) mod 2 ^ 64 - 2 ^ 63"

definition int64_ok :: "int \<Rightarrow> bool" where
  "int64_ok x \<longleftrightarrow> - (2 ^ 63) \<le> x \<and> x < 2 ^ 63"

lemma wrap64_id [simp]: "int64_ok x \<Longrightarrow> wrap64 x = x"
  by (simp add: wrap64_def int64_ok_def)

lemma wrap64_ok [simp]: "int64_ok (wrap64 x)"
  by (auto simp: wrap64_def int64_ok_def)

text \<open>\<open>t.Sub(u)\<close> of the \<open>time\<close> package: the difference, saturated at the ends of \<open>Duration\<close>.\<close>

definition time_sub :: "time \<Rightarrow> time \<Rightarrow> duration" where
  "time_sub t u = max (- (2 ^ 63)) (min (2 ^ 63 - 1) (t - u))"

abbreviation second :: duration where "second \<equiv> 1000000000"
abbreviation millisecond :: duration where "millisecond \<equiv> 1000000"
abbreviation minute :: duration where "minute \<equiv> 60000000000"

lemma time_sub_le_iff:
  "- (2 ^ 63) \<le> d \<Longrightarrow> d < 2 ^ 63 - 1 \<Longrightarrow> time_sub t u \<le> d \<longleftrightarrow> t - u \<le> d"
  by (auto simp: time_sub_def)

lemma time_sub_less_iff:
  "- (2 ^ 63) < d \<Longrightarrow> d \<le> 2 ^ 63 - 1 \<Longrightarrow> time_sub t u < d \<longleftrightarrow> t - u < d"
  by (auto simp: time_sub_def)

section \<open>Bytes, strings and number formatting\<close>

definition byte_string :: "bytes \<Rightarrow> string" where
  "byte_string bs = map (\<lambda>b. char_of (unat b)) bs"

definition hex_digit :: "nat \<Rightarrow> char" where
  "hex_digit n = (if n < 10 then char_of (48 + n) else char_of (87 + n))"

definition hex_digit_upper :: "nat \<Rightarrow> char" where
  "hex_digit_upper n = (if n < 10 then char_of (48 + n) else char_of (55 + n))"

text \<open>\<open>%02x\<close> and \<open>%02X\<close> of a byte.\<close>

definition hex2 :: "byte \<Rightarrow> string" where
  "hex2 b = [hex_digit (unat b div 16), hex_digit (unat b mod 16)]"

definition hex2_upper :: "byte \<Rightarrow> string" where
  "hex2_upper b = [hex_digit_upper (unat b div 16), hex_digit_upper (unat b mod 16)]"

text \<open>\<open>%03d\<close> of a byte.\<close>

definition dec3 :: "byte \<Rightarrow> string" where
  "dec3 b = [char_of (48 + unat b div 100), char_of (48 + unat b div 10 mod 10),
             char_of (48 + unat b mod 10)]"

lemma hex_digit_inj: "m < 16 \<Longrightarrow> n < 16 \<Longrightarrow> hex_digit m = hex_digit n \<Longrightarrow> m = n"
  by (auto simp: hex_digit_def char_of_eq_iff take_bit_eq_mod split: if_splits)

lemma unat_byte_less [simp]: "unat (b :: byte) < 256"
  using unsigned_less [of b, where ?'a = nat] by simp

lemma hex2_inj: "hex2 a = hex2 b \<Longrightarrow> a = b"
proof -
  assume "hex2 a = hex2 b"
  moreover have "unat a div 16 < 16" "unat b div 16 < 16"
    using unat_byte_less [of a] unat_byte_less [of b] by linarith+
  ultimately have "unat a div 16 = unat b div 16" "unat a mod 16 = unat b mod 16"
    by (auto simp: hex2_def intro: hex_digit_inj)
  then have "unat a = unat b" by (metis div_mult_mod_eq)
  then show "a = b" by (rule unsigned_word_eqI)
qed

lemma length_hex2 [simp]: "length (hex2 b) = 2"
  by (simp add: hex2_def)

definition string_contains :: "string \<Rightarrow> string \<Rightarrow> bool" where
  "string_contains s sub \<longleftrightarrow> (\<exists>i \<in> set [0..<Suc (length s)]. take (length sub) (drop i s) = sub)"

definition has_suffix :: "string \<Rightarrow> string \<Rightarrow> bool" where
  "has_suffix s suf \<longleftrightarrow> length suf \<le> length s \<and> drop (length s - length suf) s = suf"

definition has_prefix :: "string \<Rightarrow> string \<Rightarrow> bool" where
  "has_prefix s pre \<longleftrightarrow> take (length pre) s = pre"

text \<open>\<open>strings.ToLower\<close> and \<open>strings.ToUpper\<close> on the ASCII letters.\<close>

definition ascii_lower :: "string \<Rightarrow> string" where
  "ascii_lower s = map (\<lambda>c. let n = of_char c :: nat in
     if 65 \<le> n \<and> n \<le> 90 then char_of (n + 32) else c) s"

definition ascii_upper :: "string \<Rightarrow> string" where
  "ascii_upper s = map (\<lambda>c. let n = of_char c :: nat in
     if 97 \<le> n \<and> n \<le> 122 then char_of (n - 32) else c) s"

section \<open>Folds that only extend a set or a map\<close>

lemma fold_insert_set: "fold insert xs A = A \<union> set xs"
  by (induction xs arbitrary: A) auto

lemma take_drop_split: "xs = take n xs @ drop n xs"
  by simp

section \<open>Trimming\<close>

text \<open>
  \<open>strings.TrimSpace\<close> cuts white space characters off both ends; on a byte string these are the
  UTF-8 encodings below (a byte that is not part of one of them stops the trimming, also when it
  is not valid UTF-8).
\<close>

definition utf8_spaces :: "string list" where
  "utf8_spaces = map (map (\<lambda>n. char_of (n :: nat)))
     ([[9], [10], [11], [12], [13], [32], [0xC2, 0x85], [0xC2, 0xA0], [0xE1, 0x9A, 0x80],
       [0xE2, 0x80, 0xA8], [0xE2, 0x80, 0xA9], [0xE2, 0x80, 0xAF], [0xE2, 0x81, 0x9F], [0xE3, 0x80, 0x80]]
      @ map (\<lambda>n. [0xE2, 0x80, n]) [0x80 ..< 0x8B])"

function strip_left :: "string list \<Rightarrow> string \<Rightarrow> string" where
  "strip_left encs s =
     (case find (\<lambda>e. e \<noteq> [] \<and> has_prefix s e) encs of
        Some e \<Rightarrow> strip_left encs (drop (length e) s)
      | None \<Rightarrow> s)"
  by auto

lemma has_prefix_length: "has_prefix s e \<Longrightarrow> length e \<le> length s"
  by (metis has_prefix_def length_take min.cobounded1)

termination strip_left
proof (relation "measure (\<lambda>(encs, s). length s)")
  fix encs :: "string list" and s e
  assume "find (\<lambda>e. e \<noteq> [] \<and> has_prefix s e) encs = Some e"
  then have "e \<noteq> []" "has_prefix s e" by (auto simp: find_Some_iff)
  with has_prefix_length [of s e] show "((encs, drop (length e) s), encs, s) \<in> measure (\<lambda>(encs, s). length s)"
    by (cases e) auto
qed simp

declare strip_left.simps [simp del]

definition trim_left :: "string \<Rightarrow> string" where
  "trim_left s = strip_left utf8_spaces s"

definition trim_right :: "string \<Rightarrow> string" where
  "trim_right s = rev (strip_left (map rev utf8_spaces) (rev s))"

definition trim_space :: "string \<Rightarrow> string" where
  "trim_space s = trim_right (trim_left s)"

lemma strip_left_Some:
  "find (\<lambda>e. e \<noteq> [] \<and> has_prefix s e) encs = Some e \<Longrightarrow> strip_left encs s = strip_left encs (drop (length e) s)"
  by (subst strip_left.simps) simp

lemma strip_left_None: "find (\<lambda>e. e \<noteq> [] \<and> has_prefix s e) encs = None \<Longrightarrow> strip_left encs s = s"
  by (subst strip_left.simps) simp

lemma strip_left_suffix: "\<exists>pre. s = pre @ strip_left encs s"
proof (induction encs s rule: strip_left.induct)
  case (1 encs s)
  show ?case
  proof (cases "find (\<lambda>e. e \<noteq> [] \<and> has_prefix s e) encs")
    case None
    then show ?thesis by (simp add: strip_left_None)
  next
    case (Some e)
    from 1 [OF Some] obtain pre where "drop (length e) s = pre @ strip_left encs (drop (length e) s)" by blast
    then have "take (length e) s @ drop (length e) s = (take (length e) s @ pre) @ strip_left encs (drop (length e) s)"
      by simp
    then show ?thesis unfolding strip_left_Some [OF Some] append_take_drop_id by blast
  qed
qed

lemma trim_space_Nil [simp]: "trim_space [] = []"
proof -
  have "strip_left encs [] = []" for encs using strip_left_suffix [of "[]" encs] by simp
  then show ?thesis by (simp add: trim_space_def trim_left_def trim_right_def)
qed

text \<open>A string without the first bytes of white space characters at its ends is its own trim.\<close>

lemma strip_left_id: "\<forall>e \<in> set encs. \<not> has_prefix s e \<Longrightarrow> strip_left encs s = s"
  by (rule strip_left_None) (simp add: find_None_iff)

lemma spaces_are_not_letters:
  "list_all (\<lambda>e. e \<noteq> [] \<and> (of_char (hd e) \<le> (32 :: nat) \<or> of_char (hd e) \<ge> (128 :: nat))
     \<and> (of_char (List.last e) \<le> (32 :: nat) \<or> of_char (List.last e) \<ge> (128 :: nat))) utf8_spaces"
  by (simp add: utf8_spaces_def upt_conv_Cons list_all_iff)

lemma trim_space_plain:
  assumes "s \<noteq> []" "32 < (of_char (hd s) :: nat)" "of_char (hd s) < (128 :: nat)"
    "32 < (of_char (List.last s) :: nat)" "of_char (List.last s) < (128 :: nat)"
  shows "trim_space s = s"
proof -
  have pre: "hd e = hd s" if "has_prefix s e" "e \<noteq> []" for e s :: string
    using that by (metis append_take_drop_id has_prefix_def hd_append2)
  have "\<not> has_prefix s e" if "e \<in> set utf8_spaces" for e
    using pre [of s e] spaces_are_not_letters that assms(2,3) by (auto simp: list_all_iff)
  moreover have "\<not> has_prefix (rev s) (rev e)" if "e \<in> set utf8_spaces" for e
    using pre [of "rev s" "rev e"] spaces_are_not_letters that assms(1,4,5) by (auto simp: list_all_iff hd_rev)
  ultimately show ?thesis by (simp add: trim_space_def trim_left_def trim_right_def strip_left_id)
qed

end
