(* ===== verification/GoText.thy ===== *)
theory GoText
  imports Prelude
begin

text \<open>
  The text operations of the standard library that several components use: splitting and
  joining, \<open>strconv.Atoi\<close> and \<open>ParseBool\<close>, and the decoding of UTF-8 that ranging over a string
  performs. The lemmas give the round trip of split and join, and what mapping the characters of
  a string leaves in it.
\<close>

section \<open>Split and join\<close>

text \<open>\<open>strings.Split(s, sep)\<close> for a separator of one byte.\<close>

fun split_on :: "char \<Rightarrow> string \<Rightarrow> string list" where
  "split_on sep [] = [[]]"
| "split_on sep (c # cs) =
     (if c = sep then [] # split_on sep cs
      else case split_on sep cs of [] \<Rightarrow> [[c]] | w # ws \<Rightarrow> (c # w) # ws)"

fun join_with :: "string \<Rightarrow> string list \<Rightarrow> string" where
  "join_with sep [] = []"
| "join_with sep [w] = w"
| "join_with sep (w # v # ws) = w @ sep @ join_with sep (v # ws)"

lemma split_on_not_Nil [simp]: "split_on sep s \<noteq> []"
  by (induction s) (auto split: list.splits)

lemma split_on_no_sep: "w \<in> set (split_on sep s) \<Longrightarrow> sep \<notin> set w"
proof (induction s arbitrary: w)
  case (Cons c cs)
  then show ?case by (cases "split_on sep cs") (auto split: if_splits)
qed simp

lemma join_split: "join_with [sep] (split_on sep s) = s"
proof (induction s)
  case (Cons c cs)
  then show ?case
  proof (cases "split_on sep cs")
    case (Cons w ws)
    with Cons.IH show ?thesis by (cases ws) auto
  qed simp
qed simp

lemma split_on_plain: "sep \<notin> set w \<Longrightarrow> split_on sep w = [w]"
  by (induction w) auto

lemma split_on_append: "sep \<notin> set w \<Longrightarrow> split_on sep (w @ sep # s) = w # split_on sep s"
  by (induction w) auto

lemma split_join:
  "ws \<noteq> [] \<Longrightarrow> \<forall>w \<in> set ws. sep \<notin> set w \<Longrightarrow> split_on sep (join_with [sep] ws) = ws"
proof (induction "[sep]" ws rule: join_with.induct)
  case (3 w v ws)
  then show ?case by (simp add: split_on_append)
qed (auto simp: split_on_plain)

section \<open>Numbers and booleans\<close>

definition digit_value :: "char \<Rightarrow> nat option" where
  "digit_value c = (let n = of_char c in if 48 \<le> n \<and> n \<le> 57 then Some (n - 48) else None)"

fun digits_value :: "nat \<Rightarrow> string \<Rightarrow> nat option" where
  "digits_value acc [] = Some acc"
| "digits_value acc (c # cs) =
     (case digit_value c of Some d \<Rightarrow> digits_value (acc * 10 + d) cs | None \<Rightarrow> None)"

text \<open>\<open>strconv.Atoi\<close>: a sign, decimal digits, in the range of \<open>int\<close>.\<close>

definition go_atoi :: "string \<Rightarrow> int option" where
  "go_atoi s =
     (let neg = (s \<noteq> [] \<and> hd s = CHR ''-'');
          ds = (if s \<noteq> [] \<and> (hd s = CHR ''-'' \<or> hd s = CHR ''+'') then tl s else s)
      in if ds = [] then None
         else case digits_value 0 ds of
                None \<Rightarrow> None
              | Some n \<Rightarrow> let v = (if neg then - int n else int n) in if int64_ok v then Some v else None)"

definition go_parse_bool :: "string \<Rightarrow> bool option" where
  "go_parse_bool s =
     (if s \<in> {''1'', ''t'', ''T'', ''true'', ''TRUE'', ''True''} then Some True
      else if s \<in> {''0'', ''f'', ''F'', ''false'', ''FALSE'', ''False''} then Some False else None)"

text \<open>\<open>%d\<close> of a natural number and of an integer.\<close>

fun dec_digits :: "nat \<Rightarrow> string" where
  "dec_digits n = (if n < 10 then [char_of (48 + n)] else dec_digits (n div 10) @ [char_of (48 + n mod 10)])"

declare dec_digits.simps [simp del]

definition dec_int :: "int \<Rightarrow> string" where
  "dec_int i = (if i < 0 then ''-'' @ dec_digits (nat (- i)) else dec_digits (nat i))"

lemma digit_value_char [simp]: "d < 10 \<Longrightarrow> digit_value (char_of (48 + d)) = Some d"
  by (simp add: digit_value_def Let_def take_bit_eq_mod)

lemma digits_value_append:
  "digits_value acc (xs @ ys) = (case digits_value acc xs of Some a \<Rightarrow> digits_value a ys | None \<Rightarrow> None)"
  by (induction xs arbitrary: acc) (auto split: option.splits)

lemma digits_value_dec_digits: "digits_value acc (dec_digits n) = Some (acc * 10 ^ length (dec_digits n) + n)"
proof (induction n arbitrary: acc rule: dec_digits.induct)
  case (1 n)
  show ?case
  proof (cases "n < 10")
    case True
    then show ?thesis by (simp add: dec_digits.simps [of n])
  next
    case False
    have n10: "n mod 10 < 10" by simp
    have "(acc * 10 ^ length (dec_digits (n div 10)) + n div 10) * 10 + n mod 10
        = acc * 10 ^ Suc (length (dec_digits (n div 10))) + n"
      by (simp add: algebra_simps)
    with 1 False digit_value_char [OF n10] show ?thesis
      by (subst dec_digits.simps, subst (2) dec_digits.simps) (simp add: digits_value_append)
  qed
qed

lemma dec_digits_not_Nil [simp]: "dec_digits n \<noteq> []"
  by (subst dec_digits.simps) simp

lemma hd_dec_digits: "digit_value (hd (dec_digits n)) \<noteq> None"
proof (induction n rule: dec_digits.induct)
  case (1 n)
  then show ?case by (cases "n < 10") (simp_all add: dec_digits.simps [of n])
qed

text \<open>Printing a number and reading it back.\<close>

lemma atoi_dec_int:
  assumes "int64_ok i"
  shows "go_atoi (dec_int i) = Some i"
proof -
  have sgn: "hd (dec_digits n) \<noteq> CHR ''-''" "hd (dec_digits n) \<noteq> CHR ''+''" for n
    using hd_dec_digits [of n] by (auto simp: digit_value_def)
  show ?thesis
    using assms sgn digits_value_dec_digits [of 0]
    by (cases "i < 0") (auto simp: go_atoi_def dec_int_def Let_def)
qed

section \<open>Characters of a string\<close>

text \<open>
  One step of \<open>range\<close> over a string: the rune and the number of bytes it takes; an invalid
  sequence is \<open>RuneError\<close> (U+FFFD) of width 1.
\<close>

abbreviation rune_error :: nat where "rune_error \<equiv> 0xFFFD"

definition cont_byte :: "nat \<Rightarrow> bool" where
  "cont_byte b \<longleftrightarrow> 0x80 \<le> b \<and> b \<le> 0xBF"

definition decode_rune :: "nat list \<Rightarrow> nat \<times> nat" where
  "decode_rune s =
     (case s of
        [] \<Rightarrow> (rune_error, 0)
      | a # t \<Rightarrow>
          if a < 0x80 then (a, 1)
          else if 0xC2 \<le> a \<and> a \<le> 0xDF then
            (case t of
               b # _ \<Rightarrow> if cont_byte b then ((a - 0xC0) * 64 + (b - 0x80), 2) else (rune_error, 1)
             | _ \<Rightarrow> (rune_error, 1))
          else if 0xE0 \<le> a \<and> a \<le> 0xEF then
            (case t of
               b # c # _ \<Rightarrow>
                 if cont_byte b \<and> (a = 0xE0 \<longrightarrow> 0xA0 \<le> b) \<and> (a = 0xED \<longrightarrow> b \<le> 0x9F) \<and> cont_byte c
                 then ((a - 0xE0) * 4096 + (b - 0x80) * 64 + (c - 0x80), 3) else (rune_error, 1)
             | _ \<Rightarrow> (rune_error, 1))
          else if 0xF0 \<le> a \<and> a \<le> 0xF4 then
            (case t of
               b # c # d # _ \<Rightarrow>
                 if cont_byte b \<and> (a = 0xF0 \<longrightarrow> 0x90 \<le> b) \<and> (a = 0xF4 \<longrightarrow> b \<le> 0x8F) \<and> cont_byte c \<and> cont_byte d
                 then ((a - 0xF0) * 262144 + (b - 0x80) * 4096 + (c - 0x80) * 64 + (d - 0x80), 4)
                 else (rune_error, 1)
             | _ \<Rightarrow> (rune_error, 1))
          else (rune_error, 1))"

definition string_codes :: "string \<Rightarrow> nat list" where
  "string_codes s = map of_char s"

text \<open>The characters of a string, each with its bytes.\<close>

function runes :: "string \<Rightarrow> (nat \<times> string) list" where
  "runes [] = []"
| "runes (c # s) =
     (let (r, n) = decode_rune (string_codes (c # s))
      in (r, take n (c # s)) # runes (drop n (c # s)))"
  by pat_completeness auto

lemma decode_rune_width: "s \<noteq> [] \<Longrightarrow> 1 \<le> snd (decode_rune s) \<and> snd (decode_rune s) \<le> length s"
  by (cases s) (auto simp: decode_rune_def split: list.splits)

termination runes
proof (relation "measure length")
  fix c :: char and s and x and r and n :: nat
  assume "x = decode_rune (string_codes (c # s))" "(r, n) = x"
  then have "1 \<le> n" using decode_rune_width [of "string_codes (c # s)"] by (metis list.map_disc_iff list.distinct(1) snd_conv string_codes_def)
  then show "(drop n (c # s), c # s) \<in> measure length" by simp
qed simp

declare runes.simps(2) [simp del]

lemma concat_runes: "concat (map snd (runes s)) = s"
  by (induction s rule: runes.induct) (auto simp: runes.simps(2) split: prod.splits)

lemma decode_ascii: "decode_rune (a # t) = (r, n) \<Longrightarrow> a < 0x80 \<Longrightarrow> r = a \<and> n = 1"
  by (simp add: decode_rune_def)

text \<open>A byte below 0x80 is a character of its own, never part of a longer one.\<close>

lemma decode_rune_ascii_bytes:
  assumes "decode_rune s = (r, n)" "b \<in> set (take n s)" "b < 0x80"
  shows "n = 1 \<and> r = b"
  using assms
  by (cases s) (auto simp: decode_rune_def cont_byte_def split: list.splits if_splits)

lemma runes_ascii:
  "(r, w) \<in> set (runes s) \<Longrightarrow> c \<in> set w \<Longrightarrow> of_char c < (0x80 :: nat) \<Longrightarrow> w = [c] \<and> r = of_char c"
proof (induction s rule: runes.induct)
  case (2 ch s)
  obtain r' n where d: "decode_rune (string_codes (ch # s)) = (r', n)" by force
  have tl: "(r, w) = (r', take n (ch # s)) \<or> (r, w) \<in> set (runes (drop n (ch # s)))"
    using "2.prems"(1) by (simp add: runes.simps(2) d)
  then show ?case
  proof
    assume eq: "(r, w) = (r', take n (ch # s))"
    have "of_char c \<in> set (take n (string_codes (ch # s)))"
      unfolding string_codes_def take_map using "2.prems"(2) eq by simp
    from decode_rune_ascii_bytes [OF d this "2.prems"(3)] have "n = 1" "r' = of_char c" by auto
    with eq "2.prems"(2) show ?thesis by auto
  next
    assume "(r, w) \<in> set (runes (drop n (ch # s)))"
    with "2.IH" d "2.prems"(2,3) show ?thesis by (metis (no_types))
  qed
qed simp

section \<open>Valid UTF-8\<close>

text \<open>A character with the bytes that encode it. A valid character is decoded whatever follows it, so a
  string put together from valid characters consists of just these; \<open>valid_utf8\<close> is
  \<open>utf8.ValidString\<close>.\<close>

definition valid_char :: "nat \<times> string \<Rightarrow> bool" where
  "valid_char rw \<longleftrightarrow> snd rw \<noteq> [] \<and> decode_rune (string_codes (snd rw)) = (fst rw, length (snd rw))
     \<and> (fst rw = rune_error \<longrightarrow> length (snd rw) \<noteq> 1)"

lemma decode_rune_prefix:
  assumes "decode_rune (a # s) \<noteq> (rune_error, 1)"
  shows "decode_rune (take (snd (decode_rune (a # s))) (a # s) @ t) = decode_rune (a # s)"
proof -
  consider "a < 0x80" | "0xC2 \<le> a" "a \<le> 0xDF" | "0xE0 \<le> a" "a \<le> 0xEF" | "0xF0 \<le> a" "a \<le> 0xF4"
    | "0x80 \<le> a \<and> a < 0xC2 \<or> 0xF4 < a" by linarith
  then show ?thesis
  proof cases
    case 1
    then show ?thesis by (simp add: decode_rune_def)
  next
    case 2
    with assms show ?thesis
      by (cases s) (simp_all add: decode_rune_def split: if_split_asm)
  next
    case 3
    with assms show ?thesis
      by (cases s rule: remdups_adj.cases) (auto simp: decode_rune_def split: if_split_asm)
  next
    case 4
    from 4 assms obtain b c d u where s: "s = b # c # d # u"
      by (auto simp: decode_rune_def split: list.splits if_split_asm)
    from 4 assms show ?thesis unfolding s by (auto simp: decode_rune_def split: if_split_asm)
  next
    case 5
    with assms show ?thesis by (auto simp: decode_rune_def)
  qed
qed

lemma decode_rune_take_append:
  assumes "decode_rune s = (r, n)" "s \<noteq> []" "r = rune_error \<longrightarrow> n \<noteq> 1"
  shows "decode_rune (take n s @ t) = (r, n)"
proof -
  from assms(2) obtain a s' where s: "s = a # s'" by (cases s) auto
  have "decode_rune (a # s') \<noteq> (rune_error, 1)" using assms(1,3) unfolding s by force
  from decode_rune_prefix [OF this, of t] assms(1) show ?thesis by (simp add: s)
qed

lemma runes_valid:
  assumes "rw \<in> set (runes s)" "fst rw = rune_error \<longrightarrow> length (snd rw) \<noteq> 1"
  shows "valid_char rw"
  using assms
proof (induction s rule: runes.induct)
  case (2 c s)
  obtain r n where d: "decode_rune (string_codes (c # s)) = (r, n)" by force
  then have n: "1 \<le> n" "n \<le> length (c # s)"
    using decode_rune_width [of "string_codes (c # s)"] by (auto simp: string_codes_def)
  from "2.prems"(1) consider "rw = (r, take n (c # s))" | "rw \<in> set (runes (drop n (c # s)))"
    by (auto simp: runes.simps(2) d)
  then show ?case
  proof cases
    case 1
    then have "r = rune_error \<longrightarrow> n \<noteq> 1" using "2.prems"(2) n by auto
    have "decode_rune (take n (string_codes (c # s)) @ []) = (r, n)"
      by (rule decode_rune_take_append [OF d _ \<open>r = rune_error \<longrightarrow> n \<noteq> 1\<close>]) (simp add: string_codes_def)
    moreover have "take n (string_codes (c # s)) @ [] = string_codes (take n (c # s))"
      unfolding string_codes_def take_map by simp
    ultimately have "decode_rune (string_codes (take n (c # s))) = (r, n)" by (simp only:)
    with n 1 "2.prems"(2) show ?thesis by (auto simp: valid_char_def)
  qed (use "2.IH" d "2.prems"(2) in metis)
qed simp

lemma runes_append_valid:
  assumes "valid_char (r, w)"
  shows "runes (w @ t) = (r, w) # runes t"
proof -
  have v: "w \<noteq> []" "decode_rune (string_codes w) = (r, length w)" "r = rune_error \<longrightarrow> length w \<noteq> 1"
    using assms by (auto simp: valid_char_def)
  have "decode_rune (take (length w) (string_codes w) @ string_codes t) = (r, length w)"
    by (rule decode_rune_take_append [OF v(2) _ v(3)]) (use v(1) in \<open>simp add: string_codes_def\<close>)
  then have d: "decode_rune (string_codes (w @ t)) = (r, length w)" by (simp add: string_codes_def)
  obtain c u where w: "w = c # u" using v(1) by (cases w) auto
  from d show ?thesis unfolding w by (simp add: runes.simps(2))
qed

lemma runes_concat_valid: "\<forall>rw \<in> set rws. valid_char rw \<Longrightarrow> runes (concat (map snd rws)) = rws"
  by (induction rws) (auto simp: runes_append_valid)

definition valid_utf8 :: "string \<Rightarrow> bool" where
  "valid_utf8 s \<longleftrightarrow> list_all (\<lambda>(r, w). r = rune_error \<longrightarrow> length w \<noteq> 1) (runes s)"

lemma runes_of_ascii:
  "\<forall>c \<in> set s. of_char c < (0x80 :: nat) \<Longrightarrow> runes s = map (\<lambda>c. (of_char c, [c])) s"
proof (induction s)
  case (Cons c s)
  then have "decode_rune (string_codes (c # s)) = (of_char c, 1)"
    by (simp add: decode_rune_def string_codes_def)
  with Cons show ?case by (simp add: runes.simps(2))
qed simp

lemma valid_utf8_ascii: "\<forall>c \<in> set s. of_char c < (0x80 :: nat) \<Longrightarrow> valid_utf8 s"
  by (auto simp: valid_utf8_def runes_of_ascii list_all_iff)

end
