(* ===== verification/Protocol.thy ===== *)
theory Protocol
  imports GoText
begin

text \<open>
  \<open>internal/echonet/protocol.go\<close>: the ECHONET Lite frame format. A frame is the header
  \<open>EHD1 EHD2 TID SEOJ DEOJ ESV OPC\<close> (12 bytes) followed by \<open>OPC\<close> properties, each
  \<open>EPC PDC EDT\<close> with \<open>PDC\<close> bytes of data. The builders write it byte for byte, with the
  truncating conversions \<open>byte(len(x))\<close> of the code; \<open>parseFrame\<close> reads it, dropping what is
  left of a truncated property list. The lemmas give the round trip between the builders and
  the parser, and the meaning of a property map (ECHONET's 0x9D, 0x9E, 0x9F).
\<close>

unbundle bit_operations_syntax

record Property =
  p_EPC :: byte
  p_PDC :: byte
  p_EDT :: bytes

abbreviation ehd1 :: byte where "ehd1 \<equiv> 0x10"
abbreviation ehd2 :: byte where "ehd2 \<equiv> 0x81"
abbreviation esvSetI :: byte where "esvSetI \<equiv> 0x60"
abbreviation esvSetC :: byte where "esvSetC \<equiv> 0x61"
abbreviation esvGet :: byte where "esvGet \<equiv> 0x62"
abbreviation esvGetRes :: byte where "esvGetRes \<equiv> 0x72"
abbreviation esvSetRes :: byte where "esvSetRes \<equiv> 0x71"
abbreviation esvINF :: byte where "esvINF \<equiv> 0x73"
abbreviation esvINFC :: byte where "esvINFC \<equiv> 0x74"
abbreviation esvINFCRes :: byte where "esvINFCRes \<equiv> 0x7A"
abbreviation esvINFSNA :: byte where "esvINFSNA \<equiv> 0x53"
abbreviation seojController :: byte where "seojController \<equiv> 0x05"
abbreviation seojClass :: byte where "seojClass \<equiv> 0xFF"
abbreviation seojInstance :: byte where "seojInstance \<equiv> 0x01"
abbreviation minResponseLen :: nat where "minResponseLen \<equiv> 12"

section \<open>Building frames\<close>

definition tid_bytes :: "16 word \<Rightarrow> bytes" where
  "tid_bytes tid = [ucast (drop_bit 8 tid), ucast tid]"

definition eoj_bytes :: "eoj \<Rightarrow> bytes" where
  "eoj_bytes e = (case e of (a, b, c) \<Rightarrow> [a, b, c])"

definition GetRequest :: "16 word \<Rightarrow> eoj \<Rightarrow> bytes \<Rightarrow> bytes" where
  "GetRequest tid eoj epcs =
     [ehd1, ehd2] @ tid_bytes tid @ [seojController, seojClass, seojInstance] @ eoj_bytes eoj
     @ [esvGet] @ [word_of_nat (length epcs)] @ concat (map (\<lambda>epc. [epc, 0]) epcs)"

definition SetIRequest :: "16 word \<Rightarrow> eoj \<Rightarrow> byte \<Rightarrow> bytes \<Rightarrow> bytes" where
  "SetIRequest tid eoj epc edt =
     (let pdc = word_of_nat (length edt)
      in [ehd1, ehd2] @ tid_bytes tid @ [seojController, seojClass, seojInstance] @ eoj_bytes eoj
         @ [esvSetI] @ [1] @ [epc, pdc] @ edt)"

definition SetRequest :: "16 word \<Rightarrow> eoj \<Rightarrow> byte \<Rightarrow> bytes \<Rightarrow> bytes" where
  "SetRequest tid eoj epc edt =
     (let pdc = word_of_nat (length edt)
      in [ehd1, ehd2] @ tid_bytes tid @ [seojController, seojClass, seojInstance] @ eoj_bytes eoj
         @ [esvSetC] @ [1] @ [epc, pdc] @ edt)"

section \<open>Parsing frames\<close>

datatype frame_error = TooShort nat | InvalidEHD byte byte

text \<open>
  The errors of the package, one constructor per origin. Transport errors are \<open>net_error\<close>: an
  expired wait, a cancelled or expired context, a failed bind or write, and the two wrappings
  \<open>Send\<close> adds. Only \<open>ESVError\<close> is what \<open>errors.As\<close> finds for a service-code error.
\<close>

datatype net_error =
    IOTimeout | CtxCanceled | CtxDeadline | AddrInUse | AccessDenied | NetClosed | BadAddr
  | OtherNet string
  | StrictSource net_error
  | FallbackFailed net_error net_error

datatype go_error =
    FrameErr frame_error
  | ESVError byte
  | NetErr net_error
  | NoEPCs
  | NoProperties
  | MapMissing byte

text \<open>
  The property loop: at most \<open>opc\<close> properties while two bytes are left; a property whose data
  runs past the end stops the loop (the code logs and breaks).
\<close>

fun parseProps :: "nat \<Rightarrow> bytes \<Rightarrow> Property list" where
  "parseProps (Suc opc) (epc # pdc # rest) =
     (let edtLen = unat pdc
      in if length rest < edtLen then []
         else \<lparr>p_EPC = epc, p_PDC = pdc, p_EDT = take edtLen rest\<rparr>
              # parseProps opc (drop edtLen rest))"
| "parseProps _ _ = []"

definition be16 :: "byte \<Rightarrow> byte \<Rightarrow> 16 word" where
  "be16 hi lo = push_bit 8 (ucast hi) OR ucast lo"

definition parseFrame :: "bytes \<Rightarrow> frame_error + 16 word \<times> byte \<times> Property list" where
  "parseFrame data =
     (if length data < minResponseLen then Inl (TooShort (length data))
      else if data ! 0 \<noteq> ehd1 \<or> data ! 1 \<noteq> ehd2 then Inl (InvalidEHD (data ! 0) (data ! 1))
      else Inr (be16 (data ! 2) (data ! 3), data ! 10,
                parseProps (unat (data ! 11)) (drop 12 data)))"

text \<open>
  \<open>ParseGetRes\<close> and \<open>ParseSetRes\<close> return the transaction id and the properties together with
  an error: the second component says which error, if any.
\<close>

definition ParseGetRes :: "bytes \<Rightarrow> 16 word \<times> Property list \<times> go_error option" where
  "ParseGetRes data =
     (case parseFrame data of
        Inl e \<Rightarrow> (0, [], Some (FrameErr e))
      | Inr (tid, esv, props) \<Rightarrow>
          if esv \<noteq> esvGetRes then (tid, props, Some (ESVError esv)) else (tid, props, None))"

definition ParseSetRes :: "bytes \<Rightarrow> 16 word \<times> Property list \<times> go_error option" where
  "ParseSetRes data =
     (case parseFrame data of
        Inl e \<Rightarrow> (0, [], Some (FrameErr e))
      | Inr (tid, esv, props) \<Rightarrow>
          if esv \<noteq> esvSetRes then (tid, props, Some (ESVError esv)) else (tid, props, None))"

definition isGetSNA :: "go_error option \<Rightarrow> bool" where
  "isGetSNA err \<longleftrightarrow> err = Some (ESVError 0x52)"

definition isSetSNA :: "go_error option \<Rightarrow> bool" where
  "isSetSNA err \<longleftrightarrow> err = Some (ESVError 0x51)"

definition isSetISNA :: "go_error option \<Rightarrow> bool" where
  "isSetISNA err \<longleftrightarrow> err = Some (ESVError 0x50)"

definition find_prop :: "Property list \<Rightarrow> byte \<Rightarrow> bytes option" where
  "find_prop props epc =
     (case find (\<lambda>p. p_EPC p = epc \<and> 0 < length (p_EDT p)) props of
        Some p \<Rightarrow> Some (p_EDT p) | None \<Rightarrow> None)"

section \<open>Notification frames\<close>

record INFFrame =
  i_TID :: "16 word"
  i_SEOJ :: eoj
  i_DEOJ :: eoj
  i_ESV :: byte
  i_Props :: "Property list"

definition IsNotification :: "INFFrame \<Rightarrow> bool" where
  "IsNotification f \<longleftrightarrow> i_ESV f = esvINF \<or> i_ESV f = esvINFC \<or> i_ESV f = esvINFSNA"

definition ParseINFFrame :: "bytes \<Rightarrow> frame_error + INFFrame" where
  "ParseINFFrame data =
     (case parseFrame data of
        Inl e \<Rightarrow> Inl e
      | Inr (tid, esv, props) \<Rightarrow>
          Inr \<lparr>i_TID = tid,
               i_SEOJ = (data ! 4, data ! 5, data ! 6),
               i_DEOJ = (data ! 7, data ! 8, data ! 9),
               i_ESV = esv,
               i_Props = props\<rparr>)"

definition prop_bytes :: "Property \<Rightarrow> bytes" where
  "prop_bytes p = [p_EPC p, p_PDC p] @ p_EDT p"

definition BuildINFCRes :: "INFFrame \<Rightarrow> bytes" where
  "BuildINFCRes fr =
     [ehd1, ehd2] @ tid_bytes (i_TID fr) @ [seojController, seojClass, seojInstance]
     @ eoj_bytes (i_SEOJ fr) @ [esvINFCRes] @ [word_of_nat (length (i_Props fr))]
     @ concat (map prop_bytes (i_Props fr))"

section \<open>Property maps and identity data\<close>

text \<open>
  Fewer than 17 bytes: the bytes after the first are the codes. Otherwise bytes 1 to 16 are a
  bitmap: bit \<open>j\<close> of byte \<open>i\<close> stands for the code \<open>(j + 8) * 0x10 + (i - 1)\<close>, computed in a byte.
\<close>

definition decodePropertyMap :: "bytes \<Rightarrow> byte set" where
  "decodePropertyMap edt =
     (if edt = [] then {}
      else if length edt < 17 then set (drop 1 edt)
      else set (concat (map (\<lambda>i. concat (map (\<lambda>j.
             if drop_bit j (edt ! i) AND 0x01 = 0x01
             then [word_of_nat ((j + 8) * 0x10) + word_of_nat (i - 1)] else []) [0..<8]))
           [1..<17])))"

text \<open>
  \<open>decodeUID\<close>: the hexadecimal form of the bytes after the first, or six digits made of the
  last two bytes of the host's address. \<open>net.ParseIP(host).To4()\<close> reads a dotted quad (each field
  one to three digits, no leading zero, at most 255); for an IPv6 literal it is the parameter
  \<open>v6\<close>.
\<close>

definition parse_octet :: "string \<Rightarrow> byte option" where
  "parse_octet s =
     (let v = foldl (\<lambda>a c. a * 10 + (of_char c - 48)) (0 :: nat) s
      in if s = [] \<or> 3 < length s \<or> \<not> list_all (\<lambda>c. 48 \<le> (of_char c :: nat) \<and> (of_char c :: nat) \<le> 57) s
           \<or> (1 < length s \<and> hd s = CHR ''0'') \<or> 255 < v
         then None else Some (word_of_nat v))"

definition parse_ip4 :: "(string \<Rightarrow> (byte \<times> byte \<times> byte \<times> byte) option) \<Rightarrow> string \<Rightarrow> (byte \<times> byte \<times> byte \<times> byte) option" where
  "parse_ip4 v6 s =
     (case dropWhile (\<lambda>c. c \<noteq> CHR ''.'' \<and> c \<noteq> CHR '':'' \<and> c \<noteq> CHR ''%'') s of
        [] \<Rightarrow> None
      | c # _ \<Rightarrow>
          if c = CHR ''.'' then
            (case map parse_octet (split_on CHR ''.'' s) of
               [Some a, Some b, Some e, Some d] \<Rightarrow> Some (a, b, e, d) | _ \<Rightarrow> None)
          else if c = CHR '':'' then v6 s else None)"

definition decodeUID :: "(string \<Rightarrow> (byte \<times> byte \<times> byte \<times> byte) option) \<Rightarrow> bytes \<Rightarrow> string \<Rightarrow> string" where
  "decodeUID v6 edt host =
     (if 1 < length edt then concat (map hex2 (drop 1 edt))
      else case parse_ip4 v6 host of
             Some (a, b, c, d) \<Rightarrow> dec3 c @ dec3 d
           | None \<Rightarrow> [])"

definition decodeProductCode :: "bytes \<Rightarrow> string" where
  "decodeProductCode edt =
     (if edt = [] then []
      else trim_space (rev (dropWhile (\<lambda>c. c = CHR 0x00) (rev (byte_string edt)))))"

text \<open>\<open>formatEOJ\<close> and the manufacturer code as six hexadecimal digits.\<close>

definition formatEOJ :: "eoj \<Rightarrow> string" where
  "formatEOJ e = (case e of (a, b, c) \<Rightarrow> ''0x'' @ hex2 a @ hex2 b @ hex2 c)"

definition formatEPCList :: "bytes \<Rightarrow> string" where
  "formatEPCList epcs =
     (if epcs = [] then ''[]''
      else ''['' @ concat (map (\<lambda>(i, e). (if i = 0 then '''' else '', '') @ ''0x'' @ hex2 e)
                         (enumerate 0 epcs)) @ '']'')"

section \<open>Lemmas: frames\<close>

text \<open>What the parser promises of a property, and the frame as the standard lays it out.\<close>

definition prop_ok :: "Property \<Rightarrow> bool" where
  "prop_ok p \<longleftrightarrow> length (p_EDT p) = unat (p_PDC p)"

definition frame_of :: "16 word \<Rightarrow> eoj \<Rightarrow> eoj \<Rightarrow> byte \<Rightarrow> Property list \<Rightarrow> bytes" where
  "frame_of tid seoj deoj esv props =
     [ehd1, ehd2] @ tid_bytes tid @ eoj_bytes seoj @ eoj_bytes deoj @ [esv]
     @ [word_of_nat (length props)] @ concat (map prop_bytes props)"

abbreviation controller :: eoj where
  "controller \<equiv> (seojController, seojClass, seojInstance)"

lemma length_eoj_bytes [simp]: "length (eoj_bytes e) = 3"
  by (simp add: eoj_bytes_def split: prod.splits)

lemma length_tid_bytes [simp]: "length (tid_bytes t) = 2"
  by (simp add: tid_bytes_def)

lemma be16_tid_bytes [simp]: "be16 (ucast (drop_bit 8 t)) (ucast t) = t"
proof (rule bit_word_eqI)
  fix n
  assume "n < LENGTH(16)"
  then show "bit (be16 (ucast (drop_bit 8 t)) (ucast t)) n = bit t n"
    by (auto simp: be16_def bit_or_iff bit_push_bit_iff bit_ucast_iff bit_drop_bit_eq
        dest: bit_imp_le_length)
qed

lemma GetRequest_frame:
  "GetRequest tid eoj epcs
     = frame_of tid controller eoj esvGet (map (\<lambda>e. \<lparr>p_EPC = e, p_PDC = 0, p_EDT = []\<rparr>) epcs)"
  by (simp add: GetRequest_def frame_of_def eoj_bytes_def prop_bytes_def comp_def)

lemma SetRequest_frame:
  "SetRequest tid eoj epc edt
     = frame_of tid controller eoj esvSetC [\<lparr>p_EPC = epc, p_PDC = word_of_nat (length edt), p_EDT = edt\<rparr>]"
  by (simp add: SetRequest_def frame_of_def eoj_bytes_def prop_bytes_def Let_def)

lemma SetIRequest_frame:
  "SetIRequest tid eoj epc edt
     = frame_of tid controller eoj esvSetI [\<lparr>p_EPC = epc, p_PDC = word_of_nat (length edt), p_EDT = edt\<rparr>]"
  by (simp add: SetIRequest_def frame_of_def eoj_bytes_def prop_bytes_def Let_def)

lemma BuildINFCRes_frame:
  "BuildINFCRes fr = frame_of (i_TID fr) controller (i_SEOJ fr) esvINFCRes (i_Props fr)"
  by (simp add: BuildINFCRes_def frame_of_def eoj_bytes_def)

lemma parseProps_prop_ok: "p \<in> set (parseProps n bs) \<Longrightarrow> prop_ok p"
  by (induction n bs rule: parseProps.induct) (auto simp: prop_ok_def Let_def split: if_splits)

lemma length_parseProps: "length (parseProps n bs) \<le> n"
  by (induction n bs rule: parseProps.induct) (auto simp: Let_def)

lemma parseProps_concat:
  "\<forall>p \<in> set ps. prop_ok p \<Longrightarrow> parseProps (length ps) (concat (map prop_bytes ps) @ tail) = ps"
  by (induction ps) (auto simp: prop_bytes_def prop_ok_def Let_def)

text \<open>
  The parser reads the longest prefix of whole properties, up to \<open>n\<close> of them: what it read is
  literally at the front, and if it read fewer than asked for, what is left is shorter than one
  property header or than the data its header announces.
\<close>

definition truncated :: "bytes \<Rightarrow> bool" where
  "truncated rest \<longleftrightarrow> (case rest of epc # pdc # data \<Rightarrow> length data < unat pdc | _ \<Rightarrow> True)"

lemma parseProps_prefix:
  "\<exists>rest. bs = concat (map prop_bytes (parseProps n bs)) @ rest
     \<and> (length (parseProps n bs) = n \<or> truncated rest)"
proof (induction n bs rule: parseProps.induct)
  case (1 opc epc pdc rest)
  show ?case
  proof (cases "length rest < unat pdc")
    case True
    then show ?thesis by (simp add: truncated_def)
  next
    case False
    from "1.IH" [OF refl False] obtain r where
      r: "drop (unat pdc) rest = concat (map prop_bytes (parseProps opc (drop (unat pdc) rest))) @ r"
      "length (parseProps opc (drop (unat pdc) rest)) = opc \<or> truncated r"
      by blast
    let ?ps = "parseProps opc (drop (unat pdc) rest)"
    have step: "parseProps (Suc opc) (epc # pdc # rest)
        = \<lparr>p_EPC = epc, p_PDC = pdc, p_EDT = take (unat pdc) rest\<rparr> # ?ps"
      using False by (simp add: Let_def)
    have "rest = take (unat pdc) rest @ concat (map prop_bytes ?ps) @ r"
      by (simp only: r(1) [symmetric] append_take_drop_id)
    then have "epc # pdc # rest = concat (map prop_bytes (parseProps (Suc opc) (epc # pdc # rest))) @ r"
      unfolding step by (simp add: prop_bytes_def [of "Property.make _ _ _"] prop_bytes_def del: parseProps.simps)
    with r(2) show ?thesis unfolding step by auto
  qed
qed (auto simp: truncated_def)

lemma parseFrame_frame_of:
  assumes "\<forall>p \<in> set ps. prop_ok p" "length ps < 256"
  shows "parseFrame (frame_of tid seoj deoj esv ps) = Inr (tid, esv, ps)"
proof -
  obtain a b c where s: "seoj = (a, b, c)" by (cases seoj)
  obtain d e f where d: "deoj = (d, e, f)" by (cases deoj)
  have "unat (word_of_nat (length ps) :: byte) = length ps"
    using assms(2) by (simp add: unat_of_nat)
  then show ?thesis
    using parseProps_concat [OF assms(1), of "[]"]
    by (simp add: parseFrame_def frame_of_def tid_bytes_def eoj_bytes_def s d)
qed

lemma ParseINFFrame_frame_of:
  assumes "\<forall>p \<in> set ps. prop_ok p" "length ps < 256"
  shows "ParseINFFrame (frame_of tid seoj deoj esv ps)
    = Inr \<lparr>i_TID = tid, i_SEOJ = seoj, i_DEOJ = deoj, i_ESV = esv, i_Props = ps\<rparr>"
proof -
  obtain a b c where s: "seoj = (a, b, c)" by (cases seoj)
  obtain d e f where d: "deoj = (d, e, f)" by (cases deoj)
  show ?thesis
    using parseFrame_frame_of [OF assms, of tid seoj deoj esv]
    by (simp add: ParseINFFrame_def frame_of_def tid_bytes_def eoj_bytes_def s d)
qed

lemma parseFrame_InrD:
  assumes "parseFrame data = Inr (tid, esv, ps)"
  shows "12 \<le> length data" "tid = be16 (data ! 2) (data ! 3)" "esv = data ! 10"
    "ps = parseProps (unat (data ! 11)) (drop 12 data)" "length ps < 256" "\<forall>p \<in> set ps. prop_ok p"
proof -
  show "12 \<le> length data" "tid = be16 (data ! 2) (data ! 3)" "esv = data ! 10" and
    ps: "ps = parseProps (unat (data ! 11)) (drop 12 data)"
    using assms by (auto simp: parseFrame_def split: if_splits)
  show "length ps < 256"
    unfolding ps using length_parseProps unat_byte_less by (rule le_less_trans)
  from ps show "\<forall>p \<in> set ps. prop_ok p" by (auto intro: parseProps_prop_ok)
qed

lemma ParseINFFrame_InrD:
  assumes "ParseINFFrame data = Inr fr"
  shows "\<forall>p \<in> set (i_Props fr). prop_ok p" "length (i_Props fr) < 256"
proof -
  from assms obtain tid esv ps where "parseFrame data = Inr (tid, esv, ps)" "i_Props fr = ps"
    by (auto simp: ParseINFFrame_def split: sum.splits prod.splits)
  with parseFrame_InrD [of data tid esv ps]
  show "\<forall>p \<in> set (i_Props fr). prop_ok p" "length (i_Props fr) < 256" by auto
qed

section \<open>Lemmas: property maps\<close>

lemma mask_one_bit: "(drop_bit j (b :: byte) AND 0x01 = 0x01) = bit b j"
  by (simp add: and_one_eq bit_iff_odd_drop_bit mod_2_eq_odd)

lemma epc_of_bit:
  "j < 8 \<Longrightarrow> 1 \<le> i \<Longrightarrow> i < 17 \<Longrightarrow>
    (word_of_nat ((j + 8) * 0x10) + word_of_nat (i - 1) :: byte) = word_of_nat (0x80 + 16 * j + (i - 1))"
proof -
  have "(j + 8) * 0x10 + (i - 1) = 0x80 + 16 * j + (i - 1)" by simp
  then show ?thesis by (metis of_nat_add)
qed

lemma unat_byte_of_nat: "n < 256 \<Longrightarrow> unat (word_of_nat n :: byte) = n"
  by (simp add: unat_of_nat)

lemma mem_concat_guarded:
  "e \<in> set (concat (map (\<lambda>i. concat (map (\<lambda>j. if P i j then [f i j] else []) js)) is))
    \<longleftrightarrow> (\<exists>i \<in> set is. \<exists>j \<in> set js. P i j \<and> e = f i j)"
  by (auto split: if_splits)

lemma decodePropertyMap_mem:
  assumes "17 \<le> length edt"
  shows "epc \<in> decodePropertyMap edt
    \<longleftrightarrow> (\<exists>i \<in> {1..<17}. \<exists>j \<in> {0..<8}. bit (edt ! i) j \<and>
          epc = word_of_nat ((j + 8) * 0x10) + word_of_nat (i - 1))"
proof -
  have n: "edt \<noteq> []" "\<not> length edt < 17" using assms by auto
  show ?thesis
    unfolding decodePropertyMap_def mask_one_bit if_not_P [OF n(1)] if_not_P [OF n(2)]
      set_upt [symmetric]
    by (rule mem_concat_guarded)
qed

lemma code_split:
  assumes "k < 16"
  shows "(0x80 + 16 * j + k) mod 16 = (k :: nat)" "(0x80 + 16 * j + k) div 16 - 8 = j"
proof -
  have "0x80 + 16 * j + k = k + (8 + j) * 16" by simp
  then show "(0x80 + 16 * j + k) mod 16 = k" "(0x80 + 16 * j + k) div 16 - 8 = j"
    using assms by (simp_all only: mod_mult_self1 div_mult_self1) simp_all
qed

lemma decodePropertyMap_bitmap:
  assumes "17 \<le> length edt"
  shows "epc \<in> decodePropertyMap edt
    \<longleftrightarrow> 0x80 \<le> unat epc \<and> bit (edt ! (1 + unat epc mod 16)) (unat epc div 16 - 8)"
    (is "?L \<longleftrightarrow> ?R")
proof
  assume ?L
  then obtain i j where *: "1 \<le> i" "i < 17" "j < 8" "bit (edt ! i) j"
    "epc = word_of_nat ((j + 8) * 0x10) + word_of_nat (i - 1)"
    unfolding decodePropertyMap_mem [OF assms] by auto
  from *(1-3) have b: "0x80 + 16 * j + (i - 1) < 256" by linarith
  have u: "unat epc = 0x80 + 16 * j + (i - 1)"
    unfolding *(5) epc_of_bit [OF *(3,1,2)] by (rule unat_byte_of_nat [OF b])
  have e: "1 + unat epc mod 16 = i" "unat epc div 16 - 8 = j" "0x80 \<le> unat epc"
    unfolding u using code_split [of "i - 1" j] *(1,2) by linarith+
  show ?R unfolding e(1,2) using e(3) *(4) by (rule conjI)
next
  assume R: ?R
  define i j where "i = 1 + unat epc mod 16" and "j = unat epc div 16 - 8"
  have b: "unat epc < 256" by simp
  from R have q: "8 \<le> unat epc div 16" by (simp add: div_le_mono [of 128 _ 16, simplified])
  from b have "unat epc div 16 < 16" by (simp add: div_less_iff_less_mult)
  with q mult_div_mod_eq [of 16 "unat epc"]
  have ij: "1 \<le> i" "i < 17" "j < 8" "unat epc = 0x80 + 16 * j + (i - 1)"
    unfolding i_def j_def using mod_less_divisor [of 16 "unat epc"] by linarith+
  have "epc = word_of_nat (unat epc)" by simp
  then have "epc = word_of_nat (0x80 + 16 * j + (i - 1))" unfolding ij(4) .
  then have "epc = word_of_nat ((j + 8) * 0x10) + word_of_nat (i - 1)"
    unfolding epc_of_bit [OF ij(3,1,2)] .
  moreover have "bit (edt ! i) j" using R unfolding i_def j_def by (rule conjunct2)
  ultimately show ?L
    unfolding decodePropertyMap_mem [OF assms] using ij(1-3)
    by (intro bexI [of _ i] bexI [of _ j]) simp_all
qed

text \<open>
  The bitmap form of a set of property codes, as the standard lays it out: the number of
  properties, then byte \<open>i + 1\<close> with bit \<open>j\<close> set when the code \<open>0x80 + 16 * j + i\<close> is in the set.
\<close>

definition bitmap_byte :: "byte set \<Rightarrow> nat \<Rightarrow> byte" where
  "bitmap_byte S i = fold (\<lambda>j acc. if word_of_nat (0x80 + 16 * j + i) \<in> S then set_bit j acc else acc) [0..<8] 0"

definition encode_property_map :: "byte set \<Rightarrow> bytes" where
  "encode_property_map S = word_of_nat (card S) # map (bitmap_byte S) [0..<16]"

lemma bit_fold_set_bit:
  "bit (fold (\<lambda>j acc. if P j then set_bit j acc else acc) xs (a :: byte)) n
    \<longleftrightarrow> bit a n \<or> (n < 8 \<and> n \<in> set xs \<and> P n)"
  by (induction xs arbitrary: a) (auto simp: bit_set_bit_iff dest: bit_imp_le_length)

lemma bit_bitmap_byte:
  "j < 8 \<Longrightarrow> bit (bitmap_byte S i) j \<longleftrightarrow> word_of_nat (0x80 + 16 * j + i) \<in> S"
  by (simp add: bitmap_byte_def bit_fold_set_bit)

lemma decode_encode_property_map:
  assumes "\<forall>e \<in> S. 0x80 \<le> unat e"
  shows "decodePropertyMap (encode_property_map S) = S"
proof (rule set_eqI)
  fix e :: byte
  have u: "unat e < 256" by simp
  have len: "17 \<le> length (encode_property_map S)" by (simp add: encode_property_map_def)
  have b: "bit (encode_property_map S ! (1 + unat e mod 16)) (unat e div 16 - 8) \<longleftrightarrow> e \<in> S"
    if "0x80 \<le> unat e"
  proof -
    have "unat e div 16 < 16" using u by (intro less_mult_imp_div_less) simp
    then have j: "unat e div 16 - 8 < 8" and i: "unat e mod 16 < 16" by simp_all
    have "0x80 div 16 \<le> unat e div 16" using that by (rule div_le_mono)
    then have "16 * (unat e div 16 - 8) + 0x80 = 16 * (unat e div 16)" by simp
    then have "0x80 + 16 * (unat e div 16 - 8) + unat e mod 16 = unat e"
      using mult_div_mod_eq [of 16 "unat e"] by linarith
    then show ?thesis
      using i by (simp add: encode_property_map_def nth_Cons bit_bitmap_byte [OF j] del: upt_rec_numeral)
  qed
  show "e \<in> decodePropertyMap (encode_property_map S) \<longleftrightarrow> e \<in> S"
    unfolding decodePropertyMap_bitmap [OF len] using b assms by blast
qed

section \<open>Properties\<close>

text \<open>C38: a SetC request, read back by the frame parser, carries the transaction id, the service
  code and exactly the property code and data it was built from, for every payload that fits the
  one-byte length.\<close>

theorem set_request_roundtrip:
  assumes "length edt < 256"
  shows "parseFrame (SetRequest tid eoj epc edt)
    = Inr (tid, esvSetC, [\<lparr>p_EPC = epc, p_PDC = word_of_nat (length edt), p_EDT = edt\<rparr>])"
  unfolding SetRequest_frame
  by (rule parseFrame_frame_of) (simp_all add: prop_ok_def unat_byte_of_nat assms)

theorem set_request_roundtrip_witness:
  "length ([0x19] :: bytes) < 256 \<and>
   parseFrame (SetRequest 1 (0x01, 0x30, 0x01) 0xB3 [0x19])
     = Inr (1, 0x61, [\<lparr>p_EPC = 0xB3, p_PDC = 1, p_EDT = [0x19]\<rparr>])"
  using set_request_roundtrip [of "[0x19]" 1 "(0x01, 0x30, 0x01)" "0xB3"] by simp

text \<open>A Get request for fewer than 256 codes, read back by the frame parser, asks for exactly
  these codes, in order, each with empty data, under the transaction id it was given.\<close>

theorem get_request_roundtrip:
  assumes "length epcs < 256"
  shows "parseFrame (GetRequest tid eoj epcs)
    = Inr (tid, esvGet, map (\<lambda>e. \<lparr>p_EPC = e, p_PDC = 0, p_EDT = []\<rparr>) epcs)"
  unfolding GetRequest_frame
  by (rule parseFrame_frame_of) (auto simp: prop_ok_def assms)

theorem get_request_roundtrip_witness:
  "length ([0x80, 0xE0] :: bytes) < 256 \<and>
   parseFrame (GetRequest 0x1234 (0x02, 0x88, 0x01) [0x80, 0xE0])
     = Inr (0x1234, 0x62, [\<lparr>p_EPC = 0x80, p_PDC = 0, p_EDT = []\<rparr>, \<lparr>p_EPC = 0xE0, p_PDC = 0, p_EDT = []\<rparr>])"
  using get_request_roundtrip [of "[0x80, 0xE0]" "0x1234" "(0x02, 0x88, 0x01)"] by simp

text \<open>The acknowledgement built for any notification frame the parser accepted is itself a
  well-formed frame: it parses to the same transaction id and properties, from the controller to
  the object that notified, with service code INFC_Res.\<close>

theorem infc_res_acknowledges:
  assumes "ParseINFFrame data = Inr fr"
  shows "ParseINFFrame (BuildINFCRes fr)
    = Inr \<lparr>i_TID = i_TID fr, i_SEOJ = controller, i_DEOJ = i_SEOJ fr, i_ESV = esvINFCRes,
           i_Props = i_Props fr\<rparr>"
  unfolding BuildINFCRes_frame
  by (rule ParseINFFrame_frame_of [OF ParseINFFrame_InrD [OF assms]])

theorem infc_res_acknowledges_witness:
  "\<exists>fr. ParseINFFrame [0x10, 0x81, 0, 7, 1, 0x30, 1, 5, 0xFF, 1, 0x74, 1, 0x80, 1, 0x30] = Inr fr
     \<and> ParseINFFrame (BuildINFCRes fr)
       = Inr \<lparr>i_TID = i_TID fr, i_SEOJ = controller, i_DEOJ = i_SEOJ fr, i_ESV = esvINFCRes,
              i_Props = i_Props fr\<rparr>"
proof -
  have "\<exists>fr. ParseINFFrame [0x10, 0x81, 0, 7, 1, 0x30, 1, 5, 0xFF, 1, 0x74, 1, 0x80, 1, 0x30] = Inr fr"
    by (simp add: ParseINFFrame_def parseFrame_def)
  then show ?thesis using infc_res_acknowledges by blast
qed

text \<open>C39: what the frame parser returns is the longest prefix of whole properties in the body: the
  properties it read, re-encoded, are literally the front of the body, there are at most as many
  as the count byte says, and if there are fewer, the rest of the body is not a whole property.\<close>

theorem parse_frame_longest_prefix:
  assumes "parseFrame data = Inr (tid, esv, ps)"
  shows "\<exists>rest. drop 12 data = concat (map prop_bytes ps) @ rest
    \<and> length ps \<le> unat (data ! 11) \<and> (length ps = unat (data ! 11) \<or> truncated rest)"
  using parseProps_prefix [of "drop 12 data" "unat (data ! 11)"]
    length_parseProps [of "unat (data ! 11)" "drop 12 data"] parseFrame_InrD(4) [OF assms]
  by auto

theorem parse_frame_longest_prefix_witness:
  "parseFrame [0x10, 0x81, 0, 1, 1, 0x30, 1, 5, 0xFF, 1, 0x72, 1, 0xE0, 4, 0, 0x10] = Inr (1, 0x72, [])
   \<and> (\<exists>rest. drop 12 ([0x10, 0x81, 0, 1, 1, 0x30, 1, 5, 0xFF, 1, 0x72, 1, 0xE0, 4, 0, 0x10] :: bytes)
        = concat (map prop_bytes []) @ rest \<and> truncated rest)"
proof -
  let ?d = "[0x10, 0x81, 0, 1, 1, 0x30, 1, 5, 0xFF, 1, 0x72, 1, 0xE0, 4, 0, 0x10] :: bytes"
  have p: "parseFrame ?d = Inr (1, 0x72, [])" by (simp add: parseFrame_def be16_def)
  from parse_frame_longest_prefix [OF p] have "\<exists>rest. drop 12 ?d = concat (map prop_bytes []) @ rest \<and> truncated rest"
    by auto
  with p show ?thesis by blast
qed

text \<open>C40: decoding the standard's 17-byte bitmap of any set of property codes (all from 0x80 on)
  gives back exactly that set.\<close>

theorem property_map_roundtrip:
  assumes "\<forall>e \<in> S. 0x80 \<le> unat e"
  shows "decodePropertyMap (encode_property_map S) = S"
  using assms by (rule decode_encode_property_map)

theorem property_map_roundtrip_witness:
  "decodePropertyMap (encode_property_map {0x80, 0xB3, 0xFF}) = {0x80, 0xB3, 0xFF}"
  by (rule property_map_roundtrip) simp

end
