(* ===== verification/Transport.thy ===== *)
theory Transport
  imports Protocol
begin

text \<open>
  \<open>internal/echonet/transport.go\<close>: the shared UDP socket, the waiters that match a response to
  its request, retry and fallback, and the per-host locks. The network and the clock are the
  parameter \<open>net\<close> with a state \<open>'w\<close> of their own: binding, writing, what the sockets read while
  a request waits, and what ends the wait. \<open>Send\<close> is the handler of one request run alone; the
  relation \<open>sys_step\<close> interleaves the steps of many requests with the receiver. The lemmas
  show that a response belongs to its request, that the shared state is left clean, that retry
  and fallback are bounded, and mutual exclusion per host.
\<close>

unbundle bit_operations_syntax

record UDPAddr =
  a_IP :: "string option"
  a_Port :: int

record UDPFrame =
  u_From :: "UDPAddr option"
  u_Data :: bytes

record expiredWaiter =
  e_expiredAt :: time
  e_caller :: string

text \<open>
  A response channel is a cell for one frame (\<open>make(chan UDPFrame, 1)\<close>), allocated in \<open>t_chans\<close>;
  \<open>t_waiters\<close> holds its index. A host lock is the boolean \<open>locked\<close>. A connection is a number.
  The notification channel is its capacity and the frames in it.
\<close>

record Transport =
  t_tidCounter :: "32 word"
  t_inFlight :: "32 word"
  t_hostLocks :: "(string, bool) gomap"
  t_fixedConn :: "nat option"
  t_waiters :: "(string, nat) gomap"
  t_chans :: "UDPFrame option list"
  t_expiredWaiters :: "(string, expiredWaiter) gomap"
  t_strictSource :: bool
  t_infChan :: "(nat \<times> UDPFrame list) option"

definition NewTransport :: "bool \<Rightarrow> Transport" where
  "NewTransport strictSourcePort3610 =
     \<lparr>t_tidCounter = 0, t_inFlight = 0, t_hostLocks = [], t_fixedConn = None, t_waiters = [],
      t_chans = [], t_expiredWaiters = [], t_strictSource = strictSourcePort3610, t_infChan = None\<rparr>"

definition SetNotificationChan :: "nat \<Rightarrow> Transport \<Rightarrow> Transport" where
  "SetNotificationChan capacity t = t\<lparr>t_infChan := Some (capacity, [])\<rparr>"

text \<open>\<open>hostLabel\<close>, with the resolver an option.\<close>

definition transport_hostLabel :: "(string \<Rightarrow> string) option \<Rightarrow> string \<Rightarrow> string" where
  "transport_hostLabel nameResolver ip =
     (case nameResolver of
        None \<Rightarrow> ip
      | Some f \<Rightarrow> (let name = f ip in if name \<noteq> [] then name @ '' ('' @ ip @ '')'' else ip))"

section \<open>Addresses and keys\<close>

text \<open>\<open>net.SplitHostPort\<close> and \<open>net.JoinHostPort\<close> of the standard library, errors as \<open>None\<close>.\<close>

definition split_host_port :: "string \<Rightarrow> (string \<times> string) option" where
  "split_host_port s =
     (if CHR '':'' \<notin> set s then None
      else let port = rev (takeWhile (\<lambda>c. c \<noteq> CHR '':'') (rev s));
               i = length s - length port - 1
        in if hd s = CHR ''['' then
             (if CHR '']'' \<notin> set s then None
              else let e = length (takeWhile (\<lambda>c. c \<noteq> CHR '']'') s)
                in if e + 1 \<noteq> i then None
                   else if CHR ''['' \<in> set (drop 1 s) \<or> CHR '']'' \<in> set (drop (e + 1) s) then None
                   else Some (take (e - 1) (drop 1 s), port))
           else let host = take i s
             in if CHR '':'' \<in> set host then None
                else if CHR ''['' \<in> set s \<or> CHR '']'' \<in> set s then None
                else Some (host, port))"

definition join_host_port :: "string \<Rightarrow> string \<Rightarrow> string" where
  "join_host_port host port =
     (if CHR '':'' \<in> set host then ''['' @ host @ '']:'' @ port else host @ '':'' @ port)"

definition normalizeHost :: "string \<Rightarrow> string" where
  "normalizeHost addr = (case split_host_port addr of Some (host, _) \<Rightarrow> host | None \<Rightarrow> addr)"

definition host_with_port :: "string \<Rightarrow> string" where
  "host_with_port addr =
     (if split_host_port addr = None then join_host_port addr ''3610'' else addr)"

text \<open>\<open>IP.String()\<close>, and the waiter key: \<open>host + "|" + Sprintf("%04x", tid)\<close>.\<close>

definition ip_string :: "string option \<Rightarrow> string" where
  "ip_string ip = (case ip of Some s \<Rightarrow> s | None \<Rightarrow> ''<nil>'')"

definition waiterKey :: "string \<Rightarrow> 16 word \<Rightarrow> string" where
  "waiterKey host tid = host @ ''|'' @ hex2 (ucast (drop_bit 8 tid)) @ hex2 (ucast tid)"

abbreviation echonetPort :: int where "echonetPort \<equiv> 3610"

section \<open>Classifying errors\<close>

text \<open>
  \<open>err.Error()\<close>, without the addresses the messages of the \<open>net\<close> package also hold.
\<close>

fun net_error_msg :: "net_error \<Rightarrow> string" where
  "net_error_msg IOTimeout = ''i/o timeout''"
| "net_error_msg CtxCanceled = ''context canceled''"
| "net_error_msg CtxDeadline = ''context deadline exceeded''"
| "net_error_msg AddrInUse = ''bind: address already in use''"
| "net_error_msg AccessDenied = ''bind: permission denied''"
| "net_error_msg NetClosed = ''use of closed network connection''"
| "net_error_msg BadAddr = ''missing address''"
| "net_error_msg (OtherNet msg) = msg"
| "net_error_msg (StrictSource e) = ''failed to send from required local UDP port 3610: '' @ net_error_msg e"
| "net_error_msg (FallbackFailed e1 e2) =
     ''failed local UDP port 3610 ('' @ net_error_msg e1 @ ''), ephemeral fallback also failed: '' @ net_error_msg e2"

text \<open>The error that \<open>%w\<close> wraps, at the end of the chain \<open>errors.Is\<close> and \<open>errors.As\<close> follow.\<close>

fun unwrap_net :: "net_error \<Rightarrow> net_error" where
  "unwrap_net (StrictSource e) = unwrap_net e"
| "unwrap_net (FallbackFailed e1 e2) = unwrap_net e2"
| "unwrap_net e = e"

definition isPortBindFailure :: "net_error \<Rightarrow> bool" where
  "isPortBindFailure err \<longleftrightarrow>
     (if unwrap_net err = AddrInUse \<or> unwrap_net err = AccessDenied then True
      else let msg = ascii_lower (net_error_msg err)
        in string_contains msg ''address already in use'' \<or> string_contains msg ''permission denied'')"

text \<open>A timeout of the socket and an expired context both are a \<open>net.Error\<close> with \<open>Timeout()\<close>.\<close>

definition isTimeoutError :: "net_error \<Rightarrow> bool" where
  "isTimeoutError err \<longleftrightarrow>
     (if unwrap_net err = IOTimeout \<or> unwrap_net err = CtxDeadline then True
      else string_contains (ascii_lower (net_error_msg err)) ''i/o timeout'')"

section \<open>Waiters, locks and the receiver\<close>

definition NextTID :: "Transport \<Rightarrow> 16 word \<times> Transport" where
  "NextTID t = (let c = t_tidCounter t + 1 in (ucast c, t\<lparr>t_tidCounter := c\<rparr>))"

definition lockForHost :: "string \<Rightarrow> Transport \<Rightarrow> Transport" where
  "lockForHost host t =
     (case map_of (t_hostLocks t) host of
        Some _ \<Rightarrow> t
      | None \<Rightarrow> t\<lparr>t_hostLocks := AList.update host False (t_hostLocks t)\<rparr>)"

definition set_lock :: "string \<Rightarrow> bool \<Rightarrow> Transport \<Rightarrow> Transport" where
  "set_lock host b t = t\<lparr>t_hostLocks := AList.update host b (t_hostLocks t)\<rparr>"

definition addWaiter :: "string \<Rightarrow> nat \<Rightarrow> Transport \<Rightarrow> Transport" where
  "addWaiter key ch t = t\<lparr>t_waiters := AList.update key ch (t_waiters t)\<rparr>"

definition removeWaiter :: "string \<Rightarrow> Transport \<Rightarrow> Transport" where
  "removeWaiter key t = t\<lparr>t_waiters := AList.delete key (t_waiters t)\<rparr>"

abbreviation maxExpiredWaiters :: nat where "maxExpiredWaiters \<equiv> 128"
abbreviation expiredWaitersTTL :: duration where "expiredWaitersTTL \<equiv> 30 * second"

definition recordExpiredWaiter :: "string \<Rightarrow> string \<Rightarrow> time \<Rightarrow> Transport \<Rightarrow> Transport" where
  "recordExpiredWaiter key caller now t =
     (let m = t_expiredWaiters t;
          m1 = (if maxExpiredWaiters \<le> length m
                then let m' = filter (\<lambda>(k, v). \<not> expiredWaitersTTL < time_sub now (e_expiredAt v)) m
                  in if maxExpiredWaiters \<le> length m' then [] else m'
                else m)
      in t\<lparr>t_expiredWaiters := AList.update key \<lparr>e_expiredAt = now, e_caller = caller\<rparr> m1\<rparr>)"

definition checkAndPopExpiredWaiter :: "string \<Rightarrow> Transport \<Rightarrow> expiredWaiter option \<times> Transport" where
  "checkAndPopExpiredWaiter key t =
     (case map_of (t_expiredWaiters t) key of
        None \<Rightarrow> (None, t)
      | Some entry \<Rightarrow> (Some entry, t\<lparr>t_expiredWaiters := AList.delete key (t_expiredWaiters t)\<rparr>))"

text \<open>
  What \<open>ReadFromUDP\<close> returns, and one turn of the receiver loop; the second component says
  whether the loop goes on. The buffer holds 2048 bytes. Sending to a channel never blocks: a
  full notification channel drops the frame, and so does a response channel that holds one.
\<close>

datatype read_result = ReadErr net_error | ReadFrom "UDPAddr option" bytes

definition chan_offer :: "nat \<Rightarrow> UDPFrame \<Rightarrow> Transport \<Rightarrow> Transport" where
  "chan_offer ch frame t =
     (if t_chans t ! ch = None then t\<lparr>t_chans := (t_chans t)[ch := Some frame]\<rparr> else t)"

definition inf_offer :: "UDPFrame \<Rightarrow> Transport \<Rightarrow> Transport" where
  "inf_offer frame t =
     (case t_infChan t of
        None \<Rightarrow> t
      | Some (capacity, queue) \<Rightarrow>
          if length queue < capacity then t\<lparr>t_infChan := Some (capacity, queue @ [frame])\<rparr> else t)"

definition receiveFixedConn :: "nat \<Rightarrow> read_result \<Rightarrow> Transport \<Rightarrow> Transport \<times> bool" where
  "receiveFixedConn conn r t =
     (case r of
        ReadErr e \<Rightarrow>
          if e = NetClosed
          then (if t_fixedConn t = Some conn then t\<lparr>t_fixedConn := None\<rparr> else t, False)
          else (t, True)
      | ReadFrom None _ \<Rightarrow> (t, True)
      | ReadFrom (Some addr) datagram \<Rightarrow>
          (case a_IP addr of
             None \<Rightarrow> (t, True)
           | Some ip \<Rightarrow>
               let buf = take 2048 datagram; n = length buf
               in if n < minResponseLen then (t, True)
                  else let tid = be16 (buf ! 2) (buf ! 3); key = waiterKey ip tid;
                           frame = \<lparr>u_From = Some addr, u_Data = buf\<rparr>
                    in case map_of (t_waiters t) key of
                         None \<Rightarrow> (inf_offer frame (snd (checkAndPopExpiredWaiter key t)), True)
                       | Some ch \<Rightarrow> (chan_offer ch frame t, True)))"

text \<open>The loop over what the socket reads; it stops for good when the connection is closed.\<close>

fun receiveAll :: "nat \<Rightarrow> read_result list \<Rightarrow> Transport \<Rightarrow> Transport" where
  "receiveAll conn [] t = t"
| "receiveAll conn (r # rs) t =
     (case receiveFixedConn conn r t of (t1, go_on) \<Rightarrow> if go_on then receiveAll conn rs t1 else t1)"

section \<open>Sending\<close>

text \<open>
  The operating system and the caller's context. \<open>n_wait\<close> tells what the shared socket reads
  while the request waits and what ends the wait if none of it was the response: the timer, or
  the context with its error. \<open>n_read\<close> lists, for an ephemeral socket, the turns of the reading
  loop: the context's error before the read, and the result of the read; after them the deadline
  expires.
\<close>

datatype wait_end = TimerFired | CtxDone net_error

record 'w net =
  n_now :: "'w \<Rightarrow> time"
  n_ctxErr :: "'w \<Rightarrow> net_error option"
  n_resolve :: "string \<Rightarrow> 'w \<Rightarrow> net_error + UDPAddr"
  n_open :: "int \<Rightarrow> 'w \<Rightarrow> (net_error + nat) \<times> 'w"
  n_write :: "nat \<Rightarrow> bytes \<Rightarrow> UDPAddr \<Rightarrow> 'w \<Rightarrow> net_error option \<times> 'w"
  n_wait :: "nat \<Rightarrow> duration \<Rightarrow> 'w \<Rightarrow> (read_result list \<times> wait_end) \<times> 'w"
  n_setDeadline :: "nat \<Rightarrow> duration \<Rightarrow> 'w \<Rightarrow> net_error option"
  n_read :: "nat \<Rightarrow> 'w \<Rightarrow> (net_error option \<times> (net_error + UDPAddr \<times> bytes)) list \<times> 'w"

definition getOrCreateFixedConn ::
  "'w net \<Rightarrow> Transport \<times> 'w \<Rightarrow> (net_error + nat) \<times> Transport \<times> 'w" where
  "getOrCreateFixedConn net = (\<lambda>(t, w).
     (case t_fixedConn t of
        Some conn \<Rightarrow> (Inr conn, t, w)
      | None \<Rightarrow>
          (case n_open net echonetPort w of
             (Inl e, w1) \<Rightarrow> (Inl e, t, w1)
           | (Inr conn, w1) \<Rightarrow> (Inr conn, t\<lparr>t_fixedConn := Some conn\<rparr>, w1))))"

definition resetFixedConn :: "nat \<Rightarrow> Transport \<Rightarrow> Transport" where
  "resetFixedConn old t = (if t_fixedConn t = Some old then t\<lparr>t_fixedConn := None\<rparr> else t)"

text \<open>The write, with one more try on a new connection when the shared one was closed.\<close>

definition write_shared ::
  "'w net \<Rightarrow> nat \<Rightarrow> bytes \<Rightarrow> UDPAddr \<Rightarrow> Transport \<times> 'w \<Rightarrow> (net_error + nat) \<times> Transport \<times> 'w" where
  "write_shared net conn req remoteAddr = (\<lambda>(t, w).
     (case n_write net conn req remoteAddr w of
        (None, w1) \<Rightarrow> (Inr conn, t, w1)
      | (Some writeErr, w1) \<Rightarrow>
          if unwrap_net writeErr \<noteq> NetClosed then (Inl writeErr, t, w1)
          else (case getOrCreateFixedConn net (resetFixedConn conn t, w1) of
                  (Inl e, t2, w2) \<Rightarrow> (Inl e, t2, w2)
                | (Inr conn', t2, w2) \<Rightarrow>
                    (case n_write net conn' req remoteAddr w2 of
                       (None, w3) \<Rightarrow> (Inr conn', t2, w3)
                     | (Some writeErr', w3) \<Rightarrow> (Inl writeErr', t2, w3)))))"

definition wait_response ::
  "'w net \<Rightarrow> string \<Rightarrow> string \<Rightarrow> nat \<Rightarrow> nat \<Rightarrow> duration \<Rightarrow> Transport \<times> 'w \<Rightarrow> (net_error + bytes) \<times> Transport \<times> 'w" where
  "wait_response net caller key ch conn timeout = (\<lambda>(t, w).
     (case n_wait net conn timeout w of
        ((rs, ending), w1) \<Rightarrow>
          let t1 = receiveAll conn rs t
          in (case t_chans t1 ! ch of
                Some frame \<Rightarrow> (Inr (u_Data frame), t1, w1)
              | None \<Rightarrow>
                  (case ending of
                     TimerFired \<Rightarrow> (Inl IOTimeout, recordExpiredWaiter key caller (n_now net w1) t1, w1)
                   | CtxDone e \<Rightarrow> (Inl e, recordExpiredWaiter key caller (n_now net w1) t1, w1)))))"

definition sendViaSharedFixedPort ::
  "'w net \<Rightarrow> string \<Rightarrow> UDPAddr \<Rightarrow> bytes \<Rightarrow> 16 word \<Rightarrow> duration \<Rightarrow> Transport \<times> 'w \<Rightarrow>
     (net_error + bytes) \<times> Transport \<times> 'w" where
  "sendViaSharedFixedPort net caller remoteAddr req tid timeout s =
     (case getOrCreateFixedConn net s of
        (Inl e, s1) \<Rightarrow> (Inl e, s1)
      | (Inr conn, t1, w1) \<Rightarrow>
          let key = waiterKey (ip_string (a_IP remoteAddr)) tid;
              ch = length (t_chans t1);
              t2 = addWaiter key ch (t1\<lparr>t_chans := t_chans t1 @ [None]\<rparr>)
          in (case write_shared net conn req remoteAddr (t2, w1) of
                (Inl e, t3, w3) \<Rightarrow> (Inl e, removeWaiter key t3, w3)
              | (Inr conn', t3, w3) \<Rightarrow>
                  (case wait_response net caller key ch conn' timeout (t3, w3) of
                     (r, t4, w4) \<Rightarrow> (r, removeWaiter key t4, w4))))"

text \<open>The reading loop of an ephemeral socket; its buffer holds 1024 bytes.\<close>

fun read_loop ::
  "string option \<Rightarrow> 16 word \<Rightarrow> (net_error option \<times> (net_error + UDPAddr \<times> bytes)) list \<Rightarrow> net_error + bytes" where
  "read_loop remoteIP tid [] = Inl IOTimeout"
| "read_loop remoteIP tid ((Some e, r) # rs) = Inl e"
| "read_loop remoteIP tid ((None, Inl e) # rs) = Inl e"
| "read_loop remoteIP tid ((None, Inr (addr, datagram)) # rs) =
     (let buf = take 1024 datagram
      in if a_IP addr = None \<or> remoteIP = None \<or> a_IP addr \<noteq> remoteIP then read_loop remoteIP tid rs
         else if length buf < minResponseLen then read_loop remoteIP tid rs
         else if be16 (buf ! 2) (buf ! 3) = tid then Inr buf
         else read_loop remoteIP tid rs)"

definition writeAndRead ::
  "'w net \<Rightarrow> nat \<Rightarrow> UDPAddr \<Rightarrow> bytes \<Rightarrow> 16 word \<Rightarrow> duration \<Rightarrow> 'w \<Rightarrow> (net_error + bytes) \<times> 'w" where
  "writeAndRead net conn remoteAddr req tid timeout w =
     (case n_setDeadline net conn timeout w of
        Some e \<Rightarrow> (Inl e, w)
      | None \<Rightarrow>
          (case n_write net conn req remoteAddr w of
             (Some e, w1) \<Rightarrow> (Inl e, w1)
           | (None, w1) \<Rightarrow>
               (case n_read net conn w1 of (rs, w2) \<Rightarrow> (read_loop (a_IP remoteAddr) tid rs, w2))))"

definition sendFromPort ::
  "'w net \<Rightarrow> string \<Rightarrow> string \<Rightarrow> bytes \<Rightarrow> 16 word \<Rightarrow> int \<Rightarrow> duration \<Rightarrow> Transport \<times> 'w \<Rightarrow>
     (net_error + bytes) \<times> Transport \<times> 'w" where
  "sendFromPort net caller host req tid localPort timeout s =
     (case n_resolve net host (snd s) of
        Inl e \<Rightarrow> (Inl e, s)
      | Inr remoteAddr \<Rightarrow>
          if localPort = echonetPort then sendViaSharedFixedPort net caller remoteAddr req tid timeout s
          else (case n_open net localPort (snd s) of
                  (Inl e, w1) \<Rightarrow> (Inl e, fst s, w1)
                | (Inr conn, w1) \<Rightarrow>
                    (case writeAndRead net conn remoteAddr req tid timeout w1 of
                       (r, w2) \<Rightarrow> (r, fst s, w2))))"

abbreviation maxSendAttempts :: nat where "maxSendAttempts \<equiv> 2"

text \<open>
  The retry loop from attempt \<open>maxSendAttempts - n + 1\<close> on: \<open>n\<close> attempts are left, and the last
  one is not followed by another.
\<close>

fun retry_from ::
  "('s \<Rightarrow> net_error option) \<Rightarrow> ('s \<Rightarrow> (net_error + 'r) \<times> 's) \<Rightarrow> nat \<Rightarrow> net_error \<Rightarrow> 's \<Rightarrow> (net_error + 'r) \<times> 's" where
  "retry_from ctxErr once 0 lastErr s = (Inl lastErr, s)"
| "retry_from ctxErr once (Suc n) lastErr s =
     (case ctxErr s of
        Some e \<Rightarrow> (Inl e, s)
      | None \<Rightarrow>
          (case once s of
             (Inr resp, s1) \<Rightarrow> (Inr resp, s1)
           | (Inl err, s1) \<Rightarrow>
               if \<not> isTimeoutError err \<or> n = 0 then (Inl err, s1)
               else retry_from ctxErr once n err s1))"

definition sendWithRetry ::
  "'w net \<Rightarrow> string \<Rightarrow> string \<Rightarrow> bytes \<Rightarrow> 16 word \<Rightarrow> int \<Rightarrow> duration \<Rightarrow> Transport \<times> 'w \<Rightarrow>
     (net_error + bytes) \<times> Transport \<times> 'w" where
  "sendWithRetry net caller host req tid localPort timeout s =
     retry_from (\<lambda>s. n_ctxErr net (snd s)) (sendFromPort net caller host req tid localPort timeout)
       maxSendAttempts (OtherNet []) s"

text \<open>The two deferred actions and the lock around the body of a send.\<close>

definition enter_send :: "string \<Rightarrow> Transport \<Rightarrow> Transport" where
  "enter_send hostKey t =
     set_lock hostKey True (lockForHost hostKey (t\<lparr>t_inFlight := t_inFlight t + 1\<rparr>))"

definition leave_send :: "string \<Rightarrow> Transport \<Rightarrow> Transport" where
  "leave_send hostKey t = (set_lock hostKey False t)\<lparr>t_inFlight := t_inFlight t - 1\<rparr>"

definition send_body ::
  "'w net \<Rightarrow> string \<Rightarrow> string \<Rightarrow> bytes \<Rightarrow> 16 word \<Rightarrow> duration \<Rightarrow> Transport \<times> 'w \<Rightarrow>
     (net_error + bytes) \<times> Transport \<times> 'w" where
  "send_body net caller host req tid timeout s =
     (case sendWithRetry net caller host req tid echonetPort timeout s of
        (Inr resp, s1) \<Rightarrow> (Inr resp, s1)
      | (Inl err, s1) \<Rightarrow>
          if t_strictSource (fst s1) then (Inl (StrictSource err), s1)
          else if \<not> isPortBindFailure err then (Inl err, s1)
          else (case sendFromPort net caller host req tid 0 timeout s1 of
                  (Inl fallbackErr, s2) \<Rightarrow> (Inl (FallbackFailed err fallbackErr), s2)
                | (Inr resp, s2) \<Rightarrow> (Inr resp, s2)))"

definition Send ::
  "'w net \<Rightarrow> string \<Rightarrow> string \<Rightarrow> bytes \<Rightarrow> 16 word \<Rightarrow> duration \<Rightarrow> Transport \<times> 'w \<Rightarrow>
     (net_error + bytes) \<times> Transport \<times> 'w" where
  "Send net caller addr req tid timeout = (\<lambda>(t, w).
     (case send_body net caller (host_with_port addr) req tid timeout (enter_send (normalizeHost addr) t, w) of
        (r, t1, w1) \<Rightarrow> (r, leave_send (normalizeHost addr) t1, w1)))"

definition SendFireAndForget ::
  "'w net \<Rightarrow> string \<Rightarrow> bytes \<Rightarrow> Transport \<times> 'w \<Rightarrow> net_error option \<times> Transport \<times> 'w" where
  "SendFireAndForget net addr req = (\<lambda>(t, w).
     (case n_ctxErr net w of
        Some e \<Rightarrow> (Some e, t, w)
      | None \<Rightarrow>
          let hostKey = normalizeHost addr;
              t1 = enter_send hostKey t
          in (case n_resolve net (host_with_port addr) w of
                Inl e \<Rightarrow> (Some e, leave_send hostKey t1, w)
              | Inr remoteAddr \<Rightarrow>
                  (case getOrCreateFixedConn net (t1, w) of
                     (Inl e, t2, w2) \<Rightarrow> (Some e, leave_send hostKey t2, w2)
                   | (Inr conn, t2, w2) \<Rightarrow>
                       (case n_write net conn req remoteAddr w2 of
                          (err, w3) \<Rightarrow> (err, leave_send hostKey t2, w3))))))"

section \<open>Lemmas: keys\<close>

lemma append_snoc_eq: "length b = length d \<Longrightarrow> a @ b = c @ d \<longleftrightarrow> a = c \<and> b = d"
  by simp

lemma tid_bytes_inj:
  assumes "ucast (drop_bit 8 t) = (ucast (drop_bit 8 t') :: byte)" "ucast t = (ucast t' :: byte)"
  shows "t = (t' :: 16 word)"
  using assms by (metis be16_tid_bytes)

lemma waiterKey_eq_iff [simp]: "waiterKey h t = waiterKey h' t' \<longleftrightarrow> h = h' \<and> t = t'"
proof
  assume "waiterKey h t = waiterKey h' t'"
  then have "(h @ ''|'') @ hex2 (ucast (drop_bit 8 t)) @ hex2 (ucast t)
      = (h' @ ''|'') @ hex2 (ucast (drop_bit 8 t')) @ hex2 (ucast t')"
    by (simp add: waiterKey_def)
  then have "h = h' \<and> hex2 (ucast (drop_bit 8 t)) = hex2 (ucast (drop_bit 8 t'))
      \<and> hex2 (ucast t) = hex2 (ucast t')"
    by (simp add: append_snoc_eq)
  then show "h = h' \<and> t = t'" by (blast intro: tid_bytes_inj hex2_inj)
qed auto

lemma split_host_port_plain:
  assumes "CHR '':'' \<notin> set host" "CHR ''['' \<notin> set host" "CHR '']'' \<notin> set host"
    and "CHR '':'' \<notin> set port" "CHR ''['' \<notin> set port" "CHR '']'' \<notin> set port"
  shows "split_host_port (host @ '':'' @ port) = Some (host, port)"
proof -
  have tw: "takeWhile (\<lambda>c. c \<noteq> CHR '':'') (rev port @ CHR '':'' # rev host) = rev port"
    using assms(4) by (subst takeWhile_append2) auto
  have "hd (host @ CHR '':'' # port) \<noteq> CHR ''[''" using assms(2) by (cases host) auto
  then show ?thesis
    using assms by (simp add: split_host_port_def tw Let_def)
qed

section \<open>Lemmas: the invariant of the shared state\<close>

definition frame_tid :: "bytes \<Rightarrow> 16 word" where
  "frame_tid data = be16 (data ! 2) (data ! 3)"

definition response_ok :: "16 word \<Rightarrow> bytes \<Rightarrow> bool" where
  "response_ok tid data \<longleftrightarrow> 12 \<le> length data \<and> length data \<le> 2048 \<and> frame_tid data = tid"

definition frame_for :: "string \<Rightarrow> UDPFrame \<Rightarrow> bool" where
  "frame_for key fr \<longleftrightarrow> (\<exists>addr ip. u_From fr = Some addr \<and> a_IP addr = Some ip
     \<and> response_ok (frame_tid (u_Data fr)) (u_Data fr) \<and> key = waiterKey ip (frame_tid (u_Data fr)))"

definition chans_ok :: "(string, nat) gomap \<Rightarrow> UDPFrame option list \<Rightarrow> bool" where
  "chans_ok ws cs \<longleftrightarrow> distinct (map snd ws)
     \<and> (\<forall>(key, ch) \<in> set ws. ch < length cs \<and> (\<forall>fr. cs ! ch = Some fr \<longrightarrow> frame_for key fr))"

definition transport_ok :: "Transport \<Rightarrow> bool" where
  "transport_ok t \<longleftrightarrow> gomap_ok (t_waiters t) \<and> gomap_ok (t_hostLocks t) \<and> gomap_ok (t_expiredWaiters t)
     \<and> chans_ok (t_waiters t) (t_chans t) \<and> length (t_expiredWaiters t) \<le> maxExpiredWaiters
     \<and> (case t_infChan t of None \<Rightarrow> True | Some (capacity, queue) \<Rightarrow> length queue \<le> capacity)"

lemma NewTransport_ok [wf_intros]: "transport_ok (NewTransport b)"
  by (simp add: NewTransport_def transport_ok_def chans_ok_def)

lemma transport_ok_simple [simp]:
  "transport_ok (t\<lparr>t_inFlight := n\<rparr>) = transport_ok t"
  "transport_ok (t\<lparr>t_fixedConn := c\<rparr>) = transport_ok t"
  "transport_ok (t\<lparr>t_tidCounter := k\<rparr>) = transport_ok t"
  by (simp_all add: transport_ok_def)

lemma set_lock_ok [wf_intros]: "transport_ok t \<Longrightarrow> transport_ok (set_lock h b t)"
  by (auto simp: transport_ok_def set_lock_def)

lemma lockForHost_ok [wf_intros]: "transport_ok t \<Longrightarrow> transport_ok (lockForHost h t)"
  by (auto simp: transport_ok_def lockForHost_def split: option.splits)

lemma set_delete_alist: "x \<in> set (AList.delete k m) \<Longrightarrow> x \<in> set m"
  by (induction m) (auto split: if_splits)

lemma distinct_snd_delete: "distinct (map snd m) \<Longrightarrow> distinct (map snd (AList.delete k m))"
  by (induction m) (auto dest: set_delete_alist)

lemma removeWaiter_ok [wf_intros]: "transport_ok t \<Longrightarrow> transport_ok (removeWaiter key t)"
  by (auto simp: transport_ok_def removeWaiter_def chans_ok_def distinct_snd_delete dest!: set_delete_alist)

lemma set_update_alist: "x \<in> set (AList.update k v m) \<Longrightarrow> x = (k, v) \<or> x \<in> set m"
  by (induction m) (auto split: if_splits)

lemma distinct_snd_update:
  "distinct (map snd m) \<Longrightarrow> v \<notin> snd ` set m \<Longrightarrow> distinct (map snd (AList.update k v m))"
  by (induction m) (force dest: set_update_alist)+

text \<open>Registering a waiter on a channel that was just made.\<close>

lemma addWaiter_ok [wf_intros]:
  assumes "transport_ok t"
  shows "transport_ok (addWaiter key (length (t_chans t)) (t\<lparr>t_chans := t_chans t @ [None]\<rparr>))"
proof -
  have "length (t_chans t) \<notin> snd ` set (t_waiters t)"
    using assms by (force simp: transport_ok_def chans_ok_def)
  then have "chans_ok (AList.update key (length (t_chans t)) (t_waiters t)) (t_chans t @ [None])"
    using assms unfolding transport_ok_def chans_ok_def
    by (force simp: distinct_snd_update nth_append dest!: set_update_alist)
  with assms show ?thesis by (simp add: transport_ok_def addWaiter_def)
qed

lemma recordExpiredWaiter_ok [wf_intros]:
  assumes "transport_ok t"
  shows "transport_ok (recordExpiredWaiter key caller now t)"
proof -
  define m1 where "m1 = (if maxExpiredWaiters \<le> length (t_expiredWaiters t)
     then let m' = filter (\<lambda>(k, v). \<not> expiredWaitersTTL < time_sub now (e_expiredAt v)) (t_expiredWaiters t)
       in if maxExpiredWaiters \<le> length m' then [] else m' else t_expiredWaiters t)"
  have "length m1 < maxExpiredWaiters" "gomap_ok m1"
    using assms by (auto simp: m1_def Let_def transport_ok_def)
  moreover have "length (AList.update key v m1) \<le> Suc (length m1)" for v by (rule length_update_le)
  ultimately have "length (AList.update key v m1) \<le> maxExpiredWaiters" for v
    using le_trans Suc_leI by blast
  with assms \<open>gomap_ok m1\<close> show ?thesis
    by (simp add: transport_ok_def recordExpiredWaiter_def m1_def [symmetric])
qed

lemma length_delete_le: "length (AList.delete k m) \<le> length m"
  by (simp add: AList.delete_eq)

lemma checkAndPop_ok [wf_intros]:
  "transport_ok t \<Longrightarrow> transport_ok (snd (checkAndPopExpiredWaiter key t))"
  using length_delete_le [of key "t_expiredWaiters t"]
  by (auto simp: transport_ok_def checkAndPopExpiredWaiter_def split: option.splits)

lemma inf_offer_ok [wf_intros]: "transport_ok t \<Longrightarrow> transport_ok (inf_offer frame t)"
  by (auto simp: transport_ok_def inf_offer_def split: option.splits)

lemma chans_ok_put:
  assumes "chans_ok ws cs" "(key, ch) \<in> set ws" "frame_for key frame"
  shows "chans_ok ws (cs[ch := Some frame])"
proof -
  have one: "k = key" if "(k, ch) \<in> set ws" for k
  proof -
    have "inj_on snd (set ws)" using assms(1) by (simp add: chans_ok_def distinct_map)
    from inj_onD [OF this _ that assms(2)] show "k = key" by simp
  qed
  have "c < length cs \<and> (\<forall>fr. cs[ch := Some frame] ! c = Some fr \<longrightarrow> frame_for k fr)"
    if k: "(k, c) \<in> set ws" for k c
  proof (cases "c = ch")
    case True
    with one k have "k = key" by blast
    with True k assms show ?thesis by (auto simp: chans_ok_def)
  next
    case False
    with k assms(1) show ?thesis by (auto simp: chans_ok_def)
  qed
  with assms(1) show ?thesis by (auto simp: chans_ok_def)
qed

lemma chan_offer_ok [wf_intros]:
  assumes "transport_ok t" "(key, ch) \<in> set (t_waiters t)" "frame_for key frame"
  shows "transport_ok (chan_offer ch frame t)"
proof -
  have "chans_ok (t_waiters t) ((t_chans t)[ch := Some frame])"
    using assms by (intro chans_ok_put) (auto simp: transport_ok_def)
  with assms(1) show ?thesis by (simp add: transport_ok_def chan_offer_def)
qed

lemma map_of_waiter: "map_of (t_waiters t) key = Some ch \<Longrightarrow> (key, ch) \<in> set (t_waiters t)"
  by (rule map_of_SomeD)

text \<open>The six ways a turn of the receiver ends.\<close>

lemma receiveFixedConn_cases:
  obtains (same) "fst (receiveFixedConn conn r t) = t"
  | (closed) "fst (receiveFixedConn conn r t) = t\<lparr>t_fixedConn := None\<rparr>"
  | (inf) fr key where "fst (receiveFixedConn conn r t) = inf_offer fr (snd (checkAndPopExpiredWaiter key t))"
  | (resp) fr key ch where "fst (receiveFixedConn conn r t) = chan_offer ch fr t"
      "map_of (t_waiters t) key = Some ch" "frame_for key fr"
proof (cases r)
  case (ReadErr e)
  show thesis
  proof (cases "e = NetClosed \<and> t_fixedConn t = Some conn")
    case True
    with ReadErr closed show thesis by (simp add: receiveFixedConn_def)
  next
    case False
    with ReadErr same show thesis by (cases "e = NetClosed") (simp_all add: receiveFixedConn_def)
  qed
next
  case (ReadFrom src datagram)
  show thesis
  proof (cases src)
    case None
    with ReadFrom same show thesis by (simp add: receiveFixedConn_def)
  next
    case (Some addr)
    show thesis
    proof (cases "a_IP addr")
      case None
      with ReadFrom Some same show thesis by (simp add: receiveFixedConn_def)
    next
      case ip: (Some ip)
      define buf where "buf = take 2048 datagram"
      define key where "key = waiterKey ip (frame_tid buf)"
      define fr where "fr = \<lparr>u_From = Some addr, u_Data = buf\<rparr>"
      have r: "r = ReadFrom (Some addr) datagram" using ReadFrom Some by simp
      have step: "fst (receiveFixedConn conn r t) = (if length buf < minResponseLen then t
          else case map_of (t_waiters t) key of
            None \<Rightarrow> inf_offer fr (snd (checkAndPopExpiredWaiter key t)) | Some ch \<Rightarrow> chan_offer ch fr t)"
        unfolding receiveFixedConn_def r Let_def
        by (simp add: ip key_def fr_def frame_tid_def buf_def [symmetric] del: length_take split: option.splits)
      have "length buf \<le> 2048" by (simp add: buf_def)
      then have "frame_for key fr" if "12 \<le> length buf"
        using that ip by (simp add: frame_for_def fr_def key_def response_ok_def)
      with step same inf resp show thesis
        by (cases "length buf < minResponseLen"; cases "map_of (t_waiters t) key") auto
    qed
  qed
qed

lemma receiveFixedConn_ok [wf_intros]:
  assumes "transport_ok t"
  shows "transport_ok (fst (receiveFixedConn conn r t))"
proof (cases rule: receiveFixedConn_cases [of conn r t])
  case (inf fr key)
  with assms show ?thesis by (simp add: inf_offer_ok checkAndPop_ok)
next
  case (resp fr key ch)
  show ?thesis unfolding resp(1) by (rule chan_offer_ok [OF assms map_of_waiter [OF resp(2)] resp(3)])
qed (use assms in simp_all)

lemma receiveAll_ok [wf_intros]: "transport_ok t \<Longrightarrow> transport_ok (receiveAll conn rs t)"
proof (induction rs arbitrary: t)
  case (Cons r rs)
  then show ?case
    using receiveFixedConn_ok [of t conn r]
    by (cases "receiveFixedConn conn r t") auto
qed simp

section \<open>Lemmas: one request\<close>

text \<open>
  What a step of a request may change: neither the locks nor the counters nor the mode, and no
  waiter but by removing it.
\<close>

definition send_frame :: "Transport \<Rightarrow> Transport \<Rightarrow> bool" where
  "send_frame t t' \<longleftrightarrow> t_hostLocks t' = t_hostLocks t \<and> t_inFlight t' = t_inFlight t
     \<and> t_strictSource t' = t_strictSource t \<and> t_tidCounter t' = t_tidCounter t
     \<and> (\<forall>key. map_of (t_waiters t') key = None \<or> map_of (t_waiters t') key = map_of (t_waiters t) key)"

definition conn_change :: "Transport \<Rightarrow> Transport \<Rightarrow> bool" where
  "conn_change t t' \<longleftrightarrow> (\<exists>c. t' = t\<lparr>t_fixedConn := c\<rparr>)"

lemma send_frame_refl [simp, intro]: "send_frame t t"
  by (simp add: send_frame_def)

lemma send_frame_trans: "send_frame t t' \<Longrightarrow> send_frame t' t'' \<Longrightarrow> send_frame t t''"
  unfolding send_frame_def by metis

lemma conn_change_refl [simp, intro]: "conn_change t t"
  unfolding conn_change_def by (rule exI [of _ "t_fixedConn t"]) simp

lemma conn_change_trans: "conn_change t t' \<Longrightarrow> conn_change t' t'' \<Longrightarrow> conn_change t t''"
  by (auto simp: conn_change_def)

lemma conn_changeD:
  assumes "conn_change t t'"
  shows "send_frame t t'" "transport_ok t' = transport_ok t" "t_waiters t' = t_waiters t"
    "t_chans t' = t_chans t"
  using assms by (auto simp: conn_change_def send_frame_def)

lemma getOrCreate_change:
  "getOrCreateFixedConn net (t, w) = (r, t', w') \<Longrightarrow> conn_change t t'"
  by (auto simp: getOrCreateFixedConn_def conn_change_def split: option.splits prod.splits sum.splits
      intro: exI [of _ "t_fixedConn t"])

lemma resetFixedConn_change: "conn_change t (resetFixedConn c t)"
  by (auto simp: resetFixedConn_def conn_change_def intro: exI [of _ "t_fixedConn t"])

lemma write_shared_change:
  "write_shared net conn req addr (t, w) = (r, t', w') \<Longrightarrow> conn_change t t'"
  by (auto simp: write_shared_def split: option.splits prod.splits sum.splits if_splits
      dest!: getOrCreate_change intro: conn_change_trans resetFixedConn_change)

lemma receive_keeps [simp]:
  "t_waiters (fst (receiveFixedConn conn r t)) = t_waiters t"
  "send_frame t (fst (receiveFixedConn conn r t))"
  by (cases rule: receiveFixedConn_cases [of conn r t];
      auto simp: inf_offer_def checkAndPopExpiredWaiter_def chan_offer_def send_frame_def
        split: option.splits)+

lemma receiveAll_keeps [simp]:
  "t_waiters (receiveAll conn rs t) = t_waiters t" "send_frame t (receiveAll conn rs t)"
proof (induction rs arbitrary: t)
  case (Cons r rs)
  {
    case 1
    show ?case using Cons(1) [of "fst (receiveFixedConn conn r t)"]
      by (cases "receiveFixedConn conn r t") (use receive_keeps(1) [of conn r t] in auto)
  next
    case 2
    show ?case using Cons(2) [of "fst (receiveFixedConn conn r t)"] receive_keeps(2) [of t conn r]
      by (cases "receiveFixedConn conn r t") (auto intro: send_frame_trans)
  }
qed auto

lemma recordExpired_keeps [simp]:
  "t_waiters (recordExpiredWaiter key caller now t) = t_waiters t"
  "t_chans (recordExpiredWaiter key caller now t) = t_chans t"
  "send_frame t (recordExpiredWaiter key caller now t)"
  by (simp_all add: recordExpiredWaiter_def Let_def send_frame_def)

lemma wait_response_spec:
  assumes "wait_response net caller (waiterKey host tid) ch conn timeout (t, w) = (r, t', w')"
    and "transport_ok t" "map_of (t_waiters t) (waiterKey host tid) = Some ch"
  shows "transport_ok t'" "send_frame t t'" "t_waiters t' = t_waiters t"
    "\<And>data. r = Inr data \<Longrightarrow> response_ok tid data"
proof -
  obtain rs ending w1 where n: "n_wait net conn timeout w = ((rs, ending), w1)"
    by (metis surj_pair)
  let ?t1 = "receiveAll conn rs t"
  have ok: "transport_ok ?t1" by (rule receiveAll_ok [OF assms(2)])
  have eq: "(r, t', w') = (case t_chans ?t1 ! ch of
      Some frame \<Rightarrow> (Inr (u_Data frame), ?t1, w1)
    | None \<Rightarrow> (Inl (case ending of TimerFired \<Rightarrow> IOTimeout | CtxDone e \<Rightarrow> e),
        recordExpiredWaiter (waiterKey host tid) caller (n_now net w1) ?t1, w1))"
    using assms(1) unfolding wait_response_def by (auto simp: n Let_def split: option.splits wait_end.splits)
  show "transport_ok t'"
    using eq ok recordExpiredWaiter_ok [OF ok] by (auto split: option.splits)
  show "send_frame t t'"
    using eq receiveAll_keeps(2) [of t conn rs] send_frame_trans [OF receiveAll_keeps(2) recordExpired_keeps(3)]
    by (auto split: option.splits)
  show "t_waiters t' = t_waiters t" using eq by (auto split: option.splits)
  show "response_ok tid data" if r: "r = Inr data" for data
  proof -
    obtain fr where fr: "t_chans ?t1 ! ch = Some fr" "data = u_Data fr"
      using eq r by (auto split: option.splits)
    have "(waiterKey host tid, ch) \<in> set (t_waiters ?t1)" using map_of_waiter [OF assms(3)] by simp
    then have "frame_for (waiterKey host tid) fr"
      using ok fr(1) unfolding transport_ok_def chans_ok_def by blast
    then show ?thesis by (auto simp: frame_for_def fr(2))
  qed
qed

definition request_ok :: "16 word \<Rightarrow> Transport \<Rightarrow> net_error + bytes \<Rightarrow> Transport \<Rightarrow> bool" where
  "request_ok tid t r t' \<longleftrightarrow>
     transport_ok t' \<and> send_frame t t' \<and> (\<forall>data. r = Inr data \<longrightarrow> response_ok tid data)"

lemma request_ok_trans:
  "request_ok tid t r t' \<Longrightarrow> request_ok tid t' r' t'' \<Longrightarrow> request_ok tid t r' t''"
  by (auto simp: request_ok_def intro: send_frame_trans)

lemma request_ok_Inl: "request_ok tid t r t' \<Longrightarrow> request_ok tid t (Inl e) t'"
  by (simp add: request_ok_def)

lemma sendVia_spec:
  assumes "sendViaSharedFixedPort net caller remote req tid timeout (t, w) = (r, t', w')" "transport_ok t"
  shows "request_ok tid t r t'"
proof -
  let ?key = "waiterKey (ip_string (a_IP remote)) tid"
  obtain r1 t1 w1 where 1: "getOrCreateFixedConn net (t, w) = (r1, t1, w1)" by (metis surj_pair)
  note c1 = getOrCreate_change [OF 1, THEN conn_changeD(1)] getOrCreate_change [OF 1, THEN conn_changeD(2)]
  show ?thesis
  proof (cases r1)
    case (Inl e)
    with assms 1 c1 show ?thesis by (auto simp: request_ok_def sendViaSharedFixedPort_def)
  next
    case (Inr conn)
    let ?ch = "length (t_chans t1)"
    define t2 where "t2 = addWaiter ?key ?ch (t1\<lparr>t_chans := t_chans t1 @ [None]\<rparr>)"
    have ok2: "transport_ok t2" unfolding t2_def using c1(2) assms(2) by (intro addWaiter_ok) simp
    have fin: "send_frame t (removeWaiter ?key t5)"
      if "send_frame t2 t5" for t5
      using c1(1) that unfolding t2_def
      by (auto simp: send_frame_def addWaiter_def removeWaiter_def) (metis fun_upd_apply)+
    obtain r3 t3 w3 where 3: "write_shared net conn req remote (t2, w1) = (r3, t3, w3)" by (metis surj_pair)
    note c3 = conn_changeD [OF write_shared_change [OF 3]]
    show ?thesis
    proof (cases r3)
      case (Inl e)
      then have "(r, t', w') = (Inl e, removeWaiter ?key t3, w3)"
        using assms(1) 1 Inr 3 unfolding sendViaSharedFixedPort_def by (simp add: t2_def Let_def)
      then show ?thesis using c3 ok2 fin by (simp add: request_ok_def removeWaiter_ok)
    next
      case i: (Inr conn')
      obtain r4 t4 w4 where 4: "wait_response net caller ?key ?ch conn' timeout (t3, w3) = (r4, t4, w4)"
        by (metis surj_pair)
      have "map_of (t_waiters t3) ?key = Some ?ch" unfolding c3(3) by (simp add: t2_def addWaiter_def)
      note c4 = wait_response_spec [OF 4 _ this]
      have "(r, t', w') = (r4, removeWaiter ?key t4, w4)"
        using assms(1) 1 Inr 3 i 4 unfolding sendViaSharedFixedPort_def by (simp add: t2_def Let_def)
      then show ?thesis using c3 ok2 fin c4 by (auto simp: request_ok_def intro: removeWaiter_ok send_frame_trans)
    qed
  qed
qed

lemma read_loop_response: "read_loop ip tid rs = Inr data \<Longrightarrow> response_ok tid data"
  by (induction ip tid rs rule: read_loop.induct)
    (auto simp: Let_def response_ok_def frame_tid_def split: if_splits)

lemma writeAndRead_response:
  "writeAndRead net conn addr req tid timeout w = (Inr data, w') \<Longrightarrow> response_ok tid data"
  by (auto simp: writeAndRead_def dest: read_loop_response split: option.splits prod.splits)

lemma sendFromPort_spec:
  assumes "sendFromPort net caller host req tid port timeout (t, w) = (r, t', w')" "transport_ok t"
  shows "request_ok tid t r t'"
proof -
  consider e where "(r, t') = (Inl e, t)"
    | remote where "sendViaSharedFixedPort net caller remote req tid timeout (t, w) = (r, t', w')"
    | conn remote w1 where "writeAndRead net conn remote req tid timeout w1 = (r, w')" "t' = t"
    using assms(1) unfolding sendFromPort_def by (auto split: sum.splits if_splits prod.splits)
  then show ?thesis
  proof cases
    case 1
    with assms(2) show ?thesis by (simp add: request_ok_def)
  next
    case 2
    with assms(2) show ?thesis by (rule sendVia_spec [rotated])
  next
    case 3
    with assms(2) show ?thesis by (auto simp: request_ok_def dest: writeAndRead_response)
  qed
qed

lemma retry_spec:
  assumes "\<And>t w r t' w'. once (t, w) = (r, t', w') \<Longrightarrow> transport_ok t \<Longrightarrow> request_ok tid t r t'"
  shows "retry_from ctxErr once n e (t, w) = (r, t', w') \<Longrightarrow> transport_ok t \<Longrightarrow> request_ok tid t r t'"
proof (induction n arbitrary: e t w)
  case 0
  then show ?case by (auto simp: request_ok_def)
next
  case (Suc n)
  obtain r1 t1 w1 where 1: "once (t, w) = (r1, t1, w1)" by (metis surj_pair)
  note q = assms [OF 1 Suc.prems(2)]
  show ?case
    using Suc q 1 by (auto split: option.splits sum.splits if_splits simp: request_ok_def
        intro: send_frame_trans)
qed

lemma send_body_spec:
  assumes "send_body net caller host req tid timeout (t, w) = (r, t', w')" "transport_ok t"
  shows "request_ok tid t r t'"
proof -
  obtain r1 t1 w1 where 1: "sendWithRetry net caller host req tid echonetPort timeout (t, w) = (r1, t1, w1)"
    by (metis surj_pair)
  have q1: "request_ok tid t r1 t1"
    by (rule retry_spec [OF sendFromPort_spec 1 [unfolded sendWithRetry_def] assms(2)])
  obtain r2 t2 w2 where 2: "sendFromPort net caller host req tid 0 timeout (t1, w1) = (r2, t2, w2)"
    by (metis surj_pair)
  have q2: "request_ok tid t r2 t2"
    using q1 sendFromPort_spec [OF 2] by (auto simp: request_ok_def intro: send_frame_trans)
  have "request_ok tid t r t' \<or> (\<exists>e. r = Inl e \<and> (t' = t1 \<or> t' = t2))"
    using assms(1) q1 q2 unfolding send_body_def by (auto simp: 1 2 split: sum.splits if_splits)
  with q1 q2 show ?thesis by (auto intro: request_ok_Inl)
qed

text \<open>The bracket of locks and counters around the body.\<close>

lemma enter_send_ok [wf_intros]: "transport_ok t \<Longrightarrow> transport_ok (enter_send h t)"
  unfolding enter_send_def by (intro wf_intros) simp

lemma leave_send_ok [wf_intros]: "transport_ok t \<Longrightarrow> transport_ok (leave_send h t)"
  unfolding leave_send_def by (simp add: set_lock_ok)

lemma enter_send_simps [simp]:
  "t_inFlight (enter_send h t) = t_inFlight t + 1" "t_waiters (enter_send h t) = t_waiters t"
  "t_strictSource (enter_send h t) = t_strictSource t" "t_tidCounter (enter_send h t) = t_tidCounter t"
  "map_of (t_hostLocks (enter_send h t)) = (map_of (t_hostLocks t))(h \<mapsto> True)"
  by (auto simp: enter_send_def set_lock_def lockForHost_def split: option.splits)

lemma leave_send_simps [simp]:
  "t_inFlight (leave_send h t) = t_inFlight t - 1" "t_waiters (leave_send h t) = t_waiters t"
  "t_strictSource (leave_send h t) = t_strictSource t" "t_tidCounter (leave_send h t) = t_tidCounter t"
  "map_of (t_hostLocks (leave_send h t)) = (map_of (t_hostLocks t))(h \<mapsto> False)"
  by (auto simp: leave_send_def set_lock_def)

lemma Send_spec:
  assumes "Send net caller addr req tid timeout (t, w) = (r, t', w')" "transport_ok t"
  shows "transport_ok t'" "r = Inr data \<Longrightarrow> response_ok tid data" "t_inFlight t' = t_inFlight t"
    "t_tidCounter t' = t_tidCounter t" "t_strictSource t' = t_strictSource t"
    "map_of (t_hostLocks t') = (map_of (t_hostLocks t))(normalizeHost addr \<mapsto> False)"
    "map_of (t_waiters t') key \<in> {None, map_of (t_waiters t) key}"
proof -
  let ?h = "normalizeHost addr"
  obtain r1 t1 w1 where
    1: "send_body net caller (host_with_port addr) req tid timeout (enter_send ?h t, w) = (r1, t1, w1)"
    by (metis surj_pair)
  have eq: "r = r1" "t' = leave_send ?h t1" using assms(1) by (auto simp: Send_def 1)
  note q = send_body_spec [OF 1 enter_send_ok [OF assms(2)], unfolded request_ok_def send_frame_def]
  show "transport_ok t'" "r = Inr data \<Longrightarrow> response_ok tid data" "t_inFlight t' = t_inFlight t"
    "t_tidCounter t' = t_tidCounter t" "t_strictSource t' = t_strictSource t"
    using q unfolding eq by (auto intro: leave_send_ok)
  have "t_hostLocks t1 = t_hostLocks (enter_send ?h t)" using q by blast
  then show "map_of (t_hostLocks t') = (map_of (t_hostLocks t))(?h \<mapsto> False)" unfolding eq by simp
  show "map_of (t_waiters t') key \<in> {None, map_of (t_waiters t) key}"
    using q unfolding eq by simp
qed

section \<open>Lemmas: how much one request sends, and from where\<close>

text \<open>A measure of the network state that a write raises by at most one and nothing else raises.\<close>

definition counts_writes :: "'w net \<Rightarrow> ('w \<Rightarrow> nat) \<Rightarrow> bool" where
  "counts_writes net f \<longleftrightarrow>
     (\<forall>c b a w. f (snd (n_write net c b a w)) \<le> f w + 1) \<and> (\<forall>p w. f (snd (n_open net p w)) \<le> f w)
     \<and> (\<forall>c d w. f (snd (n_wait net c d w)) \<le> f w) \<and> (\<forall>c w. f (snd (n_read net c w)) \<le> f w)"

lemma counts_writes_write: "counts_writes net f \<Longrightarrow> n_write net c b a w = (r, w') \<Longrightarrow> f w' \<le> f w + 1"
  unfolding counts_writes_def by (drule conjunct1, drule spec [of _ c], drule spec [of _ b],
    drule spec [of _ a], drule spec [of _ w]) simp

lemma counts_writes_open: "counts_writes net f \<Longrightarrow> n_open net p w = (r, w') \<Longrightarrow> f w' \<le> f w"
  unfolding counts_writes_def by (drule conjunct2, drule conjunct1, drule spec [of _ p], drule spec [of _ w]) simp

lemma counts_writes_wait: "counts_writes net f \<Longrightarrow> n_wait net c d w = (r, w') \<Longrightarrow> f w' \<le> f w"
  unfolding counts_writes_def by (drule conjunct2, drule conjunct2, drule conjunct1,
    drule spec [of _ c], drule spec [of _ d], drule spec [of _ w]) simp

lemma counts_writes_read: "counts_writes net f \<Longrightarrow> n_read net c w = (r, w') \<Longrightarrow> f w' \<le> f w"
  unfolding counts_writes_def by (drule conjunct2, drule conjunct2, drule conjunct2,
    drule spec [of _ c], drule spec [of _ w]) simp

lemmas counts_writesD = counts_writes_write counts_writes_open counts_writes_wait counts_writes_read

lemma writes_getOrCreate:
  "counts_writes net f \<Longrightarrow> getOrCreateFixedConn net (t, w) = (r, t', w') \<Longrightarrow> f w' \<le> f w"
  by (auto simp: getOrCreateFixedConn_def split: option.splits prod.splits sum.splits
      dest: counts_writes_open)

lemma writes_write_shared:
  assumes "counts_writes net f" "write_shared net conn req a (t, w) = (r, t', w')"
  shows "f w' \<le> f w + 2"
proof -
  obtain e1 w1 where 1: "n_write net conn req a w = (e1, w1)" by (metis surj_pair)
  obtain r2 t2 w2 where 2: "getOrCreateFixedConn net (resetFixedConn conn t, w1) = (r2, t2, w2)"
    by (metis surj_pair)
  have b: "f w1 \<le> f w + 1" "f w2 \<le> f w1"
    using counts_writes_write [OF assms(1) 1] writes_getOrCreate [OF assms(1) 2] by auto
  show ?thesis
  proof (cases r2)
    case (Inl e)
    with assms(2) b show ?thesis by (auto simp: write_shared_def 1 2 split: option.splits if_splits)
  next
    case (Inr c)
    obtain e3 w3 where 3: "n_write net c req a w2 = (e3, w3)" by (metis surj_pair)
    have "f w3 \<le> f w2 + 1" by (rule counts_writes_write [OF assms(1) 3])
    with assms(2) b Inr show ?thesis
      by (auto simp: write_shared_def 1 2 3 split: option.splits if_splits)
  qed
qed

lemma writes_sendVia:
  assumes "counts_writes net f" "sendViaSharedFixedPort net caller a req tid timeout (t, w) = (r, t', w')"
  shows "f w' \<le> f w + 2"
proof -
  obtain r1 t1 w1 where 1: "getOrCreateFixedConn net (t, w) = (r1, t1, w1)" by (metis surj_pair)
  note b1 = writes_getOrCreate [OF assms(1) 1]
  show ?thesis
  proof (cases r1)
    case (Inl e)
    with assms(2) b1 show ?thesis by (auto simp: sendViaSharedFixedPort_def 1)
  next
    case (Inr conn)
    let ?key = "waiterKey (ip_string (a_IP a)) tid" and ?ch = "length (t_chans t1)"
    obtain r3 t3 w3 where 3:
      "write_shared net conn req a (addWaiter ?key ?ch (t1\<lparr>t_chans := t_chans t1 @ [None]\<rparr>), w1) = (r3, t3, w3)"
      by (metis surj_pair)
    note b3 = writes_write_shared [OF assms(1) 3]
    show ?thesis
    proof (cases r3)
      case (Inl e)
      with assms(2) b1 b3 Inr show ?thesis by (auto simp: sendViaSharedFixedPort_def 1 3)
    next
      case i: (Inr conn')
      obtain q w4 where 4: "n_wait net conn' timeout w3 = (q, w4)" by (metis surj_pair)
      have "w' = w4"
        using assms(2) Inr i by (auto simp: sendViaSharedFixedPort_def 1 3 wait_response_def 4 Let_def
          split: prod.splits option.splits wait_end.splits)
      with b1 b3 counts_writes_wait [OF assms(1) 4] show ?thesis by simp
    qed
  qed
qed

lemma writes_writeAndRead:
  assumes "counts_writes net f" "writeAndRead net conn a req tid timeout w = (r, w')"
  shows "f w' \<le> f w + 1"
proof -
  obtain e1 w1 where 1: "n_write net conn req a w = (e1, w1)" by (metis surj_pair)
  obtain q w2 where 2: "n_read net conn w1 = (q, w2)" by (metis surj_pair)
  have "w' \<in> {w, w1, w2}"
    using assms(2) by (auto simp: writeAndRead_def 1 2 split: option.splits prod.splits)
  with counts_writes_write [OF assms(1) 1] counts_writes_read [OF assms(1) 2] show ?thesis by auto
qed

lemma writes_sendFromPort:
  assumes "counts_writes net f" "sendFromPort net caller host req tid port timeout (t, w) = (r, t', w')"
  shows "f w' \<le> f w + (if port = echonetPort then 2 else 1)"
proof (cases "n_resolve net host w")
  case (Inl e)
  with assms(2) show ?thesis by (auto simp: sendFromPort_def)
next
  case (Inr a)
  show ?thesis
  proof (cases "port = echonetPort")
    case True
    with assms Inr show ?thesis by (auto simp: sendFromPort_def dest: writes_sendVia)
  next
    case False
    obtain q w1 where 1: "n_open net port w = (q, w1)" by (metis surj_pair)
    have "w' = w1 \<or> (\<exists>conn. writeAndRead net conn a req tid timeout w1 = (r, w'))"
      using assms(2) Inr False by (auto simp: sendFromPort_def 1 split: sum.splits prod.splits)
    with False counts_writes_open [OF assms(1) 1] writes_writeAndRead [OF assms(1)] show ?thesis
      by fastforce
  qed
qed

lemma retry_bound:
  assumes "\<And>t w r t' w'. once (t, w) = (r, t', w') \<Longrightarrow> f w' \<le> (f w :: nat) + k"
  shows "retry_from ctxErr once n e (t, w) = (r, t', w') \<Longrightarrow> f w' \<le> f w + n * k"
proof (induction n arbitrary: e t w)
  case (Suc n)
  obtain r1 t1 w1 where 1: "once (t, w) = (r1, t1, w1)" by (metis surj_pair)
  show ?case
    using Suc.prems Suc.IH [of _ t1 w1] assms [OF 1] 1
    by (fastforce split: option.splits sum.splits if_splits)
qed simp

lemma writes_Send:
  assumes "counts_writes net f" "Send net caller addr req tid timeout (t, w) = (r, t', w')"
  shows "f w' \<le> f w + 5"
proof -
  let ?s = "enter_send (normalizeHost addr) t" and ?h = "host_with_port addr"
  obtain r1 t1 w1 where 1: "sendWithRetry net caller ?h req tid echonetPort timeout (?s, w) = (r1, t1, w1)"
    by (metis surj_pair)
  have "f w1 \<le> f w + maxSendAttempts * 2"
    by (rule retry_bound [OF _ 1 [unfolded sendWithRetry_def]])
      (use writes_sendFromPort [OF assms(1), of _ _ _ _ echonetPort] in fastforce)
  moreover obtain r2 t2 w2 where 2: "sendFromPort net caller ?h req tid 0 timeout (t1, w1) = (r2, t2, w2)"
    by (metis surj_pair)
  moreover have "f w2 \<le> f w1 + 1" using writes_sendFromPort [OF assms(1) 2] by simp
  moreover have "w' \<in> {w1, w2}"
    using assms(2) by (auto simp: Send_def send_body_def 1 2 split: sum.splits if_splits)
  ultimately show ?thesis by auto
qed

text \<open>On port 3610 only the opening of that port matters.\<close>

definition open_only_3610 :: "'w net \<Rightarrow> (int \<Rightarrow> 'w \<Rightarrow> (net_error + nat) \<times> 'w) \<Rightarrow> 'w net" where
  "open_only_3610 net other = net\<lparr>n_open := \<lambda>p. if p = echonetPort then n_open net p else other p\<rparr>"

lemma open_only_simps:
  "getOrCreateFixedConn (open_only_3610 net other) = getOrCreateFixedConn net"
  "n_write (open_only_3610 net other) = n_write net" "n_wait (open_only_3610 net other) = n_wait net"
  "n_now (open_only_3610 net other) = n_now net" "n_ctxErr (open_only_3610 net other) = n_ctxErr net"
  "n_resolve (open_only_3610 net other) = n_resolve net"
  by (auto simp: fun_eq_iff open_only_3610_def getOrCreateFixedConn_def split: option.splits)

lemma open_only_send_3610:
  "sendFromPort (open_only_3610 net other) caller host req tid echonetPort timeout
     = sendFromPort net caller host req tid echonetPort timeout"
proof -
  have 1: "write_shared (open_only_3610 net other) = write_shared net"
    unfolding fun_eq_iff write_shared_def open_only_simps by simp
  have 2: "wait_response (open_only_3610 net other) = wait_response net"
    unfolding fun_eq_iff wait_response_def open_only_simps by simp
  show ?thesis
    unfolding fun_eq_iff sendFromPort_def sendViaSharedFixedPort_def open_only_simps 1 2
    by (simp split: sum.splits)
qed

lemma strict_send:
  assumes "t_strictSource t" "transport_ok t"
  shows "Send (open_only_3610 net other) caller addr req tid timeout (t, w)
     = Send net caller addr req tid timeout (t, w)"
    "Send net caller addr req tid timeout (t, w) = (Inl e, s') \<Longrightarrow> \<exists>e'. e = StrictSource e'"
proof -
  let ?s = "enter_send (normalizeHost addr) t" and ?h = "host_with_port addr"
  obtain r1 t1 w1 where 1: "sendWithRetry net caller ?h req tid echonetPort timeout (?s, w) = (r1, t1, w1)"
    by (metis surj_pair)
  have "request_ok tid ?s r1 t1"
    by (rule retry_spec [OF sendFromPort_spec 1 [unfolded sendWithRetry_def] enter_send_ok [OF assms(2)]])
  then have st: "t_strictSource t1" using assms(1) by (simp add: request_ok_def send_frame_def)
  show "Send (open_only_3610 net other) caller addr req tid timeout (t, w)
     = Send net caller addr req tid timeout (t, w)"
    using 1 st by (cases r1) (simp_all add: Send_def send_body_def sendWithRetry_def open_only_send_3610 open_only_simps)
  show "\<exists>e'. e = StrictSource e'" if "Send net caller addr req tid timeout (t, w) = (Inl e, s')"
    using that st by (cases r1) (auto simp: Send_def send_body_def 1)
qed

section \<open>Many requests at once\<close>

text \<open>
  Each request of \<open>Send\<close> or \<open>SendFireAndForget\<close> in progress is in one of three places: it waits
  for its host's lock, holds the lock outside the wait for a response (before it registers,
  between two attempts, on its ephemeral socket or about to leave), or waits on its channel.
  A step is one critical section of one request, or one turn of the receiver.
\<close>

datatype phase = Blocked | Holding | Waiting string nat

record request =
  q_host :: string
  q_ip :: string
  q_tid :: "16 word"
  q_phase :: phase

record sys =
  s_t :: Transport
  s_reqs :: "request list"

definition begin_request :: "string \<Rightarrow> string \<Rightarrow> 16 word \<Rightarrow> sys \<Rightarrow> sys" where
  "begin_request h ip tid s =
     s\<lparr>s_t := lockForHost h ((s_t s)\<lparr>t_inFlight := t_inFlight (s_t s) + 1\<rparr>),
       s_reqs := s_reqs s @ [\<lparr>q_host = h, q_ip = ip, q_tid = tid, q_phase = Blocked\<rparr>]\<rparr>"

definition set_phase :: "nat \<Rightarrow> phase \<Rightarrow> sys \<Rightarrow> sys" where
  "set_phase i p s = s\<lparr>s_reqs := (s_reqs s)[i := (s_reqs s ! i)\<lparr>q_phase := p\<rparr>]\<rparr>"

abbreviation phase_of :: "sys \<Rightarrow> nat \<Rightarrow> phase" where
  "phase_of s i \<equiv> q_phase (s_reqs s ! i)"

abbreviation host_of :: "sys \<Rightarrow> nat \<Rightarrow> string" where
  "host_of s i \<equiv> q_host (s_reqs s ! i)"

abbreviation key_of :: "sys \<Rightarrow> nat \<Rightarrow> string" where
  "key_of s i \<equiv> waiterKey (q_ip (s_reqs s ! i)) (q_tid (s_reqs s ! i))"

inductive sys_step :: "sys \<Rightarrow> sys \<Rightarrow> bool" where
  begin_send: "sys_step s (begin_request h ip tid s)"
| lock: "i < length (s_reqs s) \<Longrightarrow> phase_of s i = Blocked \<Longrightarrow>
    map_of (t_hostLocks (s_t s)) (host_of s i) = Some False \<Longrightarrow>
    sys_step s (set_phase i Holding (s\<lparr>s_t := set_lock (host_of s i) True (s_t s)\<rparr>))"
| register: "i < length (s_reqs s) \<Longrightarrow> phase_of s i = Holding \<Longrightarrow> ch = length (t_chans (s_t s)) \<Longrightarrow>
    sys_step s (set_phase i (Waiting (key_of s i) ch)
      (s\<lparr>s_t := addWaiter (key_of s i) ch ((s_t s)\<lparr>t_chans := t_chans (s_t s) @ [None]\<rparr>)\<rparr>))"
| receive: "sys_step s (s\<lparr>s_t := fst (receiveFixedConn conn r (s_t s))\<rparr>)"
| respond: "i < length (s_reqs s) \<Longrightarrow> phase_of s i = Waiting key ch \<Longrightarrow>
    t_chans (s_t s) ! ch = Some fr \<Longrightarrow>
    sys_step s (set_phase i Holding (s\<lparr>s_t := removeWaiter key (s_t s)\<rparr>))"
| expire: "i < length (s_reqs s) \<Longrightarrow> phase_of s i = Waiting key ch \<Longrightarrow>
    sys_step s (set_phase i Holding
      (s\<lparr>s_t := removeWaiter key (recordExpiredWaiter key caller now (s_t s))\<rparr>))"
| leave: "i < length (s_reqs s) \<Longrightarrow> phase_of s i = Holding \<Longrightarrow>
    sys_step s (s\<lparr>s_t := leave_send (host_of s i) (s_t s),
      s_reqs := take i (s_reqs s) @ drop (Suc i) (s_reqs s)\<rparr>)"

definition sys_init :: "bool \<Rightarrow> sys" where
  "sys_init strict = \<lparr>s_t = NewTransport strict, s_reqs = []\<rparr>"

definition sys_reachable :: "sys \<Rightarrow> bool" where
  "sys_reachable s \<longleftrightarrow> (\<exists>strict. sys_step\<^sup>*\<^sup>* (sys_init strict) s)"

text \<open>
  The invariant. A host's lock is taken exactly when one request for that host is past it, and
  then only one is; a request's channel, in the store and in the table of waiters, is its own.
\<close>

definition in_critical :: "request \<Rightarrow> bool" where
  "in_critical q \<longleftrightarrow> q_phase q \<noteq> Blocked"

definition locks_ok :: "(string \<Rightarrow> bool option) \<Rightarrow> request list \<Rightarrow> bool" where
  "locks_ok L qs \<longleftrightarrow>
     (\<forall>h. length (filter (\<lambda>q. in_critical q \<and> q_host q = h) qs) = (if L h = Some True then 1 else 0))
     \<and> (\<forall>q \<in> set qs. L (q_host q) \<noteq> None)"

definition channel_ok :: "Transport \<Rightarrow> request \<Rightarrow> bool" where
  "channel_ok t q \<longleftrightarrow> (case q_phase q of
      Waiting key ch \<Rightarrow> key = waiterKey (q_ip q) (q_tid q) \<and> ch < length (t_chans t)
        \<and> (\<forall>fr. t_chans t ! ch = Some fr \<longrightarrow> frame_for key fr)
        \<and> (\<forall>k. (k, ch) \<in> set (t_waiters t) \<longrightarrow> k = key)
    | _ \<Rightarrow> True)"

definition sys_ok :: "sys \<Rightarrow> bool" where
  "sys_ok s \<longleftrightarrow> transport_ok (s_t s) \<and> t_inFlight (s_t s) = of_nat (length (s_reqs s))
     \<and> locks_ok (map_of (t_hostLocks (s_t s))) (s_reqs s) \<and> (\<forall>q \<in> set (s_reqs s). channel_ok (s_t s) q)"

lemma filter_update:
  assumes "i < length xs"
  shows "length (filter P (xs[i := y])) + (if P (xs ! i) then 1 else 0)
    = length (filter P xs) + (if P y then 1 else 0)"
proof -
  have "filter P xs = filter P (take i xs) @ filter P (xs ! i # drop (Suc i) xs)"
    by (subst id_take_nth_drop [OF assms]) (rule filter_append)
  moreover have "filter P (xs[i := y]) = filter P (take i xs) @ filter P (y # drop (Suc i) xs)"
    by (subst upd_conv_take_nth_drop [OF assms]) (rule filter_append)
  ultimately show ?thesis by simp
qed

lemma filter_remove:
  assumes "i < length xs"
  shows "length (filter P (take i xs @ drop (Suc i) xs)) + (if P (xs ! i) then 1 else 0) = length (filter P xs)"
proof -
  have "filter P xs = filter P (take i xs) @ filter P (xs ! i # drop (Suc i) xs)"
    by (subst id_take_nth_drop [OF assms]) (rule filter_append)
  then show ?thesis by simp
qed

lemma locks_ok_lock:
  assumes "locks_ok L qs" "i < length qs" "q_phase (qs ! i) = Blocked" "L (q_host (qs ! i)) = Some False"
  shows "locks_ok (L(q_host (qs ! i) \<mapsto> True)) (qs[i := (qs ! i)\<lparr>q_phase := Holding\<rparr>])"
  unfolding locks_ok_def
proof (intro conjI allI ballI)
  let ?q = "qs ! i" and ?qs = "qs[i := (qs ! i)\<lparr>q_phase := Holding\<rparr>]"
  fix h
  show "length (filter (\<lambda>q. in_critical q \<and> q_host q = h) ?qs) = (if (L(q_host ?q \<mapsto> True)) h = Some True then 1 else 0)"
    using assms filter_update [OF assms(2), of "\<lambda>q. in_critical q \<and> q_host q = h" "?q\<lparr>q_phase := Holding\<rparr>"]
    by (auto simp: locks_ok_def in_critical_def split: if_splits)
next
  fix q
  assume "q \<in> set (qs[i := (qs ! i)\<lparr>q_phase := Holding\<rparr>])"
  then have "q \<in> set qs \<or> q_host q = q_host (qs ! i)" using set_update_subset_insert by fastforce
  with assms(1) show "(L(q_host (qs ! i) \<mapsto> True)) (q_host q) \<noteq> None" by (auto simp: locks_ok_def)
qed

lemma locks_ok_phase:
  assumes "locks_ok L qs" "i < length qs" "q_phase (qs ! i) \<noteq> Blocked" "p \<noteq> Blocked"
  shows "locks_ok L (qs[i := (qs ! i)\<lparr>q_phase := p\<rparr>])"
  unfolding locks_ok_def
proof (intro conjI allI ballI)
  fix h
  show "length (filter (\<lambda>q. in_critical q \<and> q_host q = h) (qs[i := (qs ! i)\<lparr>q_phase := p\<rparr>])) = (if L h = Some True then 1 else 0)"
    using assms filter_update [OF assms(2), of "\<lambda>q. in_critical q \<and> q_host q = h" "(qs ! i)\<lparr>q_phase := p\<rparr>"]
    by (auto simp: locks_ok_def in_critical_def split: if_splits)
next
  fix q
  assume "q \<in> set (qs[i := (qs ! i)\<lparr>q_phase := p\<rparr>])"
  then have "q \<in> set qs \<or> q_host q = q_host (qs ! i)" using set_update_subset_insert by fastforce
  with assms(1,2) show "L (q_host q) \<noteq> None" by (auto simp: locks_ok_def)
qed

lemma locks_ok_leave:
  assumes "locks_ok L qs" "i < length qs" "q_phase (qs ! i) \<noteq> Blocked"
  shows "locks_ok (L(q_host (qs ! i) \<mapsto> False)) (take i qs @ drop (Suc i) qs)"
  unfolding locks_ok_def
proof (intro conjI allI ballI)
  fix h
  have "length (filter (\<lambda>q. in_critical q \<and> q_host q = h) qs) \<le> 1" using assms(1) by (simp add: locks_ok_def)
  then show "length (filter (\<lambda>q. in_critical q \<and> q_host q = h) (take i qs @ drop (Suc i) qs))
      = (if (L(q_host (qs ! i) \<mapsto> False)) h = Some True then 1 else 0)"
    using assms filter_remove [OF assms(2), of "\<lambda>q. in_critical q \<and> q_host q = h"]
    by (auto simp: locks_ok_def in_critical_def split: if_splits)
next
  fix q
  assume "q \<in> set (take i qs @ drop (Suc i) qs)"
  then have "q \<in> set qs" by (auto dest: in_set_takeD in_set_dropD)
  with assms(1) show "(L(q_host (qs ! i) \<mapsto> False)) (q_host q) \<noteq> None" by (auto simp: locks_ok_def)
qed

lemma locks_ok_begin:
  assumes "locks_ok (map_of (t_hostLocks t)) qs" "q_phase q = Blocked"
  shows "locks_ok (map_of (t_hostLocks (lockForHost (q_host q) t))) (qs @ [q])"
  using assms unfolding locks_ok_def lockForHost_def
  by (auto simp: in_critical_def split: option.splits if_splits)

lemma channel_ok_mono:
  assumes "channel_ok t q"
    and "\<And>ch. ch < length (t_chans t) \<Longrightarrow> ch < length (t_chans t') \<and> t_chans t' ! ch = t_chans t ! ch"
    and "\<And>k ch. (k, ch) \<in> set (t_waiters t') \<Longrightarrow> ch < length (t_chans t) \<Longrightarrow> (k, ch) \<in> set (t_waiters t)"
  shows "channel_ok t' q"
  using assms unfolding channel_ok_def by (auto split: phase.splits)

lemma channel_ok_same:
  "channel_ok t q \<Longrightarrow> t_chans t' = t_chans t \<Longrightarrow> t_waiters t' = t_waiters t \<Longrightarrow> channel_ok t' q"
  by (erule channel_ok_mono) auto

lemma channel_ok_receive:
  assumes "channel_ok t q" "transport_ok t"
  shows "channel_ok (fst (receiveFixedConn conn r t)) q"
proof (cases rule: receiveFixedConn_cases [of conn r t])
  case (resp fr key ch)
  have mem: "(key, ch) \<in> set (t_waiters t)" using resp(2) by (rule map_of_SomeD)
  then have "ch < length (t_chans t)" using assms(2) by (auto simp: transport_ok_def chans_ok_def)
  with assms(1) resp(3) mem show ?thesis unfolding resp(1) channel_ok_def chan_offer_def
    by (cases "q_phase q") (auto simp: nth_list_update split: if_splits)
next
  case (inf fr key)
  show ?thesis
    unfolding inf by (rule channel_ok_same [OF assms(1)])
      (auto simp: inf_offer_def checkAndPopExpiredWaiter_def split: option.splits)
qed (use assms in \<open>auto intro: channel_ok_same\<close>)

lemma channel_ok_register:
  assumes "channel_ok t q"
  shows "channel_ok (addWaiter key (length (t_chans t)) (t\<lparr>t_chans := t_chans t @ [None]\<rparr>)) q"
  by (rule channel_ok_mono [OF assms]) (auto simp: addWaiter_def nth_append dest!: set_update_alist)

lemma channel_ok_remove: "channel_ok t q \<Longrightarrow> channel_ok (removeWaiter key t) q"
  by (erule channel_ok_mono) (auto simp: removeWaiter_def dest: set_delete_alist)

lemma channel_ok_new:
  assumes "transport_ok t"
  shows "channel_ok (addWaiter (waiterKey (q_ip q) (q_tid q)) (length (t_chans t))
           (t\<lparr>t_chans := t_chans t @ [None]\<rparr>))
         (q\<lparr>q_phase := Waiting (waiterKey (q_ip q) (q_tid q)) (length (t_chans t))\<rparr>)"
  using assms unfolding channel_ok_def transport_ok_def chans_ok_def
  by (auto simp: addWaiter_def dest!: set_update_alist)

lemma channel_ok_Holding [simp]: "channel_ok t (q\<lparr>q_phase := Holding\<rparr>)"
  by (simp add: channel_ok_def)

lemma ball_set_update: "\<forall>x \<in> set xs. P x \<Longrightarrow> P y \<Longrightarrow> \<forall>x \<in> set (xs[i := y]). P x"
  using set_update_subset_insert by fastforce

inductive_cases sys_stepE: "sys_step s s'"

lemma sys_ok_init: "sys_ok (sys_init strict)"
  by (simp add: sys_ok_def sys_init_def NewTransport_ok locks_ok_def) (simp add: NewTransport_def)

lemma sys_ok_step: "sys_step s s' \<Longrightarrow> sys_ok s \<Longrightarrow> sys_ok s'"
proof (induction rule: sys_step.induct)
  case (begin_send s h ip tid)
  let ?t = "(s_t s)\<lparr>t_inFlight := t_inFlight (s_t s) + 1\<rparr>"
  have "locks_ok (map_of (t_hostLocks (lockForHost (q_host \<lparr>q_host = h, q_ip = ip, q_tid = tid, q_phase = Blocked\<rparr>) ?t)))
      (s_reqs s @ [\<lparr>q_host = h, q_ip = ip, q_tid = tid, q_phase = Blocked\<rparr>])"
    using begin_send by (intro locks_ok_begin) (auto simp: sys_ok_def)
  moreover have "\<forall>q \<in> set (s_reqs s). channel_ok (lockForHost h ?t) q"
    using begin_send by (auto simp: sys_ok_def lockForHost_def split: option.splits intro: channel_ok_same)
  moreover have "t_inFlight (lockForHost h ?t) = t_inFlight (s_t s) + 1"
    by (simp add: lockForHost_def split: option.splits)
  ultimately show ?case
    using begin_send by (simp add: sys_ok_def begin_request_def lockForHost_ok channel_ok_def [of _ "\<lparr>q_host = h, q_ip = ip, q_tid = tid, q_phase = Blocked\<rparr>"])
next
  case (lock i s)
  let ?t = "set_lock (host_of s i) True (s_t s)"
  have "\<forall>q \<in> set (s_reqs s). channel_ok ?t q"
    using lock(4) by (auto simp: sys_ok_def set_lock_def intro: channel_ok_same)
  then have "\<forall>q \<in> set ((s_reqs s)[i := (s_reqs s ! i)\<lparr>q_phase := Holding\<rparr>]). channel_ok ?t q"
    by (rule ball_set_update) simp
  moreover have "locks_ok (map_of (t_hostLocks ?t)) ((s_reqs s)[i := (s_reqs s ! i)\<lparr>q_phase := Holding\<rparr>])"
    using lock locks_ok_lock [of "map_of (t_hostLocks (s_t s))" "s_reqs s" i]
    by (simp add: sys_ok_def set_lock_def)
  moreover have "transport_ok ?t" "t_inFlight ?t = t_inFlight (s_t s)"
    using lock(4) by (auto simp: sys_ok_def set_lock_ok) (simp add: set_lock_def)
  ultimately show ?case using lock(4) by (simp add: sys_ok_def set_phase_def)
next
  case (register i s ch)
  then have ok: "transport_ok (s_t s)" by (simp add: sys_ok_def)
  have "\<forall>q \<in> set (s_reqs s). channel_ok (addWaiter (key_of s i) ch ((s_t s)\<lparr>t_chans := t_chans (s_t s) @ [None]\<rparr>)) q"
    unfolding register(3) using register by (auto simp: sys_ok_def intro: channel_ok_register)
  then have "\<forall>q \<in> set ((s_reqs s)[i := (s_reqs s ! i)\<lparr>q_phase := Waiting (key_of s i) ch\<rparr>]).
      channel_ok (addWaiter (key_of s i) ch ((s_t s)\<lparr>t_chans := t_chans (s_t s) @ [None]\<rparr>)) q"
    by (rule ball_set_update) (simp only: register(3) channel_ok_new [OF ok])
  then show ?case
    using register addWaiter_ok [OF ok, of "key_of s i"]
      locks_ok_phase [of "map_of (t_hostLocks (s_t s))" "s_reqs s" i "Waiting (key_of s i) ch"]
    by (simp add: sys_ok_def set_phase_def) (simp add: addWaiter_def)
next
  case (receive s conn r)
  then show ?case
    using receive_keeps(2) [of "s_t s" conn r]
    by (simp add: sys_ok_def receiveFixedConn_ok channel_ok_receive send_frame_def)
next
  case (respond i s key ch fr)
  let ?t = "removeWaiter key (s_t s)"
  have "\<forall>q \<in> set (s_reqs s). channel_ok ?t q"
    using respond(4) by (auto simp: sys_ok_def intro: channel_ok_remove)
  then have "\<forall>q \<in> set ((s_reqs s)[i := (s_reqs s ! i)\<lparr>q_phase := Holding\<rparr>]). channel_ok ?t q"
    by (rule ball_set_update) simp
  moreover have "transport_ok ?t" "t_inFlight ?t = t_inFlight (s_t s)" "t_hostLocks ?t = t_hostLocks (s_t s)"
    using respond(4) by (auto simp: sys_ok_def removeWaiter_ok) (simp_all add: removeWaiter_def)
  ultimately show ?case
    using respond locks_ok_phase [of "map_of (t_hostLocks (s_t s))" "s_reqs s" i Holding]
    by (simp add: sys_ok_def set_phase_def)
next
  case (expire i s key ch caller now)
  let ?r = "recordExpiredWaiter key caller now (s_t s)"
  let ?t = "removeWaiter key ?r"
  have "\<forall>q \<in> set (s_reqs s). channel_ok ?t q"
    using expire(3) by (auto simp: sys_ok_def intro!: channel_ok_remove intro: channel_ok_same)
  then have "\<forall>q \<in> set ((s_reqs s)[i := (s_reqs s ! i)\<lparr>q_phase := Holding\<rparr>]). channel_ok ?t q"
    by (rule ball_set_update) simp
  moreover have "transport_ok ?t"
    using expire(3) by (simp add: sys_ok_def removeWaiter_ok recordExpiredWaiter_ok)
  moreover have "t_inFlight ?t = t_inFlight (s_t s)" "t_hostLocks ?t = t_hostLocks (s_t s)"
    using recordExpired_keeps(3) [of "s_t s" key caller now] by (auto simp: removeWaiter_def send_frame_def)
  ultimately show ?case
    using expire locks_ok_phase [of "map_of (t_hostLocks (s_t s))" "s_reqs s" i Holding]
    by (simp add: sys_ok_def set_phase_def)
next
  case (leave i s)
  let ?t = "leave_send (host_of s i) (s_t s)" and ?qs = "take i (s_reqs s) @ drop (Suc i) (s_reqs s)"
  have "\<forall>q \<in> set (s_reqs s). channel_ok ?t q"
    using leave(3) by (auto simp: sys_ok_def leave_send_def set_lock_def intro: channel_ok_same)
  then have "\<forall>q \<in> set ?qs. channel_ok ?t q"
    by (auto dest: in_set_takeD in_set_dropD)
  moreover have "t_inFlight ?t = of_nat (length ?qs)"
  proof -
    have "length (s_reqs s) = Suc (length ?qs)" using leave(1) by simp
    moreover have "t_inFlight (s_t s) = of_nat (length (s_reqs s))" using leave(3) by (simp add: sys_ok_def)
    ultimately show ?thesis by (simp only: leave_send_simps of_nat_Suc) simp
  qed
  moreover have "locks_ok (map_of (t_hostLocks ?t)) ?qs"
    unfolding leave_send_simps using leave by (intro locks_ok_leave) (auto simp: sys_ok_def)
  moreover have "transport_ok ?t" using leave(3) by (simp add: sys_ok_def leave_send_ok)
  ultimately show ?case by (simp add: sys_ok_def)
qed

lemma sys_reachable_ok: "sys_reachable s \<Longrightarrow> sys_ok s"
  unfolding sys_reachable_def
proof (elim exE)
  fix strict
  assume "sys_step\<^sup>*\<^sup>* (sys_init strict) s"
  then show "sys_ok s" by (induction rule: rtranclp_induct) (auto intro: sys_ok_init sys_ok_step)
qed

lemma critical_unique:
  assumes "locks_ok L qs" "i < length qs" "j < length qs" "i \<noteq> j"
    and "in_critical (qs ! i)" "in_critical (qs ! j)"
  shows "q_host (qs ! i) \<noteq> q_host (qs ! j)"
proof
  assume h: "q_host (qs ! i) = q_host (qs ! j)"
  let ?P = "\<lambda>q. in_critical q \<and> q_host q = q_host (qs ! i)"
  have "length (filter ?P qs) \<le> 1" using assms(1) by (simp add: locks_ok_def)
  then have "card {k. k < length qs \<and> ?P (qs ! k)} \<le> 1" by (simp only: length_filter_conv_card)
  moreover have "{i, j} \<subseteq> {k. k < length qs \<and> ?P (qs ! k)}" using assms h by auto
  then have "card {i, j} \<le> card {k. k < length qs \<and> ?P (qs ! k)}" by (intro card_mono) auto
  ultimately show False using assms(4) by simp
qed

text \<open>From every reachable state the requests in progress can all finish.\<close>

definition work :: "request list \<Rightarrow> nat" where
  "work qs = (\<Sum>q \<leftarrow> qs. case q_phase q of Holding \<Rightarrow> 1 | _ \<Rightarrow> 2)"

lemma work_update:
  assumes "i < length qs" "q_phase (qs ! i) \<noteq> Holding"
  shows "work (qs[i := (qs ! i)\<lparr>q_phase := Holding\<rparr>]) < work qs"
proof -
  have "work qs = work (take i qs @ qs ! i # drop (Suc i) qs)"
    using id_take_nth_drop [OF assms(1)] by simp
  then show ?thesis
    unfolding upd_conv_take_nth_drop [OF assms(1)]
    using assms(2) by (simp add: work_def split: phase.splits)
qed

lemma work_leave:
  assumes "i < length qs"
  shows "work (take i qs @ drop (Suc i) qs) < work qs"
proof -
  have "work qs = work (take i qs @ qs ! i # drop (Suc i) qs)"
    using id_take_nth_drop [OF assms(1)] by simp
  then show ?thesis by (simp add: work_def split: phase.splits)
qed

lemma can_progress:
  assumes "sys_ok s" "s_reqs s \<noteq> []"
  shows "\<exists>s'. sys_step s s' \<and> work (s_reqs s') < work (s_reqs s)"
proof (cases "\<exists>i < length (s_reqs s). phase_of s i \<noteq> Blocked")
  case True
  then obtain i where i: "i < length (s_reqs s)" "phase_of s i \<noteq> Blocked" by blast
  show ?thesis
  proof (cases "phase_of s i")
    case (Waiting key ch)
    with sys_step.expire [OF i(1) Waiting, of "[]" 0] work_update [OF i(1)] show ?thesis
      by (force simp: set_phase_def)
  next
    case Holding
    with sys_step.leave [OF i(1)] work_leave [OF i(1)] show ?thesis by fastforce
  qed (use i in simp)
next
  case False
  then have i: "0 < length (s_reqs s)" "phase_of s 0 = Blocked" using assms(2) by auto
  let ?h = "host_of s 0"
  have "filter (\<lambda>q. in_critical q \<and> q_host q = ?h) (s_reqs s) = []"
    using False by (auto simp: filter_empty_conv in_set_conv_nth in_critical_def)
  moreover have "length (filter (\<lambda>q. in_critical q \<and> q_host q = ?h) (s_reqs s))
      = (if map_of (t_hostLocks (s_t s)) ?h = Some True then 1 else 0)"
    using assms(1) by (simp only: sys_ok_def locks_ok_def)
  ultimately have "map_of (t_hostLocks (s_t s)) ?h \<noteq> Some True" by auto
  moreover have "map_of (t_hostLocks (s_t s)) ?h \<noteq> None"
    using assms(1) i(1) unfolding sys_ok_def locks_ok_def by (metis nth_mem)
  ultimately have "map_of (t_hostLocks (s_t s)) ?h = Some False" by auto
  from sys_step.lock [OF i this] work_update [OF i(1)] i(2) show ?thesis
    by (force simp: set_phase_def)
qed

lemma can_drain:
  "sys_ok s \<Longrightarrow> \<exists>s'. sys_step\<^sup>*\<^sup>* s s' \<and> s_reqs s' = []"
proof (induction "work (s_reqs s)" arbitrary: s rule: less_induct)
  case less
  show ?case
  proof (cases "s_reqs s = []")
    case False
    with less.prems can_progress obtain s1 where
      1: "sys_step s s1" "work (s_reqs s1) < work (s_reqs s)" by blast
    from less.hyps [OF 1(2) sys_ok_step [OF 1(1) less.prems]] 1(1) show ?thesis
      by (blast intro: converse_rtranclp_into_rtranclp)
  qed auto
qed

section \<open>The interface other components use\<close>

text \<open>
  The methods of \<open>*Transport\<close> the client calls, with the state they change, and what they
  promise: a response long enough to be parsed and carrying the request's transaction id.
\<close>

record 's transport_ops =
  x_NextTID :: "'s \<Rightarrow> 16 word \<times> 's"
  x_Send :: "string \<Rightarrow> bytes \<Rightarrow> 16 word \<Rightarrow> 's \<Rightarrow> (net_error + bytes) \<times> 's"
  x_FireAndForget :: "string \<Rightarrow> bytes \<Rightarrow> 's \<Rightarrow> net_error option \<times> 's"

definition udp_transport :: "'w net \<Rightarrow> string \<Rightarrow> duration \<Rightarrow> (Transport \<times> 'w) transport_ops" where
  "udp_transport net caller timeout =
     \<lparr>x_NextTID = (\<lambda>(t, w). case NextTID t of (tid, t') \<Rightarrow> (tid, t', w)),
      x_Send = (\<lambda>addr req tid. Send net caller addr req tid timeout),
      x_FireAndForget = SendFireAndForget net\<rparr>"

locale transport_service =
  fixes tr :: "'s transport_ops" and ok :: "'s \<Rightarrow> bool"
  assumes next_ok: "ok s \<Longrightarrow> x_NextTID tr s = (tid, s') \<Longrightarrow> ok s'"
    and send_ok: "ok s \<Longrightarrow> x_Send tr addr req tid s = (r, s') \<Longrightarrow> ok s'"
    and send_response: "ok s \<Longrightarrow> x_Send tr addr req tid s = (Inr data, s') \<Longrightarrow> response_ok tid data"
    and fire_ok: "ok s \<Longrightarrow> x_FireAndForget tr addr req s = (e, s') \<Longrightarrow> ok s'"

lemma SendFireAndForget_ok:
  assumes "SendFireAndForget net addr req (t, w) = (e, t', w')" "transport_ok t"
  shows "transport_ok t'"
proof -
  obtain r2 t2 w2 where 2: "getOrCreateFixedConn net (enter_send (normalizeHost addr) t, w) = (r2, t2, w2)"
    by (metis surj_pair)
  have "transport_ok t2"
    using conn_changeD(2) [OF getOrCreate_change [OF 2]] enter_send_ok [OF assms(2)] by simp
  moreover have "t' = t \<or> (\<exists>t1 \<in> {enter_send (normalizeHost addr) t, t2}. t' = leave_send (normalizeHost addr) t1)"
    using assms(1) by (auto simp: SendFireAndForget_def Let_def 2 split: option.splits sum.splits prod.splits)
  ultimately show ?thesis using assms(2) enter_send_ok leave_send_ok by blast
qed

interpretation udp: transport_service "udp_transport net caller timeout" "\<lambda>s. transport_ok (fst s)"
  for net :: "'w net" and caller timeout
proof
  fix s s' :: "Transport \<times> 'w" and tid addr req r data e
  assume ok: "transport_ok (fst s)"
  show "x_NextTID (udp_transport net caller timeout) s = (tid, s') \<Longrightarrow> transport_ok (fst s')"
    using ok by (auto simp: udp_transport_def NextTID_def Let_def split: prod.splits)
  show "x_Send (udp_transport net caller timeout) addr req tid s = (r, s') \<Longrightarrow> transport_ok (fst s')"
    using ok Send_spec(1) by (cases s; cases s') (auto simp: udp_transport_def)
  show "x_Send (udp_transport net caller timeout) addr req tid s = (Inr data, s') \<Longrightarrow> response_ok tid data"
    using ok by (cases s; cases s') (auto simp: udp_transport_def intro: Send_spec(2) [OF _ _ refl])
  show "x_FireAndForget (udp_transport net caller timeout) addr req s = (e, s') \<Longrightarrow> transport_ok (fst s')"
    using ok SendFireAndForget_ok by (cases s; cases s') (auto simp: udp_transport_def)
qed

section \<open>Properties\<close>

text \<open>C17: what \<open>Send\<close> returns without an error is a response to this request: a datagram of at
  least a frame header and at most the reading buffer, with the transaction id of the request.\<close>

theorem send_matches_request:
  assumes "transport_ok t" "Send net caller addr req tid timeout (t, w) = (Inr data, t', w')"
  shows "12 \<le> length data \<and> length data \<le> 2048 \<and> be16 (data ! 2) (data ! 3) = tid"
  using Send_spec(2) [OF assms(2,1) refl] by (simp add: response_ok_def frame_tid_def)

text \<open>A network that answers every request with one given datagram, and counts the writes.\<close>

definition echo_net :: "string \<Rightarrow> bytes \<Rightarrow> nat net" where
  "echo_net ip data = \<lparr>n_now = (\<lambda>_. 0), n_ctxErr = (\<lambda>_. None),
     n_resolve = (\<lambda>_ _. Inr \<lparr>a_IP = Some ip, a_Port = 3610\<rparr>), n_open = (\<lambda>_ k. (Inr 7, k)),
     n_write = (\<lambda>_ _ _ k. (None, k + 1)),
     n_wait = (\<lambda>_ _ k. (([ReadFrom (Some \<lparr>a_IP = Some ip, a_Port = 3610\<rparr>) data], TimerFired), k)),
     n_setDeadline = (\<lambda>_ _ _. None), n_read = (\<lambda>_ k. ([], k))\<rparr>"

abbreviation sample_response :: bytes where
  "sample_response \<equiv> [0x10, 0x81, 0, 1, 0x01, 0x30, 0x01, 0x05, 0xFF, 0x01, 0x72, 0]"

abbreviation sample_send :: "(net_error + bytes) \<times> Transport \<times> nat" where
  "sample_send \<equiv> Send (echo_net ''h'' sample_response) [] ''h'' [] 1 second (NewTransport False, 0)"

lemma sample_send_Inr: "fst sample_send = Inr sample_response"
  by (simp add: Send_def send_body_def sendWithRetry_def numeral_2_eq_2 sendFromPort_def
      sendViaSharedFixedPort_def getOrCreateFixedConn_def write_shared_def wait_response_def
      echo_net_def NewTransport_def enter_send_def set_lock_def lockForHost_def addWaiter_def
      receiveFixedConn_def be16_def waiterKey_def ip_string_def chan_offer_def Let_def)

theorem send_matches_request_witness:
  "12 \<le> length sample_response \<and> length sample_response \<le> 2048
    \<and> be16 (sample_response ! 2) (sample_response ! 3) = 1"
proof -
  obtain t' w' where "sample_send = (Inr sample_response, t', w')"
    using sample_send_Inr by (metis prod.collapse)
  from send_matches_request [OF NewTransport_ok this] show ?thesis .
qed

text \<open>C21: a send leaves the shared state as it found it, however it ends: the count of active
  operations and the transaction counter are unchanged, its host's lock is free and no other
  lock has changed, no waiter is left behind, and the table of expired waiters, of at most 128
  entries, and the notification queue stay within their bounds.\<close>

theorem send_leaves_clean:
  assumes "transport_ok t" "t_waiters t = []" "Send net caller addr req tid timeout (t, w) = (r, t', w')"
  shows "transport_ok t' \<and> t_inFlight t' = t_inFlight t \<and> t_tidCounter t' = t_tidCounter t
    \<and> t_waiters t' = []
    \<and> map_of (t_hostLocks t') = (map_of (t_hostLocks t))(normalizeHost addr \<mapsto> False)
    \<and> length (t_expiredWaiters t') \<le> 128"
proof -
  note s = Send_spec [OF assms(3,1)]
  have "map_of (t_waiters t') key = None" for key using s(7) [of key] assms(2) by simp
  then have "t_waiters t' = []" by (cases "t_waiters t'") (auto, metis fun_upd_same option.distinct(1) map_of_Cons_code(2))
  moreover have "length (t_expiredWaiters t') \<le> 128" using s(1) by (simp add: transport_ok_def)
  ultimately show ?thesis using s(1,3,4,6) by simp
qed

theorem send_leaves_clean_witness:
  "t_waiters (fst (snd sample_send)) = [] \<and> t_inFlight (fst (snd sample_send)) = 0"
proof -
  obtain r t' w' where s: "sample_send = (r, t', w')" by (metis surj_pair)
  have "t_waiters (NewTransport False) = []" "t_inFlight (NewTransport False) = 0"
    by (simp_all add: NewTransport_def)
  with send_leaves_clean [OF NewTransport_ok _ s] show ?thesis unfolding s by simp
qed

text \<open>One call of \<open>Send\<close> writes at most five datagrams: two attempts on the shared socket, each
  written again at most once on a reopened socket, and one on an ephemeral socket.\<close>

theorem send_write_bound:
  assumes "counts_writes net f" "Send net caller addr req tid timeout (t, w) = (r, t', w')"
  shows "f w' \<le> f w + 5"
  using assms by (rule writes_Send)

theorem send_write_bound_witness: "snd (snd sample_send) \<le> 0 + 5"
proof -
  obtain r t' w' where s: "sample_send = (r, t', w')" by (metis surj_pair)
  have "counts_writes (echo_net ''h'' sample_response) (\<lambda>k. k)"
    by (simp add: counts_writes_def echo_net_def)
  from send_write_bound [OF this s] show ?thesis by (simp add: s)
qed

text \<open>With the strict source port, a send depends on no other local port: whatever binding
  another port would do, the result is the same; and every error says that port 3610 is required.\<close>

theorem send_strict_source:
  assumes "transport_ok t" "t_strictSource t"
  shows "Send (open_only_3610 net other) caller addr req tid timeout (t, w)
      = Send net caller addr req tid timeout (t, w)
    \<and> (\<forall>e. fst (Send net caller addr req tid timeout (t, w)) = Inl e \<longrightarrow> (\<exists>e'. e = StrictSource e'))"
proof -
  obtain r s' where s: "Send net caller addr req tid timeout (t, w) = (r, s')" by (metis surj_pair)
  have "\<exists>e'. e = StrictSource e'" if "r = Inl e" for e
    by (rule strict_send(2) [OF assms(2,1), of net caller addr req tid timeout w _ s']) (simp add: s that)
  with strict_send(1) [OF assms(2,1), of net other caller addr req tid timeout w] s show ?thesis by simp
qed

theorem send_strict_source_witness:
  "Send (open_only_3610 (echo_net ''h'' []) (\<lambda>_ k. (Inl AccessDenied, k))) [] ''h'' [] 1 second (NewTransport True, 0)
    = Send (echo_net ''h'' []) [] ''h'' [] 1 second (NewTransport True, 0)"
  using send_strict_source [OF NewTransport_ok, of True "echo_net ''h'' []" "\<lambda>_ k. (Inl AccessDenied, k)"]
  by (simp add: NewTransport_def)

text \<open>C18: mutual exclusion. However requests, responses and timeouts interleave, the counter of
  active operations is the number of requests in progress (modulo the counter's width), and any two
  requests that are both past their host's lock are for different hosts.\<close>

theorem requests_exclusive_per_host:
  assumes "sys_reachable s"
  shows "t_inFlight (s_t s) = of_nat (length (s_reqs s))
    \<and> (\<forall>i j. i < length (s_reqs s) \<and> j < length (s_reqs s) \<and> i \<noteq> j
          \<and> phase_of s i \<noteq> Blocked \<and> phase_of s j \<noteq> Blocked \<longrightarrow> host_of s i \<noteq> host_of s j)"
  using sys_reachable_ok [OF assms] critical_unique [of _ "s_reqs s"]
  by (auto simp: sys_ok_def in_critical_def)

abbreviation two_requests :: sys where
  "two_requests \<equiv>
     (let s1 = begin_request ''b'' ''b'' 2 (begin_request ''a'' ''a'' 1 (sys_init False));
          s2 = set_phase 0 Holding (s1\<lparr>s_t := set_lock ''a'' True (s_t s1)\<rparr>)
      in set_phase 1 Holding (s2\<lparr>s_t := set_lock ''b'' True (s_t s2)\<rparr>))"

lemma two_requests_reachable: "sys_reachable two_requests"
proof -
  let ?s1 = "begin_request ''b'' ''b'' 2 (begin_request ''a'' ''a'' 1 (sys_init False))"
  let ?s2 = "set_phase 0 Holding (?s1\<lparr>s_t := set_lock ''a'' True (s_t ?s1)\<rparr>)"
  note d = sys_init_def begin_request_def NewTransport_def lockForHost_def set_phase_def set_lock_def
  have h: "host_of ?s1 0 = ''a''" "host_of ?s2 1 = ''b''" by (simp_all add: d)
  have "sys_step\<^sup>*\<^sup>* (sys_init False) ?s1"
    by (rule rtranclp.rtrancl_into_rtrancl [OF r_into_rtranclp]) (rule sys_step.begin_send)+
  moreover have "sys_step ?s1 (set_phase 0 Holding (?s1\<lparr>s_t := set_lock (host_of ?s1 0) True (s_t ?s1)\<rparr>))"
    by (rule sys_step.lock) (simp_all add: d)
  then have "sys_step ?s1 ?s2" by (simp only: h)
  moreover have "sys_step ?s2 (set_phase 1 Holding (?s2\<lparr>s_t := set_lock (host_of ?s2 1) True (s_t ?s2)\<rparr>))"
    by (rule sys_step.lock) (simp_all add: d)
  then have "sys_step ?s2 two_requests" unfolding h by (simp only: Let_def)
  ultimately have "sys_step\<^sup>*\<^sup>* (sys_init False) two_requests"
    by (rule rtranclp.rtrancl_into_rtrancl [OF rtranclp.rtrancl_into_rtrancl])
  then show ?thesis unfolding sys_reachable_def by blast
qed

lemma two_requests_simps:
  "length (s_reqs two_requests) = 2" "phase_of two_requests 0 = Holding" "phase_of two_requests 1 = Holding"
  by (simp_all add: Let_def sys_init_def begin_request_def set_phase_def)

theorem requests_exclusive_per_host_witness:
  "t_inFlight (s_t two_requests) = 2 \<and> host_of two_requests 0 \<noteq> host_of two_requests 1"
proof -
  note e = requests_exclusive_per_host [OF two_requests_reachable, unfolded two_requests_simps(1)]
  show ?thesis using conjunct1 [OF e] conjunct2 [OF e, rule_format, of 0 1]
    unfolding two_requests_simps by simp
qed

text \<open>C19: however requests interleave, a frame found on a waiting request's channel was sent from
  the address the request was sent to and carries its transaction id.\<close>

theorem waiting_gets_own_response:
  assumes "sys_reachable s" "i < length (s_reqs s)" "phase_of s i = Waiting key ch"
    and "t_chans (s_t s) ! ch = Some fr"
  shows "response_ok (q_tid (s_reqs s ! i)) (u_Data fr)
    \<and> (\<exists>addr. u_From fr = Some addr \<and> a_IP addr = Some (q_ip (s_reqs s ! i)))"
proof -
  have "channel_ok (s_t s) (s_reqs s ! i)"
    using sys_reachable_ok [OF assms(1)] assms(2) by (simp add: sys_ok_def)
  with assms(3,4) show ?thesis by (auto simp: channel_ok_def frame_for_def)
qed

abbreviation waiting_request :: sys where
  "waiting_request \<equiv>
     (let s1 = begin_request ''h'' ''h'' 1 (sys_init False);
          s2 = set_phase 0 Holding (s1\<lparr>s_t := set_lock ''h'' True (s_t s1)\<rparr>)
      in set_phase 0 (Waiting (waiterKey ''h'' 1) 0)
           (s2\<lparr>s_t := addWaiter (waiterKey ''h'' 1) 0 ((s_t s2)\<lparr>t_chans := t_chans (s_t s2) @ [None]\<rparr>)\<rparr>))"

abbreviation answered_request :: sys where
  "answered_request \<equiv> waiting_request\<lparr>s_t := fst (receiveFixedConn 7
     (ReadFrom (Some \<lparr>a_IP = Some ''h'', a_Port = 3610\<rparr>) sample_response) (s_t waiting_request))\<rparr>"

lemma answered_request_reachable: "sys_reachable answered_request"
proof -
  let ?s1 = "begin_request ''h'' ''h'' 1 (sys_init False)"
  let ?s2 = "set_phase 0 Holding (?s1\<lparr>s_t := set_lock ''h'' True (s_t ?s1)\<rparr>)"
  note d = sys_init_def begin_request_def NewTransport_def lockForHost_def set_phase_def set_lock_def
  have h: "host_of ?s1 0 = ''h''" "key_of ?s2 0 = waiterKey ''h'' 1" by (simp_all add: d)
  have "sys_step ?s1 (set_phase 0 Holding (?s1\<lparr>s_t := set_lock (host_of ?s1 0) True (s_t ?s1)\<rparr>))"
    by (rule sys_step.lock) (simp_all add: d)
  then have 2: "sys_step ?s1 ?s2" by (simp only: h)
  have "sys_step ?s2 (set_phase 0 (Waiting (key_of ?s2 0) 0)
      (?s2\<lparr>s_t := addWaiter (key_of ?s2 0) 0 ((s_t ?s2)\<lparr>t_chans := t_chans (s_t ?s2) @ [None]\<rparr>)\<rparr>))"
    by (rule sys_step.register) (simp_all add: d)
  then have 3: "sys_step ?s2 waiting_request" unfolding h by (simp only: Let_def)
  have "sys_step\<^sup>*\<^sup>* (sys_init False) ?s1" by (rule r_into_rtranclp) (rule sys_step.begin_send)
  then have "sys_step\<^sup>*\<^sup>* (sys_init False) waiting_request"
    using 2 3 by (rule rtranclp.rtrancl_into_rtrancl [OF rtranclp.rtrancl_into_rtrancl])
  then have "sys_step\<^sup>*\<^sup>* (sys_init False) answered_request"
    using sys_step.receive by (rule rtranclp.rtrancl_into_rtrancl)
  then show ?thesis unfolding sys_reachable_def by blast
qed

theorem waiting_gets_own_response_witness: "response_ok 1 sample_response"
proof -
  let ?fr = "\<lparr>u_From = Some \<lparr>a_IP = Some ''h'', a_Port = 3610\<rparr>, u_Data = sample_response\<rparr>"
  note d = sys_init_def begin_request_def NewTransport_def lockForHost_def set_phase_def set_lock_def addWaiter_def
  have 1: "s_reqs answered_request = [\<lparr>q_host = ''h'', q_ip = ''h'', q_tid = 1, q_phase = Waiting (waiterKey ''h'' 1) 0\<rparr>]"
    by (simp add: Let_def d)
  have "t_chans (s_t answered_request) ! 0 = Some ?fr"
    by (simp add: Let_def d receiveFixedConn_def be16_def chan_offer_def)
  from waiting_gets_own_response [OF answered_request_reachable _ _ this, of 0 "waiterKey ''h'' 1"]
  show ?thesis unfolding 1 by simp
qed

text \<open>C20: no deadlock. From every reachable state the requests in progress can all run to their end,
  and then no operation is active and no host is locked.\<close>

theorem requests_can_finish:
  assumes "sys_reachable s"
  shows "\<exists>s'. sys_step\<^sup>*\<^sup>* s s' \<and> s_reqs s' = [] \<and> t_inFlight (s_t s') = 0
    \<and> Some True \<notin> range (map_of (t_hostLocks (s_t s')))"
proof -
  obtain s' where s': "sys_step\<^sup>*\<^sup>* s s'" "s_reqs s' = []"
    using can_drain sys_reachable_ok [OF assms] by blast
  have "sys_ok s'" using s'(1) sys_reachable_ok [OF assms] by (induction) (auto intro: sys_ok_step)
  with s' show ?thesis
    by (intro exI [of _ s']) (auto simp: sys_ok_def locks_ok_def split: if_splits)
qed

theorem requests_can_finish_witness:
  "\<exists>s'. sys_step\<^sup>*\<^sup>* two_requests s' \<and> s_reqs s' = []"
  using requests_can_finish [OF two_requests_reachable] by blast

end
