(* ===== verification/GoFloat.thy ===== *)
theory GoFloat
  imports Prelude "HOL-Library.Log_Nat"
begin

text \<open>
  Go's \<open>float64\<close>: IEEE-754 binary64 with round-to-nearest-even, executable over the rationals.
  A value is NaN, a signed infinity, a signed zero or a non-zero rational \<open>Fin r\<close>. Each
  arithmetic operation treats the special values as the standard does and rounds the exact
  rational result once (\<open>round64\<close>): 53 significant bits, least exponent -1074, overflow to an
  infinity from \<open>2 ^ 1024\<close> on. The functions of the \<open>math\<close> package that the source calls are
  defined on top (\<open>Round\<close>, \<open>Trunc\<close>, \<open>Floor\<close>, \<open>Ceil\<close>, \<open>Abs\<close>, and \<open>Pow\<close> at base ten as the loop of
  the package computes it). The conversion of a float to an integer outside the integer's range
  is left to the implementation by the language: it is the parameter \<open>oor\<close>.
  The lemmas bound the rounding error and show which values are exact.
\<close>

datatype float64 = NaN | Inf bool | Zero bool | Fin rat

definition fval :: "float64 \<Rightarrow> rat" where
  "fval a = (case a of Fin r \<Rightarrow> r | _ \<Rightarrow> 0)"

definition is_neg :: "float64 \<Rightarrow> bool" where
  "is_neg a = (case a of NaN \<Rightarrow> False | Inf s \<Rightarrow> s | Zero s \<Rightarrow> s | Fin r \<Rightarrow> r < 0)"

definition is_inf :: "float64 \<Rightarrow> bool" where
  "is_inf a = (case a of Inf _ \<Rightarrow> True | _ \<Rightarrow> False)"

definition is_zero :: "float64 \<Rightarrow> bool" where
  "is_zero a = (case a of Zero _ \<Rightarrow> True | _ \<Rightarrow> False)"

lemma float_class_simps [simp]:
  "fval NaN = 0" "fval (Inf s) = 0" "fval (Zero s) = 0" "fval (Fin r) = r"
  "is_neg NaN = False" "is_neg (Inf s) = s" "is_neg (Zero s) = s" "is_neg (Fin r) = (r < 0)"
  "is_inf NaN = False" "is_inf (Inf s) = True" "is_inf (Zero s) = False" "is_inf (Fin r) = False"
  "is_zero NaN = False" "is_zero (Inf s) = False" "is_zero (Zero s) = True" "is_zero (Fin r) = False"
  by (simp_all add: fval_def is_neg_def is_inf_def is_zero_def)

section \<open>Rounding\<close>

text \<open>The exponent of a non-zero rational: \<open>2 ^ e \<le> \<bar>x\<bar> < 2 ^ (e + 1)\<close>.\<close>

definition expo :: "rat \<Rightarrow> int" where
  "expo x = (let (p, q) = quotient_of \<bar>x\<bar>; e = bitlen p - bitlen q
             in if 2 powi e \<le> \<bar>x\<bar> then e else e - 1)"

text \<open>Nearest integer, ties to even.\<close>

definition rne :: "rat \<Rightarrow> int" where
  "rne x = (let f = \<lfloor>x\<rfloor>; d = x - of_int f
            in if d < 1 / 2 then f else if d > 1 / 2 then f + 1 else if even f then f else f + 1)"

definition round64 :: "rat \<Rightarrow> float64" where
  "round64 x =
     (let e = max (expo x - 52) (- 1074); y = of_int (rne (x / 2 powi e)) * 2 powi e
      in if y = 0 then Zero (x < 0) else if 2 ^ 1024 \<le> \<bar>y\<bar> then Inf (x < 0) else Fin y)"

section \<open>Arithmetic and comparison\<close>

definition f_neg :: "float64 \<Rightarrow> float64" where
  "f_neg a = (case a of NaN \<Rightarrow> NaN | Inf s \<Rightarrow> Inf (\<not> s) | Zero s \<Rightarrow> Zero (\<not> s) | Fin r \<Rightarrow> Fin (- r))"

definition f_abs :: "float64 \<Rightarrow> float64" where
  "f_abs a = (case a of NaN \<Rightarrow> NaN | Inf s \<Rightarrow> Inf False | Zero s \<Rightarrow> Zero False | Fin r \<Rightarrow> Fin \<bar>r\<bar>)"

definition f_mul :: "float64 \<Rightarrow> float64 \<Rightarrow> float64" where
  "f_mul a b =
     (if a = NaN \<or> b = NaN then NaN
      else let s = (is_neg a \<noteq> is_neg b)
      in if is_inf a \<or> is_inf b then (if is_zero a \<or> is_zero b then NaN else Inf s)
         else if is_zero a \<or> is_zero b then Zero s
         else round64 (fval a * fval b))"

definition f_div :: "float64 \<Rightarrow> float64 \<Rightarrow> float64" where
  "f_div a b =
     (if a = NaN \<or> b = NaN then NaN
      else let s = (is_neg a \<noteq> is_neg b)
      in if is_inf a then (if is_inf b then NaN else Inf s)
         else if is_inf b then Zero s
         else if is_zero b then (if is_zero a then NaN else Inf s)
         else if is_zero a then Zero s
         else round64 (fval a / fval b))"

definition f_add :: "float64 \<Rightarrow> float64 \<Rightarrow> float64" where
  "f_add a b =
     (if a = NaN \<or> b = NaN then NaN
      else if is_inf a then (if is_inf b \<and> is_neg a \<noteq> is_neg b then NaN else a)
      else if is_inf b then b
      else if is_zero a \<and> is_zero b then Zero (is_neg a \<and> is_neg b)
      else let v = fval a + fval b in if v = 0 then Zero False else round64 v)"

definition f_sub :: "float64 \<Rightarrow> float64 \<Rightarrow> float64" where
  "f_sub a b = f_add a (f_neg b)"

definition f_eq :: "float64 \<Rightarrow> float64 \<Rightarrow> bool" where
  "f_eq a b = (if a = NaN \<or> b = NaN then False
               else if is_inf a \<or> is_inf b then a = b else fval a = fval b)"

definition f_less :: "float64 \<Rightarrow> float64 \<Rightarrow> bool" where
  "f_less a b = (if a = NaN \<or> b = NaN then False
                 else if is_inf a then is_neg a \<and> b \<noteq> Inf True
                 else if is_inf b then \<not> is_neg b
                 else fval a < fval b)"

definition f_le :: "float64 \<Rightarrow> float64 \<Rightarrow> bool" where
  "f_le a b \<longleftrightarrow> f_less a b \<or> f_eq a b"

section \<open>Conversions and the math package\<close>

text \<open>\<open>float64(n)\<close> of an integer, correctly rounded.\<close>

definition f_of_int :: "int \<Rightarrow> float64" where
  "f_of_int n = (if n = 0 then Zero False else round64 (of_int n))"

definition trunc_rat :: "rat \<Rightarrow> int" where
  "trunc_rat r = (if r < 0 then \<lceil>r\<rceil> else \<lfloor>r\<rfloor>)"

text \<open>\<open>int64(f)\<close>: truncation towards zero; \<open>oor\<close> says what the platform gives out of range.\<close>

definition f_to_int64 :: "(float64 \<Rightarrow> int) \<Rightarrow> float64 \<Rightarrow> int" where
  "f_to_int64 oor a =
     (case a of Zero _ \<Rightarrow> 0
      | Fin r \<Rightarrow> (let n = trunc_rat r in if int64_ok n then n else oor a)
      | _ \<Rightarrow> oor a)"

definition int_float :: "bool \<Rightarrow> int \<Rightarrow> float64" where
  "int_float s n = (if n = 0 then Zero s else Fin (of_int n))"

text \<open>\<open>math.Round\<close>: nearest integer, half away from zero.\<close>

definition round_away :: "rat \<Rightarrow> int" where
  "round_away r = (if r < 0 then - \<lfloor>1 / 2 - r\<rfloor> else \<lfloor>r + 1 / 2\<rfloor>)"

definition f_round :: "float64 \<Rightarrow> float64" where
  "f_round a = (case a of Fin r \<Rightarrow> int_float (r < 0) (round_away r) | _ \<Rightarrow> a)"

definition f_trunc :: "float64 \<Rightarrow> float64" where
  "f_trunc a = (case a of Fin r \<Rightarrow> int_float (r < 0) (trunc_rat r) | _ \<Rightarrow> a)"

definition f_floor :: "float64 \<Rightarrow> float64" where
  "f_floor a = (case a of Fin r \<Rightarrow> int_float (r < 0) \<lfloor>r\<rfloor> | _ \<Rightarrow> a)"

definition f_ceil :: "float64 \<Rightarrow> float64" where
  "f_ceil a = (case a of Fin r \<Rightarrow> int_float (r < 0) \<lceil>r\<rceil> | _ \<Rightarrow> a)"

text \<open>
  \<open>math.Pow(10, y)\<close> for an integral \<open>y\<close>: the package writes ten as \<open>0.625 * 2 ^ 4\<close> and squares
  the fraction, keeping it in \<open>[0.5, 1)\<close> by doubling it and lowering the binary exponent \<open>xe\<close>;
  a negative exponent takes the reciprocal at the end, and \<open>Ldexp\<close> scales. \<open>xe\<close> out of the
  range \<open>\<plusminus>4096\<close> stops the loop (the result then over- or underflows).
\<close>

definition f_scale2 :: "float64 \<Rightarrow> int \<Rightarrow> float64" where
  "f_scale2 a e = (case a of Fin r \<Rightarrow> round64 (r * 2 powi e) | _ \<Rightarrow> a)"

function pow10_loop :: "nat \<Rightarrow> float64 \<Rightarrow> int \<Rightarrow> float64 \<Rightarrow> int \<Rightarrow> float64 \<times> int" where
  "pow10_loop i x1 xe a1 ae =
     (if i = 0 then (a1, ae)
      else if xe < - 4096 \<or> 4096 < xe then (a1, ae + xe)
      else
        let (a1', ae') = (if odd i then (f_mul a1 x1, ae + xe) else (a1, ae));
            x2 = f_mul x1 x1;
            (x3, xe3) = (if f_less x2 (Fin (1 / 2)) then (f_add x2 x2, 2 * xe - 1) else (x2, 2 * xe))
        in pow10_loop (i div 2) x3 xe3 a1' ae')"
  by pat_completeness auto
termination
  by (relation "measure (\<lambda>(i, _). i)") auto

definition pow10 :: "int \<Rightarrow> float64" where
  "pow10 n =
     (let (a1, ae) = pow10_loop (nat \<bar>n\<bar>) (Fin (5 / 8)) 4 (Fin 1) 0
      in if n < 0 then f_scale2 (f_div (Fin 1) a1) (- ae) else f_scale2 a1 ae)"

declare pow10_loop.simps [simp del]

section \<open>Exactness and error bounds\<close>

lemma two_powi_pos [simp]: "0 < (2 :: rat) powi e"
  by (rule zero_less_power_int) simp

lemma two_powi_less_imp: "(2 :: rat) powi a < 2 powi b \<Longrightarrow> a < b"
proof (rule ccontr)
  assume "(2 :: rat) powi a < 2 powi b" "\<not> a < b"
  then have "(2 :: rat) powi b \<le> 2 powi a" by (intro power_int_increasing) auto
  with \<open>(2 :: rat) powi a < 2 powi b\<close> show False by simp
qed

lemma two_powi_add: "(2 :: rat) powi (a + b) = 2 powi a * 2 powi b"
  by (simp add: power_int_add)

lemma two_powi_diff: "(2 :: rat) powi (a - b) = 2 powi a / 2 powi b"
  by (simp add: power_int_diff)

lemma bitlen_powi:
  assumes "0 < p"
  shows "2 powi (bitlen p - 1) \<le> rat_of_int p" "rat_of_int p < 2 powi (bitlen p)"
proof -
  from assms have b: "2 ^ nat (bitlen p - 1) \<le> p" "p < 2 ^ nat (bitlen p)"
    using bitlen_bounds [of p] by auto
  have n: "0 \<le> bitlen p - 1" "0 \<le> bitlen p"
    using assms bitlen_eq_zero_iff [of p] bitlen_nonneg [of p] by linarith+
  from b(1) have "rat_of_int (2 ^ nat (bitlen p - 1)) \<le> rat_of_int p" by (simp only: of_int_le_iff)
  then show "2 powi (bitlen p - 1) \<le> rat_of_int p" using n(1) by (simp add: power_int_def)
  from b(2) have "rat_of_int p < rat_of_int (2 ^ nat (bitlen p))" by (simp only: of_int_less_iff)
  then show "rat_of_int p < 2 powi (bitlen p)" using n(2) by (simp add: power_int_def)
qed

lemma expo_bounds:
  assumes "x \<noteq> 0"
  shows "2 powi (expo x) \<le> \<bar>x\<bar>" "\<bar>x\<bar> < 2 powi (expo x + 1)"
proof -
  obtain p q where pq: "quotient_of \<bar>x\<bar> = (p, q)" by force
  then have q: "0 < q" and xe: "\<bar>x\<bar> = of_int p / of_int q"
    by (auto dest: quotient_of_denom_pos quotient_of_div)
  from assms q xe have p: "0 < p"
    by (metis abs_le_zero_iff divide_nonpos_pos not_le of_int_0_less_iff of_int_le_0_iff)
  define e where "e = bitlen p - bitlen q"
  have up: "\<bar>x\<bar> < 2 powi (e + 1)"
  proof -
    have "\<bar>x\<bar> < 2 powi bitlen p / 2 powi (bitlen q - 1)"
      unfolding xe using bitlen_powi [OF p] bitlen_powi [OF q] q p
      by (intro frac_less) auto
    also have "\<dots> = 2 powi (e + 1)"
      by (simp add: e_def two_powi_diff [symmetric] algebra_simps)
    finally show ?thesis .
  qed
  have lo: "2 powi (e - 1) \<le> \<bar>x\<bar>"
  proof -
    have "2 powi (bitlen p - 1) / 2 powi bitlen q \<le> \<bar>x\<bar>"
      unfolding xe using bitlen_powi [OF p] bitlen_powi [OF q] q p
      by (intro frac_le) auto
    also have "2 powi (bitlen p - 1) / 2 powi bitlen q = (2 :: rat) powi (e - 1)"
      by (simp add: e_def two_powi_diff [symmetric] algebra_simps)
    finally show ?thesis .
  qed
  have "expo x = (if 2 powi e \<le> \<bar>x\<bar> then e else e - 1)"
    by (simp add: expo_def pq e_def Let_def)
  with up lo show "2 powi (expo x) \<le> \<bar>x\<bar>" "\<bar>x\<bar> < 2 powi (expo x + 1)"
    by (auto split: if_splits)
qed

lemma rne_error: "\<bar>of_int (rne z) - z\<bar> \<le> 1 / 2"
proof -
  have z: "of_int \<lfloor>z\<rfloor> \<le> z" "z < of_int \<lfloor>z\<rfloor> + 1" by linarith+
  consider "rne z = \<lfloor>z\<rfloor>" "z - of_int \<lfloor>z\<rfloor> \<le> 1 / 2"
    | "rne z = \<lfloor>z\<rfloor> + 1" "1 / 2 \<le> z - of_int \<lfloor>z\<rfloor>"
    unfolding rne_def Let_def by (metis linorder_less_linear order_le_less)
  then show ?thesis
  proof cases
    case 1
    with z show ?thesis by (simp only: abs_le_iff) linarith
  next
    case 2
    with z show ?thesis by (simp only: abs_le_iff of_int_add of_int_1) linarith
  qed
qed

lemma rne_of_int [simp]: "rne (of_int n) = n"
  by (simp add: rne_def)

lemma expo_ge:
  assumes "2 powi k \<le> \<bar>x\<bar>"
  shows "k \<le> expo x"
proof -
  have "0 < \<bar>x\<bar>" using assms two_powi_pos [of k] by linarith
  then have "x \<noteq> 0" by simp
  from expo_bounds(2) [OF this] assms have "(2 :: rat) powi k < 2 powi (expo x + 1)" by linarith
  from two_powi_less_imp [OF this] show ?thesis by simp
qed

lemma expo_less:
  assumes "x \<noteq> 0" "\<bar>x\<bar> < 2 powi k"
  shows "expo x < k"
  using expo_bounds(1) [OF assms(1)] assms(2) by (intro two_powi_less_imp) linarith

text \<open>The relative error of one rounding, for a value in the normal range.\<close>

lemma round64_cases:
  assumes x: "2 powi (- 1022) \<le> \<bar>x\<bar>"
  obtains y where "\<bar>y - x\<bar> \<le> \<bar>x\<bar> / 2 ^ 53" "round64 x = (if 2 ^ 1024 \<le> \<bar>y\<bar> then Inf (x < 0) else Fin y)"
proof -
  have "0 < \<bar>x\<bar>" using x two_powi_pos [of "- 1022"] by linarith
  then have x0: "x \<noteq> 0" by simp
  define e where "e = expo x - 52"
  have em: "max (expo x - 52) (- 1074) = e"
    using expo_ge [OF x] by (simp add: e_def)
  define y where "y = of_int (rne (x / 2 powi e)) * (2 :: rat) powi e"
  have "\<bar>of_int (rne (x / 2 powi e)) - x / 2 powi e\<bar> * 2 powi e \<le> 1 / 2 * 2 powi e"
    by (intro mult_right_mono rne_error) (simp add: less_imp_le)
  also have "\<bar>of_int (rne (x / 2 powi e)) - x / 2 powi e\<bar> * 2 powi e
      = \<bar>(of_int (rne (x / 2 powi e)) - x / 2 powi e) * 2 powi e\<bar>"
    by (simp add: abs_mult)
  also have "(of_int (rne (x / 2 powi e)) - x / 2 powi e) * 2 powi e = y - x"
    by (simp add: y_def left_diff_distrib)
  also have "1 / 2 * (2 :: rat) powi e = 2 powi (expo x) / 2 ^ 53"
    by (simp add: e_def two_powi_diff)
  also have "\<dots> \<le> \<bar>x\<bar> / 2 ^ 53"
    using expo_bounds(1) [OF x0] by (simp add: divide_right_mono)
  finally have err: "\<bar>y - x\<bar> \<le> \<bar>x\<bar> / 2 ^ 53" .
  then have "y \<noteq> 0" using \<open>0 < \<bar>x\<bar>\<close> by auto
  then have "round64 x = (if 2 ^ 1024 \<le> \<bar>y\<bar> then Inf (x < 0) else Fin y)"
    unfolding round64_def em Let_def y_def by simp
  with err show thesis by (rule that)
qed

lemma round64_error:
  assumes "2 powi (- 1022) \<le> \<bar>x\<bar>" "round64 x = Fin y"
  shows "\<bar>y - x\<bar> \<le> \<bar>x\<bar> / 2 ^ 53"
  using round64_cases [OF assms(1)] assms(2) by (metis float64.distinct(9) float64.inject(3))

lemma round64_finite:
  assumes "2 powi (- 1022) \<le> \<bar>x\<bar>" "\<bar>x\<bar> \<le> 2 ^ 1023"
  obtains y where "round64 x = Fin y" "\<bar>y - x\<bar> \<le> \<bar>x\<bar> / 2 ^ 53"
proof -
  obtain y where y: "\<bar>y - x\<bar> \<le> \<bar>x\<bar> / 2 ^ 53"
    "round64 x = (if 2 ^ 1024 \<le> \<bar>y\<bar> then Inf (x < 0) else Fin y)"
    using round64_cases [OF assms(1)] by blast
  have "\<bar>y\<bar> \<le> \<bar>x\<bar> + \<bar>x\<bar> / 2 ^ 53" using y(1) by linarith
  also have "\<dots> \<le> 2 ^ 1023 + 2 ^ 1023 / 2 ^ 53"
    using assms(2) by (intro add_mono divide_right_mono) auto
  also have "\<dots> < 2 ^ 1024" by simp
  finally have "\<not> 2 ^ 1024 \<le> \<bar>y\<bar>" by simp
  with y that show thesis by auto
qed

text \<open>A dyadic number of at most 53 bits, below the greatest float, is its own rounding.\<close>

lemma round64_dyadic_below:
  assumes m: "m \<noteq> 0" "\<bar>m\<bar> \<le> 2 ^ 53" and k: "- 1074 \<le> k" and below: "\<bar>of_int m * 2 powi k\<bar> < (2 :: rat) ^ 1024"
  shows "round64 (of_int m * 2 powi k) = Fin (of_int m * 2 powi k)"
proof -
  define x :: rat where "x = of_int m * 2 powi k"
  from m have x0: "x \<noteq> 0" by (simp add: x_def)
  have ax: "\<bar>x\<bar> = of_int \<bar>m\<bar> * 2 powi k" by (simp add: x_def abs_mult)
  have bnd: "\<bar>x\<bar> \<le> 2 powi (53 + k)"
  proof -
    have "rat_of_int \<bar>m\<bar> \<le> rat_of_int (2 ^ 53)" using m(2) by (simp only: of_int_le_iff)
    then have "\<bar>x\<bar> \<le> 2 ^ 53 * 2 powi k" unfolding ax by (intro mult_right_mono) (auto simp: less_imp_le)
    then show ?thesis by (simp add: two_powi_add)
  qed
  define e where "e = max (expo x - 52) (- 1074)"
  have "\<exists>n. x / 2 powi e = of_int n"
  proof (cases "e \<le> k")
    case True
    have "x / 2 powi e = of_int m * 2 powi (k - e)" by (simp add: x_def two_powi_diff)
    also have "\<dots> = of_int (m * 2 ^ nat (k - e))" using True by (simp add: power_int_def)
    finally show ?thesis by blast
  next
    case False
    with k have e: "e = expo x - 52" "k < e" by (auto simp: e_def)
    then have "53 + k \<le> expo x" by simp
    then have "(2 :: rat) powi (53 + k) \<le> 2 powi expo x" by (intro power_int_increasing) auto
    with expo_bounds(1) [OF x0] bnd have eq: "\<bar>x\<bar> = 2 powi (expo x)" by linarith
    have "x / 2 powi e = (if x < 0 then - (\<bar>x\<bar> / 2 powi e) else \<bar>x\<bar> / 2 powi e)" by auto
    also have "\<bar>x\<bar> / 2 powi e = of_int (2 ^ 52)"
      unfolding eq e(1) by (simp add: two_powi_diff)
    finally show ?thesis by (metis of_int_minus)
  qed
  then obtain n where n: "x / 2 powi e = of_int n" by blast
  have "of_int n * 2 powi e = x" unfolding n [symmetric] by simp
  with n have y: "of_int (rne (x / 2 powi e)) * 2 powi e = x" by simp
  have "\<not> 2 ^ 1024 \<le> \<bar>x\<bar>" using below by (simp add: x_def)
  with y x0 show ?thesis unfolding x_def [symmetric] round64_def e_def [symmetric] Let_def by simp
qed

lemma round64_dyadic:
  assumes m: "m \<noteq> 0" "\<bar>m\<bar> \<le> 2 ^ 53" and k: "- 1074 \<le> k" "k \<le> 900"
  shows "round64 (of_int m * 2 powi k) = Fin (of_int m * 2 powi k)"
proof (rule round64_dyadic_below [OF m k(1)])
  have "rat_of_int \<bar>m\<bar> \<le> rat_of_int (2 ^ 53)" using m(2) by (simp only: of_int_le_iff)
  then have "\<bar>of_int m * (2 :: rat) powi k\<bar> \<le> 2 ^ 53 * 2 powi k"
    unfolding abs_mult by (intro mult_mono) (auto simp: less_imp_le)
  also have "\<dots> = 2 powi (53 + k)" by (simp add: two_powi_add)
  also have "\<dots> < 2 powi 1024" using k by (intro power_int_strict_increasing) auto
  finally show "\<bar>of_int m * 2 powi k\<bar> < (2 :: rat) ^ 1024" by simp
qed

text \<open>Rounding is idempotent.\<close>

lemma round64_idem:
  assumes "round64 x = Fin y"
  shows "round64 y = Fin y"
proof -
  define e where "e = max (expo x - 52) (- 1074)"
  define m where "m = rne (x / 2 powi e)"
  have y: "y = of_int m * 2 powi e" "y \<noteq> 0" "\<bar>y\<bar> < 2 ^ 1024"
    using assms unfolding round64_def Let_def e_def [symmetric] m_def [symmetric] by (auto split: if_splits)
  have x0: "x \<noteq> 0" using y by (auto simp: m_def rne_def)
  have "\<bar>x\<bar> < 2 powi (expo x + 1)" by (rule expo_bounds(2) [OF x0])
  also have "\<dots> \<le> 2 powi (53 + e)" by (intro power_int_increasing) (auto simp: e_def)
  also have "\<dots> = 2 ^ 53 * 2 powi e" by (simp add: two_powi_add)
  finally have "\<bar>x / 2 powi e\<bar> < 2 ^ 53" by (simp add: divide_less_eq)
  with rne_error [of "x / 2 powi e"] have "\<bar>rat_of_int m\<bar> < 2 ^ 53 + 1" unfolding m_def by linarith
  then have "rat_of_int \<bar>m\<bar> < rat_of_int (2 ^ 53 + 1)" by simp
  then have "\<bar>m\<bar> \<le> 2 ^ 53" by (simp only: of_int_less_iff)
  moreover have "m \<noteq> 0" using y by auto
  moreover have "- 1074 \<le> e" by (simp add: e_def)
  ultimately show ?thesis using y(3) unfolding y(1) by (intro round64_dyadic_below) auto
qed

lemma round64_of_int: "n \<noteq> 0 \<Longrightarrow> \<bar>n\<bar> \<le> 2 ^ 53 \<Longrightarrow> round64 (of_int n) = Fin (of_int n)"
  using round64_dyadic [of n 0] by simp

lemma f_of_int_exact: "\<bar>n\<bar> \<le> 2 ^ 53 \<Longrightarrow> f_of_int n = int_float False n"
  by (simp add: f_of_int_def int_float_def round64_of_int)

lemma f_round_near:
  assumes "\<bar>y - of_int n\<bar> < 1 / 2" "n \<noteq> 0"
  shows "f_round (Fin y) = Fin (of_int n)"
proof -
  have b: "y - of_int n < 1 / 2" "of_int n - y < 1 / 2"
    using assms(1) unfolding abs_less_iff by linarith+
  have "round_away y = n"
  proof (cases "y < 0")
    case True
    have "of_int (- n) \<le> 1 / 2 - y" "1 / 2 - y < of_int (- n) + 1"
      using b unfolding of_int_minus by linarith+
    then have "\<lfloor>1 / 2 - y\<rfloor> = - n" by (rule floor_unique)
    with True show ?thesis by (simp add: round_away_def)
  next
    case False
    have "\<lfloor>y + 1 / 2\<rfloor> = n" by (rule floor_unique) (use b in linarith)+
    with False show ?thesis by (simp add: round_away_def)
  qed
  with assms(2) show ?thesis by (simp add: f_round_def int_float_def)
qed

lemma round64_frac:
  assumes "numeral b = (2 :: rat) ^ j" "j \<le> 1000" "(numeral a :: int) \<le> 2 ^ 53"
  shows "round64 (numeral a / numeral b) = Fin (numeral a / numeral b)"
proof -
  have "numeral a / numeral b = of_int (numeral a) * (2 :: rat) powi (- int j)"
    using assms(1) by (simp add: power_int_minus field_simps)
  moreover have "round64 (of_int (numeral a) * 2 powi (- int j))
      = Fin (of_int (numeral a) * 2 powi (- int j))"
    using assms(2,3) by (intro round64_dyadic) auto
  ultimately show ?thesis by (simp only:)
qed

lemma round64_numeral: "(numeral a :: int) \<le> 2 ^ 53 \<Longrightarrow> round64 (numeral a) = Fin (numeral a)"
  using round64_of_int [of "numeral a"] by simp

lemma pow10_rounds:
  "round64 (25 / 64) = Fin (25 / 64)" "round64 (25 / 32) = Fin (25 / 32)"
  "round64 (625 / 1024) = Fin (625 / 1024)" "round64 (125 / 256) = Fin (125 / 256)"
  "round64 (125 / 512) = Fin (125 / 512)"
  "round64 (390625 / 1048576) = Fin (390625 / 1048576)"
  "round64 (390625 / 524288) = Fin (390625 / 524288)"
  by (rule round64_frac [where j = 6] round64_frac [where j = 5] round64_frac [where j = 10]
      round64_frac [where j = 8] round64_frac [where j = 9]
      round64_frac [where j = 20] round64_frac [where j = 19]; simp; fail)+

lemma pow10_1: "pow10 1 = Fin 10"
  by (simp add: pow10_def pow10_loop.simps f_mul_def f_less_def f_add_def pow10_rounds round64_frac [where j=3] round64_numeral f_scale2_def)

lemma pow10_2: "pow10 2 = Fin 100"
  apply (simp add: pow10_def pow10_loop.simps f_mul_def f_less_def f_add_def pow10_rounds round64_frac [where j=3] round64_numeral f_scale2_def)
  done
lemma pow10_3: "pow10 3 = Fin 1000"
  apply (simp add: pow10_def pow10_loop.simps f_mul_def f_less_def f_add_def pow10_rounds round64_frac [where j=3] round64_numeral f_scale2_def)
  done

section \<open>Error propagation\<close>

text \<open>\<open>near n x y\<close>: \<open>y\<close> is \<open>x\<close> up to \<open>n\<close> units of relative error \<open>2 ^ -53\<close>.\<close>

definition near :: "nat \<Rightarrow> rat \<Rightarrow> rat \<Rightarrow> bool" where
  "near n x y \<longleftrightarrow> \<bar>y - x\<bar> \<le> \<bar>x\<bar> * (of_nat n / 2 ^ 53)"

lemma near_refl [simp]: "near n x x"
  by (simp add: near_def)

lemma near_mono: "near m x y \<Longrightarrow> m \<le> n \<Longrightarrow> near n x y"
  unfolding near_def
  by (erule order_trans) (intro mult_left_mono divide_right_mono, auto)

lemma near_mult: "near n x y \<Longrightarrow> near n (x * c) (y * c)"
  unfolding near_def by (simp add: left_diff_distrib [symmetric] abs_mult mult_right_mono mult.assoc mult.left_commute [of _ "\<bar>c\<bar>"] mult.commute [of _ "\<bar>c\<bar>"] mult_left_mono)

lemma near_bound:
  assumes "near n x y" "n \<le> 2 ^ 52"
  shows "\<bar>x\<bar> / 2 \<le> \<bar>y\<bar>" "\<bar>y\<bar> \<le> 2 * \<bar>x\<bar>"
proof -
  have "rat_of_nat n \<le> rat_of_nat (2 ^ 52)" using assms(2) by (simp only: of_nat_le_iff)
  then have "of_nat n / (2 :: rat) ^ 53 \<le> 1 / 2" by simp
  then have "\<bar>x\<bar> * (of_nat n / 2 ^ 53) \<le> \<bar>x\<bar> * (1 / 2)" by (intro mult_left_mono) auto
  with assms(1) show "\<bar>x\<bar> / 2 \<le> \<bar>y\<bar>" "\<bar>y\<bar> \<le> 2 * \<bar>x\<bar>" unfolding near_def by linarith+
qed

lemma near_trans:
  assumes xy: "near m x y" and yz: "near n y z" and b: "m \<le> 2 ^ 52"
  shows "near (m + 2 * n) x z"
proof -
  have "\<bar>z - x\<bar> \<le> \<bar>z - y\<bar> + \<bar>y - x\<bar>" by linarith
  also have "\<dots> \<le> \<bar>y\<bar> * (of_nat n / 2 ^ 53) + \<bar>x\<bar> * (of_nat m / 2 ^ 53)"
    using xy yz by (simp add: near_def add_mono)
  also have "\<dots> \<le> 2 * \<bar>x\<bar> * (of_nat n / 2 ^ 53) + \<bar>x\<bar> * (of_nat m / 2 ^ 53)"
    using near_bound(2) [OF xy b] by (intro add_mono mult_right_mono) auto
  also have "\<dots> = \<bar>x\<bar> * (of_nat (m + 2 * n) / 2 ^ 53)" by (simp add: field_simps)
  finally show ?thesis by (simp add: near_def)
qed

lemma near_inverse:
  assumes "near n c s" "n \<le> 2 ^ 52" "c \<noteq> 0"
  shows "near (2 * n) (1 / c) (1 / s)"
proof -
  have s: "\<bar>c\<bar> / 2 \<le> \<bar>s\<bar>" using near_bound(1) [OF assms(1,2)] .
  have "0 < \<bar>c\<bar> / 2" using assms(3) by simp
  with s have s0: "0 < \<bar>s\<bar>" by linarith
  have "\<bar>1 / s - 1 / c\<bar> = \<bar>s - c\<bar> / (\<bar>c\<bar> * \<bar>s\<bar>)"
    using s0 assms(3) by (simp add: diff_frac_eq abs_mult abs_minus_commute)
  also have "\<dots> \<le> (\<bar>c\<bar> * (of_nat n / 2 ^ 53)) / (\<bar>c\<bar> * \<bar>s\<bar>)"
    using assms(1) by (intro divide_right_mono) (auto simp: near_def)
  also have "\<dots> = (of_nat n / 2 ^ 53) / \<bar>s\<bar>" using assms(3) by simp
  also have "\<dots> \<le> (of_nat n / 2 ^ 53) / (\<bar>c\<bar> / 2)"
    using s s0 assms(3) by (intro divide_left_mono) auto
  also have "\<dots> = \<bar>1 / c\<bar> * (of_nat (2 * n) / 2 ^ 53)" by (simp add: abs_divide)
  finally show ?thesis by (simp add: near_def)
qed

lemma near_divide:
  assumes "near m x y" "near n c s" "m \<le> 2 ^ 52" "n \<le> 2 ^ 52" "c \<noteq> 0"
  shows "near (m + 4 * n) (x / c) (y / s)"
proof -
  have "near m (x * (1 / c)) (y * (1 / c))" using assms(1) by (rule near_mult)
  moreover have "near (2 * n) (1 / c * y) (1 / s * y)"
    by (rule near_mult, rule near_inverse) (use assms in auto)
  ultimately have "near (m + 2 * (2 * n)) (x * (1 / c)) (1 / s * y)"
    using assms(3) by (simp only: mult.commute [of "1 / c" y]) (rule near_trans)
  then show ?thesis by simp
qed

lemma near_round64:
  assumes "near m x y" "m \<le> 2 ^ 52" "2 powi (- 1021) \<le> \<bar>x\<bar>" "round64 y = Fin z"
  shows "near (m + 2) x z"
proof -
  have "2 powi (- 1022) = (2 :: rat) powi (- 1021) / 2" using two_powi_diff [of "- 1021" 1] by simp
  then have "2 powi (- 1022) \<le> \<bar>x\<bar> / 2" using assms(3) by linarith
  then have "2 powi (- 1022) \<le> \<bar>y\<bar>" using near_bound(1) [OF assms(1,2)] by linarith
  from round64_error [OF this assms(4)] have "near 1 y z" by (simp add: near_def)
  from near_trans [OF assms(1) this assms(2)] show ?thesis by simp
qed

lemma near_round64_ex:
  assumes "near m x y" "m \<le> 2 ^ 52" "2 powi (- 1021) \<le> \<bar>x\<bar>" "\<bar>x\<bar> \<le> 2 ^ 1022"
  obtains z where "round64 y = Fin z" "near (m + 2) x z"
proof -
  have "2 powi (- 1022) = (2 :: rat) powi (- 1021) / 2" using two_powi_diff [of "- 1021" 1] by simp
  then have "2 powi (- 1022) \<le> \<bar>x\<bar> / 2" using assms(3) by linarith
  then have "2 powi (- 1022) \<le> \<bar>y\<bar>" using near_bound(1) [OF assms(1,2)] by linarith
  moreover have "\<bar>y\<bar> \<le> 2 ^ 1023" using near_bound(2) [OF assms(1,2)] assms(4) by simp
  ultimately obtain z where z: "round64 y = Fin z" by (rule round64_finite)
  with near_round64 [OF assms(1-3)] that show thesis by blast
qed

lemma near_round_int:
  assumes "near m (of_int n) y" "m \<le> 2 ^ 19" "\<bar>n\<bar> \<le> 2 ^ 32" "n \<noteq> 0"
  shows "f_round (Fin y) = Fin (of_int n)"
proof (rule f_round_near [OF _ assms(4)])
  have m: "rat_of_nat m \<le> 2 ^ 19"
    using assms(2) by (metis of_nat_le_iff of_nat_numeral of_nat_power)
  have n: "\<bar>rat_of_int n\<bar> \<le> 2 ^ 32"
    using assms(3) by (metis of_int_abs of_int_le_iff of_int_numeral of_int_power)
  have "\<bar>y - of_int n\<bar> \<le> \<bar>of_int n\<bar> * (of_nat m / 2 ^ 53)"
    using assms(1) by (simp add: near_def)
  also have "\<dots> \<le> 2 ^ 32 * (2 ^ 19 / 2 ^ 53)"
    using m n by (intro mult_mono divide_right_mono) auto
  also have "\<dots> < 1 / 2" by simp
  finally show "\<bar>y - of_int n\<bar> < 1 / 2" .
qed

lemma normal_bound: "(x :: rat) \<ge> 1 / 10 ^ 9 \<Longrightarrow> 2 powi (- 1021) \<le> x"
proof -
  assume "x \<ge> 1 / 10 ^ 9"
  moreover have "(2 :: rat) powi (- 1021) \<le> 2 powi (- 30)" by (intro power_int_increasing) auto
  moreover have "(2 :: rat) powi (- 30) \<le> 1 / 10 ^ 9" by (simp add: power_int_minus)
  ultimately show ?thesis by linarith
qed


end
