(* ===== verification/Specs.thy ===== *)
theory Specs
  imports GoFloat
begin

text \<open>
  \<open>internal/specs/types.go\<close>: the device, climate, light and metric specifications, the lookups
  over a list of metrics and the choice of a Home Assistant entity type. A nil
  \<open>*ClimateSpec\<close> or \<open>*LightSpec\<close> receiver is \<open>None\<close>. Field names carry a prefix for their
  struct (\<open>m_\<close>, \<open>d_\<close>, \<open>c_\<close>, \<open>l_\<close>), since selectors are global constants.
\<close>

record ClimateSpec =
  c_ModeEPC :: byte
  c_TemperatureEPC :: byte
  c_CurrentTemperatureEPC :: byte
  c_FanModeEPC :: byte
  c_MinTemp :: float64
  c_MaxTemp :: float64
  c_TempStep :: float64
  c_Modes :: "(string, int option) gomap"
  c_FanModes :: "string list"

record LightSpec =
  l_BrightnessEPC :: byte
  l_ColorSettingEPC :: byte
  l_ColorSettings :: "(string, int) gomap"
  l_SceneEPC :: byte
  l_MaxScenes :: int

record MetricSpec =
  m_EPC :: byte
  m_Name :: string
  m_Help :: string
  m_Size :: int
  m_Offset :: int
  m_Scale :: float64
  m_Signed :: bool
  m_Invalid :: "int option"
  m_Type :: string
  m_Enum :: "(int, string) gomap"
  m_ReverseEnum :: "(string, int) gomap"
  m_ScrapeInterval :: duration
  m_MultiplierEPC :: byte
  m_MultiplierMap :: "(int, float64) gomap"
  m_HADeviceClass :: string
  m_HAStateClass :: string
  m_HAUnit :: string
  m_NumberMin :: "float64 option"
  m_NumberMax :: "float64 option"
  m_PreSetEPC :: byte
  m_PreSetValue :: int
  m_ExcludeSet :: bool
  m_SetMode :: string

text \<open>The zero value \<open>MetricSpec{}\<close>; a nil map is the empty one.\<close>

definition zero_metric :: MetricSpec where
  "zero_metric = \<lparr>m_EPC = 0, m_Name = [], m_Help = [], m_Size = 0, m_Offset = 0, m_Scale = Zero False,
     m_Signed = False, m_Invalid = None, m_Type = [], m_Enum = [], m_ReverseEnum = [],
     m_ScrapeInterval = 0, m_MultiplierEPC = 0, m_MultiplierMap = [], m_HADeviceClass = [],
     m_HAStateClass = [], m_HAUnit = [], m_NumberMin = None, m_NumberMax = None, m_PreSetEPC = 0,
     m_PreSetValue = 0, m_ExcludeSet = False, m_SetMode = []\<rparr>"

record DeviceSpec =
  d_EOJ :: eoj
  d_Description :: string
  d_DefaultScrapeInterval :: duration
  d_Metrics :: "MetricSpec list"
  d_Climate :: "ClimateSpec option"
  d_Light :: "LightSpec option"

definition climate_HandlesEPC :: "ClimateSpec option \<Rightarrow> byte \<Rightarrow> bool" where
  "climate_HandlesEPC co epc =
     (case co of
        None \<Rightarrow> False
      | Some c \<Rightarrow>
          if epc = 0x80 then True
          else epc = c_ModeEPC c \<or> epc = c_TemperatureEPC c \<or> epc = c_CurrentTemperatureEPC c
            \<or> (c_FanModeEPC c \<noteq> 0 \<and> epc = c_FanModeEPC c))"

definition light_HandlesEPC :: "LightSpec option \<Rightarrow> byte \<Rightarrow> bool" where
  "light_HandlesEPC lo epc =
     (case lo of
        None \<Rightarrow> False
      | Some l \<Rightarrow>
          if epc = 0x80 then True
          else (l_BrightnessEPC l \<noteq> 0 \<and> epc = l_BrightnessEPC l)
            \<or> (l_ColorSettingEPC l \<noteq> 0 \<and> epc = l_ColorSettingEPC l)
            \<or> (l_SceneEPC l \<noteq> 0 \<and> epc = l_SceneEPC l))"

definition FindMetricSpecByEPC :: "MetricSpec list \<Rightarrow> byte \<Rightarrow> MetricSpec option" where
  "FindMetricSpecByEPC ms epc =
     (if epc = 0 then None else find (\<lambda>m. m_EPC m = epc) ms)"

definition FindMetricSpecByName :: "MetricSpec list \<Rightarrow> string \<Rightarrow> MetricSpec option" where
  "FindMetricSpecByName ms name =
     (if name = [] then None else find (\<lambda>m. m_Name m = name) ms)"

definition MetricNameForEPC :: "MetricSpec list \<Rightarrow> byte \<Rightarrow> string" where
  "MetricNameForEPC ms epc =
     (case FindMetricSpecByEPC ms epc of Some m \<Rightarrow> m_Name m | None \<Rightarrow> '''')"

text \<open>
  The labels are compared with \<open>"on"\<close> and \<open>"off"\<close> after \<open>strings.ToLower\<close>; no character outside
  ASCII has a lower case among the letters of these two words, so lowering ASCII decides it.
\<close>

definition WritableEntityType :: "MetricSpec \<Rightarrow> string" where
  "WritableEntityType ms =
     (if m_ExcludeSet ms then ''''
      else if length (m_Enum ms) = 2 then
        (let hasOn = list_ex (\<lambda>(_, label). ascii_lower label = ''on'') (m_Enum ms);
             hasOff = list_ex (\<lambda>(_, label). ascii_lower label = ''off'') (m_Enum ms)
         in if hasOn \<and> hasOff then ''switch'' else ''select'')
      else if 2 < length (m_Enum ms) then ''select''
      else if m_Enum ms = [] then ''number''
      else '''')"

section \<open>Lemmas\<close>

lemma FindMetricSpecByEPC_Some:
  "FindMetricSpecByEPC ms epc = Some m \<Longrightarrow> m \<in> set ms \<and> m_EPC m = epc \<and> epc \<noteq> 0"
  by (auto simp: FindMetricSpecByEPC_def find_Some_iff split: if_splits)

lemma FindMetricSpecByEPC_None_iff:
  "FindMetricSpecByEPC ms epc = None \<longleftrightarrow> epc = 0 \<or> (\<forall>m \<in> set ms. m_EPC m \<noteq> epc)"
  by (auto simp: FindMetricSpecByEPC_def find_None_iff)

lemma FindMetricSpecByName_Some:
  "FindMetricSpecByName ms n = Some m \<Longrightarrow> m \<in> set ms \<and> m_Name m = n \<and> n \<noteq> []"
  by (auto simp: FindMetricSpecByName_def find_Some_iff split: if_splits)

lemma WritableEntityType_cases:
  "WritableEntityType ms \<in> {'''', ''switch'', ''select'', ''number''}"
  by (simp add: WritableEntityType_def Let_def)

end
