(* ===== verification/Encoder.thy ===== *)
theory Encoder
  imports Specs
begin

text \<open>
  \<open>internal/echonet/encoder.go\<close>: reading a metric's value from the data of a property and
  encoding a value for a SET request. Integers are 64-bit words as in the code, values are
  \<open>float64\<close>. \<open>math.Log10\<close> (whose last bit differs between platforms) and the result of a
  float-to-integer conversion out of range (left to the implementation by the language) are the
  parameters \<open>log10f\<close> and \<open>oor\<close>; every lemma holds for all of them unless it says what it
  needs. The lemmas show the integer decoder correct, the encoder's clamping and layout, and
  that encoding a decoded value gives back the bytes.
\<close>

unbundle bit_operations_syntax

datatype edt_error =
    EmptyEDT
  | EDTTooShort
  | EmptyInteger
  | IntegerTooWide nat
  | InvalidSentinel int
  | ScaledOverflow
  | SlicePanic

abbreviation maxIntegerBytes :: nat where "maxIntegerBytes \<equiv> 8"

section \<open>Decoding\<close>

text \<open>The accumulator \<open>u = u<<8 | uint64(b)\<close>.\<close>

definition be_word :: "bytes \<Rightarrow> 64 word" where
  "be_word raw = fold (\<lambda>b u. push_bit 8 u OR ucast b) raw 0"

text \<open>
  \<open>int64(u)\<close> reads the word as two's complement; the sign extension subtracts
  \<open>1 << (8 * len)\<close> in 64 bits, which is 0 for 8 bytes.
\<close>

definition parseInteger :: "bytes \<Rightarrow> bool \<Rightarrow> edt_error + int" where
  "parseInteger raw sgnd =
     (if raw = [] then Inl EmptyInteger
      else if maxIntegerBytes < length raw then Inl (IntegerTooWide (length raw))
      else let u = be_word raw
        in if \<not> sgnd \<or> hd raw AND 0x80 = 0 then Inr (sint u)
           else Inr (sint (u - push_bit (8 * length raw) 1)))"

text \<open>\<open>edt[lo:hi]\<close> for bounds within the slice; anything else panics.\<close>

definition go_slice :: "bytes \<Rightarrow> int \<Rightarrow> int \<Rightarrow> bytes option" where
  "go_slice xs lo hi =
     (if 0 \<le> lo \<and> lo \<le> hi \<and> hi \<le> int (length xs)
      then Some (take (nat hi - nat lo) (drop (nat lo) xs)) else None)"

text \<open>The number of decimal digits kept for a scale below one: \<open>int(math.Ceil(-math.Log10(scale)))\<close>.\<close>

definition scale_digits :: "(float64 \<Rightarrow> int) \<Rightarrow> (float64 \<Rightarrow> float64) \<Rightarrow> float64 \<Rightarrow> int" where
  "scale_digits oor log10f scale = f_to_int64 oor (f_ceil (f_neg (log10f scale)))"

definition scale_value :: "(float64 \<Rightarrow> int) \<Rightarrow> (float64 \<Rightarrow> float64) \<Rightarrow> float64 \<Rightarrow> int \<Rightarrow> float64" where
  "scale_value oor log10f scale rawValue =
     (let v = f_mul (f_of_int rawValue) scale
      in if f_less (Zero False) scale \<and> f_less scale (Fin 1)
         then let factor = pow10 (scale_digits oor log10f scale)
              in f_div (f_round (f_mul v factor)) factor
         else v)"

definition parseEDTWithReason ::
  "(float64 \<Rightarrow> int) \<Rightarrow> (float64 \<Rightarrow> float64) \<Rightarrow> bytes \<Rightarrow> MetricSpec \<Rightarrow> edt_error + float64" where
  "parseEDTWithReason oor log10f edt m =
     (let size = (if m_Size m = 0 then wrap64 (int (length edt) - m_Offset m) else m_Size m);
          stop = wrap64 (m_Offset m + size)
      in if size \<le> 0 then Inl EmptyEDT
         else if int (length edt) < stop then Inl EDTTooShort
         else case go_slice edt (m_Offset m) stop of
           None \<Rightarrow> Inl SlicePanic
         | Some raw \<Rightarrow>
            (case parseInteger raw (m_Signed m) of
               Inl e \<Rightarrow> Inl e
             | Inr rawValue \<Rightarrow>
                 if m_Invalid m = Some rawValue then Inl (InvalidSentinel rawValue)
                 else let v = scale_value oor log10f (m_Scale m) rawValue
                   in if is_inf v \<or> v = NaN then Inl ScaledOverflow else Inr v))"

section \<open>Encoding\<close>

datatype encode_error = SizeZero | UnsupportedSize int

definition encode_raw :: "(float64 \<Rightarrow> int) \<Rightarrow> float64 \<Rightarrow> MetricSpec \<Rightarrow> int" where
  "encode_raw oor value m =
     (if m_Enum m \<noteq> [] then f_to_int64 oor (f_round value)
      else let scale = (if f_eq (m_Scale m) (Zero False) then Fin 1 else m_Scale m);
               scaled = f_div value scale
           in f_to_int64 oor (f_round scaled))"

definition clamp_raw :: "int \<Rightarrow> bool \<Rightarrow> int \<Rightarrow> int" where
  "clamp_raw bits sgnd raw =
     (if sgnd then
        (let maxPos = 2 ^ nat (bits - 1) - 1; minNeg = - (2 ^ nat (bits - 1));
             raw1 = (if raw > maxPos then maxPos else raw)
         in if raw1 < minNeg then minNeg else raw1)
      else
        (let raw1 = (if raw < 0 then 0 else raw); maxVal = 2 ^ nat bits - 1
         in if raw1 > maxVal then maxVal else raw1))"

text \<open>The output loop: byte \<open>i\<close> from the last to the first takes the low byte, then shifts.\<close>

fun emit_be :: "nat \<Rightarrow> 64 word \<Rightarrow> bytes" where
  "emit_be 0 u = []"
| "emit_be (Suc n) u = emit_be n (drop_bit 8 u) @ [ucast u]"

definition EncodeValueToEDT :: "(float64 \<Rightarrow> int) \<Rightarrow> float64 \<Rightarrow> MetricSpec \<Rightarrow> encode_error + bytes" where
  "EncodeValueToEDT oor value m =
     (let size = m_Size m
      in if size = 0 then Inl SizeZero
         else if size \<noteq> 1 \<and> size \<noteq> 2 \<and> size \<noteq> 4 then Inl (UnsupportedSize size)
         else let bits = size * 8;
                  raw = clamp_raw bits (m_Signed m) (encode_raw oor value m);
                  u = word_of_int raw AND (push_bit (nat bits) 1 - 1)
              in Inr (emit_be (nat size) u))"

section \<open>Lemmas: integers\<close>

text \<open>The unsigned value of a big-endian byte list.\<close>

fun be_value :: "bytes \<Rightarrow> int" where
  "be_value [] = 0"
| "be_value (b # bs) = uint b * 256 ^ length bs + be_value bs"

lemma uint_byte_less: "uint (b :: byte) < 256"
  using uint_bounded [of b] by simp

lemma be_value_nonneg: "0 \<le> be_value bs"
  by (induction bs) auto

lemma be_value_less: "be_value bs < 256 ^ length bs"
proof (induction bs)
  case Nil
  then show ?case by simp
next
  case (Cons b bs)
  have "uint b * 256 ^ length bs \<le> 255 * 256 ^ length bs"
    using uint_byte_less [of b] by (intro mult_right_mono) auto
  with Cons show ?case by (simp only: be_value.simps list.size power_Suc power_0 mult_1_right power_add)
qed

lemma be_value_snoc: "be_value (bs @ [b]) = be_value bs * 256 + uint b"
  by (induction bs) (auto simp: algebra_simps)

lemma be_value_hd:
  "be_value (b # bs) div 256 ^ length bs = uint b" "be_value (b # bs) mod 256 ^ length bs = be_value bs"
  using be_value_less [of bs] be_value_nonneg [of bs] by simp_all

lemma be_value_inj:
  "length xs = length ys \<Longrightarrow> be_value xs = be_value ys \<Longrightarrow> xs = ys"
proof (induction xs ys rule: list_induct2)
  case Nil
  then show ?case by simp
next
  case (Cons x xs y ys)
  then have "uint x = uint y" "be_value xs = be_value ys"
    by (metis be_value_hd(1), metis be_value_hd(2))
  with Cons show ?case by (auto intro: unsigned_word_eqI)
qed

lemma be_word_step:
  assumes "uint u < 2 ^ 56"
  shows "uint (push_bit 8 u OR ucast (b :: byte) :: 64 word) = uint u * 256 + uint b"
proof -
  have "push_bit 8 u OR ucast b = push_bit 8 u + (ucast b :: 64 word)"
    by (rule disjunctive_add [symmetric])
      (auto simp: bit_push_bit_iff bit_ucast_iff dest: bit_imp_le_length)
  also have "uint \<dots> = (uint u * 256 + uint b) mod 2 ^ 64"
    by (simp add: push_bit_eq_mult uint_word_ariths mod_add_left_eq uint_up_ucast is_up)
  also have "\<dots> = uint u * 256 + uint b"
  proof (rule mod_pos_pos_trivial)
    show "0 \<le> uint u * 256 + uint b" by simp
    show "uint u * 256 + uint b < 2 ^ 64" using assms uint_byte_less [of b] by simp
  qed
  finally show ?thesis .
qed

lemma be_word_from:
  "uint u < 256 ^ k \<Longrightarrow> k + length raw \<le> 8 \<Longrightarrow>
    uint (fold (\<lambda>b u. push_bit 8 u OR ucast b) raw (u :: 64 word))
      = uint u * 256 ^ length raw + be_value raw"
proof (induction raw arbitrary: u k)
  case Nil
  then show ?case by simp
next
  case (Cons b raw)
  have "(256 :: int) ^ k \<le> 256 ^ 7" using Cons.prems(2) by (intro power_increasing) auto
  with Cons.prems(1) have "uint u < 2 ^ 56" by simp
  note step = be_word_step [OF this, of b]
  have "uint u * 256 + uint b < 256 ^ Suc k"
    using Cons.prems(1) uint_byte_less [of b] by simp
  with step Cons.prems(2) Cons.IH [of "push_bit 8 u OR ucast b" "Suc k"]
  show ?case by (simp add: algebra_simps)
qed

lemma uint_be_word: "length raw \<le> 8 \<Longrightarrow> uint (be_word raw) = be_value raw"
  using be_word_from [of 0 0 raw] by (simp add: be_word_def)

lemma sint_word_of_int64: "sint (word_of_int k :: 64 word) = wrap64 k"
  by (simp add: wrap64_def sint_sbintrunc' signed_take_bit_eq_take_bit_shift take_bit_eq_mod)

lemma top_bit_byte: "(b AND 0x80 = 0) \<longleftrightarrow> uint (b :: byte) < 128"
proof -
  have "bit b 7 \<longleftrightarrow> b AND push_bit 7 1 \<noteq> 0" by (rule bit_iff_and_push_bit_not_eq_0)
  then have "(b AND 0x80 = 0) \<longleftrightarrow> \<not> bit (uint b) 7" by (simp add: bit_uint_iff)
  also have "\<dots> \<longleftrightarrow> even (uint b div 128)" by (simp add: bit_iff_odd)
  also have "\<dots> \<longleftrightarrow> uint b < 128"
  proof (cases "uint b < 128")
    case False
    then have "uint b div 128 = 1" using uint_byte_less [of b] by (intro int_div_pos_eq [of _ _ _ "uint b - 128"]) auto
    with False show ?thesis by simp
  qed simp
  finally show ?thesis .
qed

lemma hd_top_bit:
  assumes "raw \<noteq> []"
  shows "(hd raw AND 0x80 = 0) \<longleftrightarrow> be_value raw < 2 ^ (8 * length raw - 1)"
proof -
  obtain b bs where raw: "raw = b # bs" using assms by (cases raw) auto
  have p: "(2 :: int) ^ (8 * length raw - 1) = 128 * 256 ^ length bs"
  proof -
    have "8 * length raw - 1 = 7 + 8 * length bs" by (simp add: raw)
    then show ?thesis by (simp only: power_add power_mult) simp
  qed
  show ?thesis
  proof (cases "uint b < 128")
    case True
    then have "uint b * 256 ^ length bs \<le> 127 * 256 ^ length bs" by (intro mult_right_mono) auto
    with be_value_less [of bs] have "be_value raw < 2 ^ (8 * length raw - 1)"
      unfolding p by (simp only: raw be_value.simps)
    with True show ?thesis by (simp add: raw top_bit_byte)
  next
    case False
    then have "128 * 256 ^ length bs \<le> uint b * 256 ^ length bs" by (intro mult_right_mono) auto
    with be_value_nonneg [of bs] have "2 ^ (8 * length raw - 1) \<le> be_value raw"
      unfolding p by (simp only: raw be_value.simps)
    with False show ?thesis by (simp add: raw top_bit_byte)
  qed
qed

lemma be_value_bound: "length raw = n \<Longrightarrow> be_value raw < 2 ^ (8 * n)"
  using be_value_less [of raw] by (simp add: power_mult)

lemma be_word_int: "length raw \<le> 8 \<Longrightarrow> be_word raw = word_of_int (be_value raw)"
  by (simp add: uint_be_word [symmetric])

text \<open>
  What \<open>parseInteger\<close> computes: the unsigned value, reduced by \<open>2 ^ (8 n)\<close> when the metric is
  signed and the top bit is set, wrapped to 64 bits (which only matters for eight unsigned bytes).
\<close>

lemma parseInteger_value:
  assumes "raw \<noteq> []" "length raw \<le> 8"
  shows "parseInteger raw sgnd =
    Inr (if sgnd \<and> 2 ^ (8 * length raw - 1) \<le> be_value raw
         then be_value raw - 2 ^ (8 * length raw) else wrap64 (be_value raw))"
proof -
  have w: "sint (be_word raw) = wrap64 (be_value raw)"
    by (simp add: be_word_int assms(2) sint_word_of_int64)
  have "sint (be_word raw - push_bit (8 * length raw) 1) = be_value raw - 2 ^ (8 * length raw)"
    if "2 ^ (8 * length raw - 1) \<le> be_value raw"
  proof -
    have "be_word raw - push_bit (8 * length raw) 1 = word_of_int (be_value raw - 2 ^ (8 * length raw))"
      by (simp add: be_word_int assms(2) push_bit_eq_mult)
    then have "sint (be_word raw - push_bit (8 * length raw) 1) = wrap64 (be_value raw - 2 ^ (8 * length raw))"
      by (simp only: sint_word_of_int64)
    moreover have "int64_ok (be_value raw - 2 ^ (8 * length raw))"
    proof -
      have "8 * length raw = Suc (8 * length raw - 1)" using assms(1) by (cases raw) auto
      then have "(2 :: int) ^ (8 * length raw) = 2 * 2 ^ (8 * length raw - 1)" by (metis power_Suc)
      moreover have "(2 :: int) ^ (8 * length raw - 1) \<le> 2 ^ 63"
        using assms(2) by (intro power_increasing) auto
      ultimately show ?thesis
        using that be_value_bound [OF refl, of raw] unfolding int64_ok_def by linarith
    qed
    ultimately show ?thesis by simp
  qed
  with w assms hd_top_bit [OF assms(1)] show ?thesis
    by (auto simp: parseInteger_def Let_def)
qed

lemma parseInteger_narrow:
  assumes "raw \<noteq> []" "length raw < 8"
  shows "parseInteger raw sgnd =
    Inr (if sgnd \<and> 2 ^ (8 * length raw - 1) \<le> be_value raw
         then be_value raw - 2 ^ (8 * length raw) else be_value raw)"
proof -
  have "be_value raw < 256 ^ length raw" by (rule be_value_less)
  also have "(256 :: int) ^ length raw \<le> 256 ^ 7" using assms(2) by (intro power_increasing) auto
  finally have "int64_ok (be_value raw)"
    using be_value_nonneg [of raw] by (simp add: int64_ok_def)
  with parseInteger_value [of raw sgnd] assms show ?thesis by simp
qed

section \<open>Lemmas: the encoder\<close>

lemma length_emit_be [simp]: "length (emit_be n u) = n"
  by (induction n arbitrary: u) auto

lemma be_value_emit: "be_value (emit_be n u) = uint u mod 256 ^ n"
proof (induction n arbitrary: u)
  case 0
  then show ?case by simp
next
  case (Suc n)
  have "uint (drop_bit 8 u) = uint u div 256"
    by (simp add: drop_bit_eq_div uint_div_distrib)
  moreover have "uint (ucast u :: byte) = uint u mod 256"
    by (simp add: unsigned_ucast_eq take_bit_eq_mod)
  ultimately show ?case
    using zmod_zmult2_eq [of "256 ^ n" "uint u" 256] by (simp add: be_value_snoc Suc mult.commute)
qed

lemma clamp_raw_bounds:
  assumes "1 \<le> bits"
  shows "clamp_raw bits sgnd r \<in> (if sgnd then {- (2 ^ nat (bits - 1)) .. 2 ^ nat (bits - 1) - 1}
                                   else {0 .. 2 ^ nat bits - 1})"
proof -
  have "0 < (2 :: int) ^ nat (bits - 1)" "0 < (2 :: int) ^ nat bits" by simp_all
  then show ?thesis by (auto simp: clamp_raw_def Let_def)
qed

lemma clamp_raw_id:
  assumes "if sgnd then - (2 ^ nat (bits - 1)) \<le> r \<and> r < 2 ^ nat (bits - 1) else 0 \<le> r \<and> r < 2 ^ nat bits"
  shows "clamp_raw bits sgnd r = r"
  using assms by (auto simp: clamp_raw_def Let_def split: if_splits)

lemma uint_mask_word:
  assumes "n \<le> 63"
  shows "uint ((word_of_int r :: 64 word) AND (push_bit n 1 - 1)) = r mod 2 ^ n"
proof -
  have "(word_of_int r :: 64 word) AND (push_bit n 1 - 1) = take_bit n (word_of_int r)"
    by (simp add: take_bit_eq_mask mask_eq_exp_minus_1 push_bit_eq_mult)
  moreover have "uint (take_bit n (word_of_int r :: 64 word)) = take_bit n r"
    using assms by (simp only: unsigned_take_bit_eq uint_word_of_int_eq take_bit_take_bit)
      (simp add: min_def)
  ultimately show ?thesis by (simp only: take_bit_eq_mod)
qed

text \<open>The bytes of a successful encoding: the clamped raw value, modulo the width, big-endian.\<close>

lemma EncodeValueToEDT_Inr:
  assumes "EncodeValueToEDT oor value m = Inr out"
  shows "m_Size m \<in> {1, 2, 4}" "length out = nat (m_Size m)"
    "be_value out = clamp_raw (m_Size m * 8) (m_Signed m) (encode_raw oor value m) mod 2 ^ (8 * length out)"
proof -
  show size: "m_Size m \<in> {1, 2, 4}"
    using assms by (auto simp: EncodeValueToEDT_def Let_def split: if_splits)
  then have n: "nat (m_Size m * 8) \<le> 63" "nat (m_Size m * 8) = 8 * nat (m_Size m)" by auto
  let ?c = "clamp_raw (m_Size m * 8) (m_Signed m) (encode_raw oor value m)"
  let ?u = "word_of_int ?c AND (push_bit (nat (m_Size m * 8)) 1 - 1) :: 64 word"
  have out: "out = emit_be (nat (m_Size m)) ?u"
    using assms size by (auto simp: EncodeValueToEDT_def Let_def)
  then show len: "length out = nat (m_Size m)" by simp
  have "(256 :: int) ^ nat (m_Size m) = 2 ^ (8 * nat (m_Size m))" by (simp add: power_mult)
  moreover have "be_value out = uint ?u mod 256 ^ nat (m_Size m)" unfolding out by (rule be_value_emit)
  moreover have "uint ?u = ?c mod 2 ^ nat (m_Size m * 8)" by (rule uint_mask_word [OF n(1)])
  ultimately show "be_value out = ?c mod 2 ^ (8 * length out)"
    unfolding len by (simp only: n(2) mod_mod_trivial)
qed

lemma EncodeValueToEDT_total:
  "m_Size m \<in> {1, 2, 4} \<Longrightarrow> \<exists>out. EncodeValueToEDT oor value m = Inr out"
  by (auto simp: EncodeValueToEDT_def Let_def)

text \<open>Reading an encoding back gives the clamped raw value, signed or not.\<close>

lemma parse_encoded:
  assumes "EncodeValueToEDT oor value m = Inr out"
  shows "parseInteger out (m_Signed m)
    = Inr (clamp_raw (m_Size m * 8) (m_Signed m) (encode_raw oor value m))"
proof -
  note enc = EncodeValueToEDT_Inr [OF assms]
  define c where "c = clamp_raw (m_Size m * 8) (m_Signed m) (encode_raw oor value m)"
  define n where "n = nat (m_Size m)"
  have n: "1 \<le> n" "n \<le> 4" and b: "nat (m_Size m * 8) = 8 * n" "nat (m_Size m * 8 - 1) = 8 * n - 1"
    using enc(1) by (auto simp: n_def)
  have out: "out \<noteq> []" "length out < 8" "length out = n" using enc(2) n by (auto simp: n_def)
  have cb: "c \<in> (if m_Signed m then {- (2 ^ (8 * n - 1)) .. 2 ^ (8 * n - 1) - 1} else {0 .. 2 ^ (8 * n) - 1})"
    using clamp_raw_bounds [of "m_Size m * 8" "m_Signed m" "encode_raw oor value m"] enc(1)
    unfolding c_def b by auto
  have dbl: "(2 :: int) ^ (8 * n) = 2 * 2 ^ (8 * n - 1)"
  proof -
    have "8 * n = Suc (8 * n - 1)" using n by simp
    then show ?thesis by (metis power_Suc)
  qed
  have val: "be_value out = c mod 2 ^ (8 * n)" using enc(3) unfolding c_def out(3) .
  have P: "0 < (2 :: int) ^ (8 * n - 1)" by simp
  show ?thesis
  proof (cases "m_Signed m \<and> c < 0")
    case True
    then have "c mod 2 ^ (8 * n) = (c + 2 ^ (8 * n)) mod 2 ^ (8 * n)" by simp
    also have "\<dots> = c + 2 ^ (8 * n)" using True cb dbl P by (intro mod_pos_pos_trivial) auto
    finally show ?thesis
      using parseInteger_narrow [OF out(1,2)] True cb dbl val unfolding c_def [symmetric] out(3) by auto
  next
    case False
    then have "c mod 2 ^ (8 * n) = c" using cb dbl P by (intro mod_pos_pos_trivial) (auto split: if_splits)
    then show ?thesis
      using parseInteger_narrow [OF out(1,2)] False cb dbl val unfolding c_def [symmetric] out(3)
      by (auto split: if_splits)
  qed
qed

section \<open>Lemmas: encoding a decoded value\<close>

text \<open>
  The scales a specification may have: at least one (an enum has one), or a negative power of
  ten for which \<open>Log10\<close> and \<open>Ceil\<close> find the number of digits.
\<close>

definition scale_exact :: "(float64 \<Rightarrow> int) \<Rightarrow> (float64 \<Rightarrow> float64) \<Rightarrow> float64 \<Rightarrow> bool" where
  "scale_exact oor log10f sc \<longleftrightarrow>
     (\<exists>s. sc = Fin s \<and> 1 \<le> s \<and> s \<le> 2 ^ 900)
     \<or> (\<exists>k \<in> {1, 2, 3}. sc = round64 (1 / 10 ^ k) \<and> scale_digits oor log10f sc = int k)"

lemma normal_int: "n \<noteq> 0 \<Longrightarrow> 2 powi (- 1021) \<le> \<bar>rat_of_int n\<bar>"
proof -
  assume "n \<noteq> 0"
  then have "1 \<le> \<bar>rat_of_int n\<bar>" by (metis of_int_1_le_iff of_int_abs zero_less_abs_iff int_one_le_iff_zero_less)
  then show ?thesis by (intro normal_bound) simp
qed

lemma small_int: "\<bar>n\<bar> \<le> 2 ^ 32 \<Longrightarrow> \<bar>rat_of_int n\<bar> \<le> 2 ^ 32"
  by (metis of_int_abs of_int_le_iff of_int_numeral of_int_power)

lemma f_of_int_small: "n \<noteq> 0 \<Longrightarrow> \<bar>n\<bar> \<le> 2 ^ 32 \<Longrightarrow> f_of_int n = Fin (of_int n)"
  by (simp add: f_of_int_exact int_float_def)

lemma near_round64_self:
  assumes "2 powi (- 1021) \<le> \<bar>x\<bar>" "\<bar>x\<bar> \<le> 2 ^ 1022"
  obtains z where "round64 x = Fin z" "near 2 x z"
proof -
  have "(0 :: nat) \<le> 2 ^ 52" by simp
  then obtain z where "round64 x = Fin z" "near (0 + 2) x z"
    by (rule near_round64_ex [OF near_refl _ assms])
  with that show thesis by (simp add: numeral_2_eq_2)
qed

lemma scale_roundtrip_ge1:
  assumes n: "n \<noteq> 0" "\<bar>n\<bar> \<le> 2 ^ 32" and s: "1 \<le> s" "s \<le> 2 ^ 900"
  obtains y where "f_mul (f_of_int n) (Fin s) = Fin y"
    "f_round (f_div (Fin y) (Fin s)) = Fin (of_int n)"
proof -
  let ?x = "of_int n * s"
  have "1 \<le> \<bar>rat_of_int n\<bar>" using n(1) by (metis of_int_1_le_iff of_int_abs zero_less_abs_iff int_one_le_iff_zero_less)
  then have "1 * 1 \<le> \<bar>rat_of_int n\<bar> * \<bar>s\<bar>" using s(1) by (intro mult_mono) auto
  then have lo: "2 powi (- 1021) \<le> \<bar>?x\<bar>" by (intro normal_bound) (simp add: abs_mult)
  have "\<bar>rat_of_int n\<bar> * \<bar>s\<bar> \<le> 2 ^ 32 * 2 ^ 900" using s small_int [OF n(2)] by (intro mult_mono) auto
  also have "\<dots> \<le> (2 :: rat) ^ 1022" by simp
  finally have hi: "\<bar>?x\<bar> \<le> 2 ^ 1022" by (simp add: abs_mult)
  obtain y where y: "round64 ?x = Fin y" "near 2 ?x y" by (rule near_round64_self [OF lo hi])
  have "near 2 (?x * (1 / s)) (y * (1 / s))" using y(2) by (intro near_mult) simp
  then have q: "near 2 (of_int n) (y / s)" using s by simp
  have hi2: "\<bar>rat_of_int n\<bar> \<le> 2 ^ 1022" using small_int [OF n(2)] by (rule order_trans) simp
  obtain z where z: "round64 (y / s) = Fin z" "near (2 + 2) (of_int n) z"
    using near_round64_ex [OF q _ normal_int [OF n(1)] hi2] by auto
  have "f_round (Fin z) = Fin (of_int n)" using z(2) n by (intro near_round_int) auto
  with that y(1) z(1) n show thesis by (simp add: f_of_int_small f_mul_def f_div_def)
qed

lemma pow10_123: "k \<in> {1, 2, 3} \<Longrightarrow> pow10 (int k) = Fin (10 ^ k)"
  using pow10_1 pow10_2 pow10_3 by auto

lemma dec_scale:
  assumes "k \<in> {1, 2, 3 :: nat}"
  obtains s where "round64 (1 / 10 ^ k) = Fin s" "near 2 (1 / 10 ^ k) s" "0 < s" "s < 1"
proof -
  have c: "1 / 10 ^ 9 \<le> (1 :: rat) / 10 ^ k" "(1 :: rat) / 10 ^ k \<le> 1 / 10"
    using assms by auto
  have "(1 :: rat) / 10 ^ k \<le> 2 ^ 1022" by (rule order_trans [OF c(2)]) simp
  then have hi: "\<bar>(1 :: rat) / 10 ^ k\<bar> \<le> 2 ^ 1022" by simp
  have "2 powi (- 1021) \<le> \<bar>(1 :: rat) / 10 ^ k\<bar>" by (intro normal_bound) (use c(1) in simp)
  then obtain s where s: "round64 (1 / 10 ^ k) = Fin s" "near 2 (1 / 10 ^ k) s"
    using hi by (rule near_round64_self)
  define c :: rat where "c = 1 / 10 ^ k"
  have c01: "0 < c" "c \<le> 1 / 10" using c(2) by (simp_all add: c_def)
  have "\<bar>s - c\<bar> \<le> c * (2 / 2 ^ 53)" using s(2) c01(1) by (simp add: near_def c_def)
  also have "\<dots> \<le> c * (1 / 2)" using c01(1) by (intro mult_left_mono) auto
  finally have "s - c \<le> c / 2" "c - s \<le> c / 2" unfolding abs_le_iff by simp_all
  with c01 have "0 < s" "s < 1" by linarith+
  with s that show thesis by simp
qed

lemma scale_roundtrip_dec:
  assumes n: "n \<noteq> 0" "\<bar>n\<bar> \<le> 2 ^ 32" and k: "k \<in> {1, 2, 3 :: nat}"
    and s: "near 2 (1 / 10 ^ k) s"
  obtains v0 v where "f_mul (f_of_int n) (Fin s) = Fin v0"
    "f_round (f_mul (Fin v0) (Fin (10 ^ k))) = Fin (of_int n)"
    "f_div (Fin (of_int n)) (Fin (10 ^ k)) = Fin v"
    "f_round (f_div (Fin v) (Fin s)) = Fin (of_int n)"
proof -
  let ?c = "1 / 10 ^ k :: rat" and ?n = "rat_of_int n"
  have kb: "(10 :: rat) ^ k \<le> 1000" "0 < (10 :: rat) ^ k" using k by auto
  have n1: "1 \<le> \<bar>?n\<bar>" using n(1) by (metis of_int_1_le_iff of_int_abs zero_less_abs_iff int_one_le_iff_zero_less)
  have "1 / 10 ^ 9 \<le> 1 / (10 :: rat) ^ k" using k by auto
  also have "\<dots> \<le> \<bar>?n\<bar> / 10 ^ k" using n1 by (intro divide_right_mono) auto
  finally have lo: "2 powi (- 1021) \<le> \<bar>?n / 10 ^ k\<bar>" by (intro normal_bound) simp
  have "\<bar>?n\<bar> / 10 ^ k \<le> \<bar>?n\<bar>" using k by auto
  also have "\<dots> \<le> 2 ^ 1022" using small_int [OF n(2)] by (rule order_trans) simp
  finally have hi: "\<bar>?n / 10 ^ k\<bar> \<le> 2 ^ 1022" by simp
  have nhi: "\<bar>?n\<bar> \<le> 2 ^ 1022" using small_int [OF n(2)] by (rule order_trans) simp
  note nlo = normal_int [OF n(1)]
  have "near 2 (?c * ?n) (s * ?n)" using s by (rule near_mult)
  then have a: "near 2 (?n / 10 ^ k) (?n * s)" by (simp add: mult.commute)
  obtain v0 where v0: "round64 (?n * s) = Fin v0" "near (2 + 2) (?n / 10 ^ k) v0"
    using near_round64_ex [OF a _ lo hi] by auto
  have "near 4 (?n / 10 ^ k * 10 ^ k) (v0 * 10 ^ k)" using v0(2) by (intro near_mult) simp
  then have b: "near 4 ?n (v0 * 10 ^ k)" by simp
  obtain w where w: "round64 (v0 * 10 ^ k) = Fin w" "near (4 + 2) ?n w"
    using near_round64_ex [OF b _ nlo nhi] by auto
  have r1: "f_round (Fin w) = Fin ?n" using w(2) n by (intro near_round_int) auto
  obtain v where v: "round64 (?n / 10 ^ k) = Fin v" "near 2 (?n / 10 ^ k) v"
    by (rule near_round64_self [OF lo hi])
  have "near (2 + 4 * 2) (?n / 10 ^ k / ?c) (v / s)"
    using v(2) s by (intro near_divide) auto
  then have d: "near 10 ?n (v / s)" by simp
  obtain z where z: "round64 (v / s) = Fin z" "near (10 + 2) ?n z"
    using near_round64_ex [OF d _ nlo nhi] by auto
  have "f_round (Fin z) = Fin ?n" using z(2) n by (intro near_round_int) auto
  with that v0(1) w(1) r1 v(1) z(1) n show thesis
    by (simp add: f_of_int_small f_mul_def f_div_def)
qed

lemma int64_of_int_float [simp]: "\<bar>n\<bar> \<le> 2 ^ 32 \<Longrightarrow> f_to_int64 oor (Fin (of_int n)) = n"
  by (auto simp: f_to_int64_def trunc_rat_def int64_ok_def Let_def abs_le_iff)

text \<open>The value computed from a raw integer is finite, and dividing it by the scale and rounding
  finds the integer again.\<close>

lemma scale_value_inverse:
  assumes n: "\<bar>n\<bar> \<le> 2 ^ 32" and sc: "scale_exact oor log10f sc"
  shows "f_to_int64 oor (f_round (f_div (scale_value oor log10f sc n) sc)) = n"
    and "sc = Fin 1 \<Longrightarrow> f_to_int64 oor (f_round (scale_value oor log10f sc n)) = n"
    and "\<not> f_eq sc (Zero False)"
proof -
  have "f_to_int64 oor (f_round (f_div (scale_value oor log10f sc n) sc)) = n
      \<and> (sc = Fin 1 \<longrightarrow> f_to_int64 oor (f_round (scale_value oor log10f sc n)) = n)
      \<and> \<not> f_eq sc (Zero False)"
    using sc unfolding scale_exact_def
  proof (elim disjE exE bexE conjE)
    fix s
    assume s: "sc = Fin s" "1 \<le> s" "s \<le> 2 ^ 900"
    have big: "scale_value oor log10f sc n = f_mul (f_of_int n) (Fin s)"
      using s by (simp add: scale_value_def f_less_def Let_def)
    have ne: "\<not> f_eq sc (Zero False)" using s by (simp add: f_eq_def)
    show ?thesis
    proof (cases "n = 0")
      case True
      with ne show ?thesis
        unfolding big by (simp add: s(1) f_of_int_def f_mul_def f_div_def f_round_def f_to_int64_def)
    next
      case False
      obtain y where y: "f_mul (f_of_int n) (Fin s) = Fin y"
        "f_round (f_div (Fin y) (Fin s)) = Fin (of_int n)"
        by (rule scale_roundtrip_ge1 [OF False n s(2,3)])
      have "f_mul (f_of_int n) (Fin 1) = Fin (of_int n)"
        using False n by (simp add: f_of_int_small f_mul_def round64_of_int)
      moreover have "f_round (Fin (of_int n)) = Fin (of_int n)" using False by (simp add: f_round_near)
      ultimately show ?thesis using y ne n unfolding big by (auto simp: s(1))
    qed
  next
    fix k
    assume k: "k \<in> {1, 2, 3}" "sc = round64 (1 / 10 ^ k)" "scale_digits oor log10f sc = int k"
    obtain s where s: "round64 (1 / 10 ^ k) = Fin s" "near 2 (1 / 10 ^ k) s" "0 < s" "s < 1"
      by (rule dec_scale [OF k(1)])
    have sc: "sc = Fin s" by (simp add: k(2) s(1))
    have ne: "\<not> f_eq sc (Zero False)" "sc \<noteq> Fin 1" using s by (auto simp: f_eq_def sc)
    have val: "scale_value oor log10f sc n
        = f_div (f_round (f_mul (f_mul (f_of_int n) (Fin s)) (Fin (10 ^ k)))) (Fin (10 ^ k))"
      using s(3,4) k(1,3) by (simp add: scale_value_def f_less_def Let_def sc pow10_123 del: insert_iff)
    show ?thesis
    proof (cases "n = 0")
      case True
      with ne show ?thesis
        unfolding val by (simp add: sc f_of_int_def f_mul_def f_div_def f_round_def f_to_int64_def)
    next
      case False
      obtain v0 v where v: "f_mul (f_of_int n) (Fin s) = Fin v0"
        "f_round (f_mul (Fin v0) (Fin (10 ^ k))) = Fin (of_int n)"
        "f_div (Fin (of_int n)) (Fin (10 ^ k)) = Fin v"
        "f_round (f_div (Fin v) (Fin s)) = Fin (of_int n)"
        by (rule scale_roundtrip_dec [OF False n k(1) s(2)])
      show ?thesis unfolding val v(1) v(2) v(3) using ne n v(4) by (simp add: sc)
    qed
  qed
  then show "f_to_int64 oor (f_round (f_div (scale_value oor log10f sc n) sc)) = n"
    and "sc = Fin 1 \<Longrightarrow> f_to_int64 oor (f_round (scale_value oor log10f sc n)) = n"
    and "\<not> f_eq sc (Zero False)" by auto
qed

lemma parseEDT_fixed:
  assumes size: "m_Size m \<in> {1, 2, 4}" "m_Offset m = 0" "int (length edt) = m_Size m"
    and parse: "parseEDTWithReason oor log10f edt m = Inr v"
  obtains raw where "parseInteger edt (m_Signed m) = Inr raw" "v = scale_value oor log10f (m_Scale m) raw"
proof -
  have w: "wrap64 (m_Size m) = m_Size m" using size(1) by (auto simp: int64_ok_def)
  have sl: "go_slice edt 0 (m_Size m) = Some edt" using size(1,3) by (auto simp: go_slice_def)
  have nz: "m_Size m \<noteq> 0" "\<not> m_Size m \<le> 0" "\<not> int (length edt) < m_Size m" using size by auto
  have "(case parseInteger edt (m_Signed m) of Inl e \<Rightarrow> Inl e
      | Inr rawValue \<Rightarrow> if m_Invalid m = Some rawValue then Inl (InvalidSentinel rawValue)
          else let v = scale_value oor log10f (m_Scale m) rawValue
               in if is_inf v \<or> v = NaN then Inl ScaledOverflow else Inr v) = Inr v"
    using parse nz unfolding parseEDTWithReason_def Let_def size(2) add_0 by (simp add: w sl)
  then show thesis using that by (auto simp: Let_def split: sum.splits if_splits)
qed

lemma parseInteger_range:
  assumes "raw \<noteq> []" "length raw \<le> 4" "parseInteger raw sgnd = Inr r"
  shows "if sgnd then - (2 ^ (8 * length raw - 1)) \<le> r \<and> r < 2 ^ (8 * length raw - 1)
         else 0 \<le> r \<and> r < 2 ^ (8 * length raw)"
    and "r mod 2 ^ (8 * length raw) = be_value raw" "\<bar>r\<bar> \<le> 2 ^ 32"
proof -
  let ?P = "2 ^ (8 * length raw - 1) :: int" and ?b = "be_value raw"
  have dbl: "(2 :: int) ^ (8 * length raw) = 2 * ?P"
  proof -
    have "8 * length raw = Suc (8 * length raw - 1)" using assms(1) by (cases raw) auto
    then show ?thesis by (metis power_Suc)
  qed
  have r: "r = (if sgnd \<and> ?P \<le> ?b then ?b - 2 * ?P else ?b)"
    using parseInteger_narrow [OF assms(1), of sgnd] assms(2,3) unfolding dbl by simp
  have b: "0 \<le> ?b" "?b < 2 * ?P"
    using be_value_nonneg [of raw] be_value_bound [OF refl, of raw] unfolding dbl by auto
  have P: "0 < ?P" by simp
  show rng: "if sgnd then - ?P \<le> r \<and> r < ?P else 0 \<le> r \<and> r < 2 ^ (8 * length raw)"
    unfolding r dbl using b by auto
  show "r mod 2 ^ (8 * length raw) = ?b"
  proof (cases "sgnd \<and> ?P \<le> ?b")
    case True
    then have "r mod (2 * ?P) = (?b - 2 * ?P + 2 * ?P) mod (2 * ?P)" unfolding r by (simp only: mod_add_self2) simp
    with b show ?thesis unfolding dbl by simp
  next
    case False
    with b show ?thesis unfolding dbl r by auto
  qed
  have "(2 :: int) ^ (8 * length raw) \<le> 2 ^ 32" using assms(2) by (intro power_increasing) auto
  then show "\<bar>r\<bar> \<le> 2 ^ 32" unfolding r dbl using b by auto
qed

lemma encode_of_decoded:
  assumes "m_Size m \<in> {1, 2, 4}" "m_Offset m = 0" "int (length edt) = m_Size m"
    and "scale_exact oor log10f (m_Scale m)" "m_Enum m = [] \<or> m_Scale m = Fin 1"
    and "parseEDTWithReason oor log10f edt m = Inr v"
  shows "EncodeValueToEDT oor v m = Inr edt"
proof -
  obtain raw where raw: "parseInteger edt (m_Signed m) = Inr raw"
    and v: "v = scale_value oor log10f (m_Scale m) raw"
    by (rule parseEDT_fixed [OF assms(1-3,6)])
  have edt: "edt \<noteq> []" "length edt \<le> 4" using assms(1,3) by auto
  note r = parseInteger_range [OF edt raw]
  note inv = scale_value_inverse [OF r(3) assms(4)]
  have enc: "encode_raw oor v m = raw"
    unfolding encode_raw_def v using inv assms(5) by (auto simp: Let_def)
  have n: "nat (m_Size m * 8) = 8 * length edt" "nat (m_Size m * 8 - 1) = 8 * length edt - 1"
    using assms(1,3) by auto
  have clamp: "clamp_raw (m_Size m * 8) (m_Signed m) raw = raw"
    by (rule clamp_raw_id) (use r(1) in \<open>simp only: n\<close>)
  obtain out where out: "EncodeValueToEDT oor v m = Inr out"
    using EncodeValueToEDT_total [OF assms(1)] by blast
  note o = EncodeValueToEDT_Inr [OF out]
  have len: "length out = length edt" using o(2) assms(3) by linarith
  then have "be_value out = be_value edt"
    using o(3) r(2) unfolding enc clamp by simp
  with len have "out = edt" by (rule be_value_inj)
  with out show ?thesis by simp
qed

lemma round_away_error:
  "0 \<le> x \<Longrightarrow> of_int (round_away x) - 1 / 2 \<le> x \<and> x < of_int (round_away x) + 1 / 2"
  "x < 0 \<Longrightarrow> of_int (round_away x) - 1 / 2 < x \<and> x \<le> of_int (round_away x) + 1 / 2"
  unfolding round_away_def by (simp_all, linarith+)

text \<open>The number the encoder rounds and clamps, for a finite quotient within the 64-bit range.\<close>

lemma to_int64_round:
  assumes "q \<noteq> NaN" "\<not> is_inf q" "\<bar>fval q\<bar> \<le> 2 ^ 63 - 1"
  shows "f_to_int64 oor (f_round q) = round_away (fval q)"
proof (cases q)
  case (Fin x)
  have "\<bar>of_int (round_away x)\<bar> < (2 :: rat) ^ 63"
    using round_away_error [of x] assms(3) Fin by (cases "0 \<le> x") auto
  then have "int64_ok (round_away x)"
    by (simp add: int64_ok_def) linarith
  then show ?thesis
    by (simp add: Fin f_round_def int_float_def f_to_int64_def trunc_rat_def)
next
  case (Zero s)
  have "\<lfloor>1 / 2 :: rat\<rfloor> = 0" by (rule floor_unique) simp_all
  then show ?thesis by (simp add: Zero f_round_def f_to_int64_def round_away_def)
qed (use assms in simp_all)

text \<open>Rounding half away from zero and clamping give the nearest number of the range.\<close>

lemma clamp_nearest:
  fixes x :: rat and lo hi n k :: int
  assumes n: "n = (if round_away x < lo then lo else if hi < round_away x then hi else round_away x)"
    and k: "lo \<le> k" "k \<le> hi" and lo: "lo \<le> 0" "0 \<le> hi"
  shows "\<bar>x - of_int n\<bar> \<le> \<bar>x - of_int k\<bar> \<and> (\<bar>x - of_int n\<bar> = \<bar>x - of_int k\<bar> \<longrightarrow> \<bar>k\<bar> \<le> \<bar>n\<bar>)"
proof -
  have r: "of_int (round_away x) - 1 / 2 \<le> x" "x \<le> of_int (round_away x) + 1 / 2"
    "0 \<le> x \<Longrightarrow> x < of_int (round_away x) + 1 / 2" "x < 0 \<Longrightarrow> of_int (round_away x) - 1 / 2 < x"
    using round_away_error [of x] by (cases "0 \<le> x"; simp)+
  consider "k = n" | "k \<le> n - 1" | "n + 1 \<le> k" by linarith
  then show ?thesis
  proof cases
    case 2
    then have kn: "of_int k \<le> (of_int n - 1 :: rat)" by linarith
    have "lo < n" using 2 k by linarith
    then have "n \<le> round_away x" unfolding n by (auto split: if_splits)
    then have rn: "(of_int n :: rat) \<le> of_int (round_away x)" by simp
    with r kn have far: "\<bar>x - of_int n\<bar> \<le> \<bar>x - of_int k\<bar>" by linarith
    { assume "\<bar>x - of_int n\<bar> = \<bar>x - of_int k\<bar>"
      with r rn kn have "x = of_int n - 1 / 2" "(of_int k :: rat) = of_int n - 1" by linarith+
      with r have "0 \<le> x" using rn by linarith
      then have "1 \<le> n" "k = n - 1" using \<open>x = of_int n - 1 / 2\<close> 2 \<open>(of_int k :: rat) = of_int n - 1\<close> by linarith+
      then have "\<bar>k\<bar> \<le> \<bar>n\<bar>" by simp }
    with far show ?thesis by blast
  next
    case 3
    then have kn: "of_int n + 1 \<le> (of_int k :: rat)" by linarith
    have "n < hi" using 3 k by linarith
    then have "round_away x \<le> n" unfolding n by (auto split: if_splits)
    then have rn: "of_int (round_away x) \<le> (of_int n :: rat)" by simp
    with r kn have far: "\<bar>x - of_int n\<bar> \<le> \<bar>x - of_int k\<bar>" by linarith
    { assume "\<bar>x - of_int n\<bar> = \<bar>x - of_int k\<bar>"
      with r rn kn have e: "x = of_int n + 1 / 2" "(of_int k :: rat) = of_int n + 1" by linarith+
      with r rn have "x < 0" by linarith
      then have "n \<le> - 1" "k = n + 1" using e 3 by linarith+
      then have "\<bar>k\<bar> \<le> \<bar>n\<bar>" by simp }
    with far show ?thesis by blast
  qed simp
qed

section \<open>Properties\<close>

text \<open>C27: for a payload of one to eight bytes the integer decoder returns the big-endian value,
  read as two's complement when the metric is signed; unsigned values of eight bytes are the only
  ones that wrap.\<close>

theorem parse_integer_correct:
  assumes "raw \<noteq> []" "length raw \<le> 8"
  shows "parseInteger raw sgnd =
    Inr (if sgnd \<and> 2 ^ (8 * length raw - 1) \<le> be_value raw
         then be_value raw - 2 ^ (8 * length raw) else wrap64 (be_value raw))"
  using assms by (rule parseInteger_value)

theorem parse_integer_correct_witness:
  "([0xFF, 0x38] :: bytes) \<noteq> [] \<and> parseInteger [0xFF, 0x38] True = Inr (- 200)"
  using parse_integer_correct [of "[0xFF, 0x38]" True] by simp

text \<open>An unsigned metric of eight bytes with the top bit set is decoded to a negative number,
  although the ceiling of eight bytes is described as free of overflow.\<close>

theorem parse_integer_unsigned_overflow:
  assumes "length raw = 8" "2 ^ 63 \<le> be_value raw"
  shows "parseInteger raw False = Inr (be_value raw - 2 ^ 64) \<and> be_value raw - 2 ^ 64 < 0"
proof -
  have b: "be_value raw < 2 ^ 64" using be_value_bound [of raw 8] assms(1) by simp
  have "(be_value raw + 2 ^ 63) mod 2 ^ 64 = (be_value raw - 2 ^ 63 + 2 ^ 64) mod (2 ^ 64)" by (simp add: add.commute)
  also have "\<dots> = (be_value raw - 2 ^ 63) mod 2 ^ 64" by (rule mod_add_self2)
  also have "\<dots> = be_value raw - 2 ^ 63" using b assms(2) by (intro mod_pos_pos_trivial) auto
  finally have "wrap64 (be_value raw) = be_value raw - 2 ^ 64" by (simp add: wrap64_def)
  moreover have "raw \<noteq> []" using assms(1) by auto
  ultimately show ?thesis using parseInteger_value [of raw False] assms(1) b by simp
qed

theorem parse_integer_unsigned_overflow_witness:
  "parseInteger [0xFF, 0xFF, 0xFF, 0xFF, 0xFF, 0xFF, 0xFF, 0xFF] False = Inr (- 1)"
  using parse_integer_unsigned_overflow [of "[0xFF, 0xFF, 0xFF, 0xFF, 0xFF, 0xFF, 0xFF, 0xFF]"]
  by simp

text \<open>C26: encoding goes to the nearest number the metric can hold. For a size of one, two or four
  bytes the encoder succeeds for every value, its output has exactly that size and reads back as a
  number of the metric's range, two's complement when it is signed; and when the value divided by the
  scale (the value itself for an enum) is finite and within the 64-bit integers, no number of the
  range is nearer to it, and at equal distance none is farther from zero: fractions are rounded half
  away from zero, a value below the range becomes its least number and one above it the greatest.
  Outside the 64-bit integers the language leaves the conversion to the platform.\<close>

theorem encode_clamps:
  assumes "m_Size m \<in> {1, 2, 4}"
    and "lo = (if m_Signed m then - (2 ^ nat (8 * m_Size m - 1)) else 0)"
    and "hi = (if m_Signed m then 2 ^ nat (8 * m_Size m - 1) - 1 else 2 ^ nat (8 * m_Size m) - 1)"
    and "q = (if m_Enum m \<noteq> [] then value
              else f_div value (if f_eq (m_Scale m) (Zero False) then Fin 1 else m_Scale m))"
  shows "\<exists>out n. EncodeValueToEDT oor value m = Inr out \<and> int (length out) = m_Size m
    \<and> parseInteger out (m_Signed m) = Inr n \<and> lo \<le> n \<and> n \<le> hi
    \<and> (q \<noteq> NaN \<and> \<not> is_inf q \<and> \<bar>fval q\<bar> \<le> 2 ^ 63 - 1 \<longrightarrow>
        (\<forall>k. lo \<le> k \<and> k \<le> hi \<longrightarrow> \<bar>fval q - of_int n\<bar> \<le> \<bar>fval q - of_int k\<bar>
          \<and> (\<bar>fval q - of_int n\<bar> = \<bar>fval q - of_int k\<bar> \<longrightarrow> \<bar>k\<bar> \<le> \<bar>n\<bar>)))"
proof -
  define r where "r = encode_raw oor value m"
  define n where "n = clamp_raw (m_Size m * 8) (m_Signed m) r"
  obtain out where out: "EncodeValueToEDT oor value m = Inr out"
    using EncodeValueToEDT_total [OF assms(1)] by blast
  have lh: "lo \<le> 0" "0 \<le> hi" using assms(2,3) by simp_all
  have clamp: "n = (if r < lo then lo else if hi < r then hi else r)"
    using assms(1) lh unfolding n_def clamp_raw_def assms(2,3) by (auto simp: Let_def mult.commute)
  have r: "r = round_away (fval q)" if "q \<noteq> NaN" "\<not> is_inf q" "\<bar>fval q\<bar> \<le> 2 ^ 63 - 1"
    using to_int64_round [OF that, of oor] unfolding r_def encode_raw_def Let_def assms(4) by (simp split: if_splits)
  have near: "\<forall>k. lo \<le> k \<and> k \<le> hi \<longrightarrow> \<bar>fval q - of_int n\<bar> \<le> \<bar>fval q - of_int k\<bar>
          \<and> (\<bar>fval q - of_int n\<bar> = \<bar>fval q - of_int k\<bar> \<longrightarrow> \<bar>k\<bar> \<le> \<bar>n\<bar>)"
    if "q \<noteq> NaN" "\<not> is_inf q" "\<bar>fval q\<bar> \<le> 2 ^ 63 - 1"
    using clamp [unfolded r [OF that]] clamp_nearest [OF _ _ _ lh] by blast
  have "lo \<le> n" "n \<le> hi" using clamp lh by auto
  moreover have "parseInteger out (m_Signed m) = Inr n"
    using parse_encoded [OF out] by (simp only: n_def r_def)
  moreover have "int (length out) = m_Size m" using EncodeValueToEDT_Inr(2) [OF out] assms(1) by auto
  ultimately show ?thesis using out near by blast
qed

theorem encode_clamps_witness:
  "\<exists>out. EncodeValueToEDT (\<lambda>_. 0) (Fin 300) (zero_metric\<lparr>m_Size := 1, m_Scale := Fin 1\<rparr>) = Inr out
    \<and> int (length out) = 1 \<and> parseInteger out False = Inr 255"
proof -
  let ?m = "zero_metric\<lparr>m_Size := 1, m_Scale := Fin 1\<rparr>"
  have q: "f_div (Fin 300) (Fin 1) = Fin 300" by (simp add: f_div_def round64_numeral)
  have e: "\<exists>out n. EncodeValueToEDT (\<lambda>_. 0) (Fin 300) ?m = Inr out \<and> int (length out) = 1
    \<and> parseInteger out False = Inr n \<and> 0 \<le> n \<and> n \<le> 255
    \<and> (\<forall>k. 0 \<le> k \<and> k \<le> 255 \<longrightarrow> \<bar>300 - rat_of_int n\<bar> \<le> \<bar>300 - of_int k\<bar>)"
    using encode_clamps [of ?m 0 255 "Fin 300" "Fin 300" "\<lambda>_. 0"]
    by (auto simp: zero_metric_def f_eq_def q)
  then obtain out n where o: "EncodeValueToEDT (\<lambda>_. 0) (Fin 300) ?m = Inr out" "int (length out) = 1"
    "parseInteger out False = Inr n" "n \<le> 255" "\<forall>k. 0 \<le> k \<and> k \<le> 255 \<longrightarrow> \<bar>300 - rat_of_int n\<bar> \<le> \<bar>300 - of_int k\<bar>"
    by blast
  have "rat_of_int n \<le> 255" using o(4) by (simp add: of_int_le_numeral_iff)
  with o(5) [rule_format, of 255] have "rat_of_int n = 255" by simp
  then have "n = 255" by (simp add: of_int_eq_numeral_iff)
  with o show ?thesis by blast
qed

text \<open>C25: encoding is the inverse of decoding. For a metric of one, two or four bytes at offset 0, a
  payload of exactly the metric's size, and a scale that is at least one or a negative power of ten down
  to a thousandth (an enum has scale one), whatever value the decoder returns for the payload, the
  encoder turns it back into that payload, in spite of the four roundings to binary in between.\<close>

theorem encode_decode_roundtrip:
  assumes "m_Size m \<in> {1, 2, 4}" "m_Offset m = 0" "int (length edt) = m_Size m"
    and "scale_exact oor log10f (m_Scale m)" "m_Enum m = [] \<or> m_Scale m = Fin 1"
    and "parseEDTWithReason oor log10f edt m = Inr v"
  shows "EncodeValueToEDT oor v m = Inr edt"
  using assms by (rule encode_of_decoded)

theorem encode_decode_roundtrip_witness:
  "EncodeValueToEDT (\<lambda>_. 0) (Fin 25) (zero_metric\<lparr>m_Size := 1, m_Scale := Fin 1\<rparr>) = Inr [0x19]"
proof (rule encode_decode_roundtrip [of _ "[0x19]" _ "\<lambda>_. NaN"])
  show "scale_exact (\<lambda>_. 0) (\<lambda>_. NaN) (m_Scale (zero_metric\<lparr>m_Size := 1, m_Scale := Fin 1\<rparr>))"
    by (simp add: scale_exact_def)
  have "parseInteger [0x19] False = Inr 25" by (simp add: parseInteger_narrow)
  then show "parseEDTWithReason (\<lambda>_. 0) (\<lambda>_. NaN) [0x19] (zero_metric\<lparr>m_Size := 1, m_Scale := Fin 1\<rparr>) = Inr (Fin 25)"
    by (simp add: parseEDTWithReason_def zero_metric_def go_slice_def wrap64_def scale_value_def
        f_of_int_small f_mul_def f_less_def round64_numeral)
qed (simp_all add: zero_metric_def)

end
