(* ===== verification/Manufacturers.thy ===== *)
theory Manufacturers
  imports Prelude
begin

text \<open>
  \<open>internal/echonet/manufacturers.go\<close>: the table of manufacturer codes and the two readings of
  property 0x8A. The lemmas show when a reading is empty and that the formatted code determines
  the bytes.
\<close>

unbundle bit_operations_syntax

definition manufacturerNames :: "(32 word \<times> string) list" where
  "manufacturerNames = [
     (0x1, ''Hitachi''),
     (0x5, ''Sharp''),
     (0x6, ''Mitsubishi Electric''),
     (0x8, ''Daikin Industries''),
     (0x9, ''NEC''),
     (0xB, ''Panasonic''),
     (0x12, ''Oi Electric''),
     (0x15, ''Daikin Systems Solutions Lab''),
     (0x16, ''Toshiba''),
     (0x17, ''Nihon Carrier (Toshiba Carrier)''),
     (0x1B, ''Toshiba Lighting & Technology''),
     (0x22, ''Hitachi Global Life Solutions''),
     (0x23, ''NTT Comware''),
     (0x25, ''LIXIL''),
     (0x2C, ''AFT''),
     (0x2E, ''Shikoku Measurement''),
     (0x2F, ''Aiphone''),
     (0x34, ''Mitsubishi Electric Engineering''),
     (0x35, ''Toko Toshiba Meter Systems''),
     (0x36, ''Nisshin Systems''),
     (0x3A, ''Sekisui House''),
     (0x3B, ''Kyocera''),
     (0x3C, ''Denso''),
     (0x3D, ''Sumitomo Electric''),
     (0x3E, ''Sumitomo Electric Networks''),
     (0x40, ''Hitachi High-Tech Solutions''),
     (0x41, ''Enegate''),
     (0x43, ''Toshiba Unified Technologies''),
     (0x44, ''Hitachi Industrial Equipment''),
     (0x47, ''NTT East''),
     (0x48, ''Oki Electric''),
     (0x4D, ''Inaba Denki Sangyo''),
     (0x4E, ''Fujitsu''),
     (0x4F, ''Daiwa House Industry''),
     (0x50, ''TOTO''),
     (0x51, ''Fuji IT''),
     (0x52, ''Osaki Electric''),
     (0x53, ''Ubiquitous AI''),
     (0x54, ''Noritz''),
     (0x55, ''Family Net Japan''),
     (0x56, ''iND''),
     (0x57, ''Eliiy Power''),
     (0x58, ''Mediotec (Direct Power)''),
     (0x59, ''Rinnai''),
     (0x5C, ''TransBoot''),
     (0x60, ''Sony CSL''),
     (0x61, ''NTT Data Intellilink''),
     (0x63, ''Kawamura Electric''),
     (0x64, ''Omron Social Solutions''),
     (0x67, ''Corona''),
     (0x68, ''Aisin''),
     (0x69, ''Toshiba Lifestyle''),
     (0x6A, ''Okaya Koki''),
     (0x6B, ''ISB''),
     (0x6C, ''Nichicon''),
     (0x6E, ''Sound Vision''),
     (0x6F, ''Buffalo''),
     (0x71, ''Nihon Sangyo''),
     (0x72, ''Enerlis''),
     (0x73, ''NEC Platforms''),
     (0x76, ''TSP''),
     (0x77, ''Kanagawa Institute of Technology''),
     (0x78, ''Maxell''),
     (0x79, ''Anritsu Engineering''),
     (0x7A, ''Zuken Elmic''),
     (0x7C, ''NSW''),
     (0x7E, ''SMK''),
     (0x7F, ''Anritsu Customer Support''),
     (0x80, ''Daiazebra Electric (Tabuchi)''),
     (0x81, ''Iwasaki Electric''),
     (0x82, ''Purpose''),
     (0x83, ''Melco Techno Yokohama''),
     (0x85, ''Takaoka Toko''),
     (0x86, ''NTT West''),
     (0x87, ''I-O DATA''),
     (0x88, ''Chofu Seisakusho''),
     (0x8A, ''Fujitsu General''),
     (0x8C, ''Kyuden Technosystems''),
     (0x8D, ''NTT''),
     (0x8F, ''Glamo''),
     (0x90, ''Fujitsu Component''),
     (0x91, ''NEC Platforms (legacy)''),
     (0x93, ''Satori Denki''),
     (0x95, ''Yamato Denki''),
     (0x96, ''Azbil''),
     (0x97, ''Mirai Gijutsu Kenkyusho''),
     (0x99, ''TEPCO Holdings''),
     (0x9A, ''Kansai Electric Power T&D''),
     (0x9B, ''Gastar''),
     (0x9C, ''Diamond Electric''),
     (0x9E, ''Yaskawa Electric''),
     (0x9F, ''GS Yuasa''),
     (0xA0, ''NTT Advanced Technology''),
     (0xA1, ''Honda R&D''),
     (0xA3, ''Chubu Electric Power Grid''),
     (0xA5, ''Nichibei''),
     (0xA8, ''Smart Power System''),
     (0xAC, ''IDEC''),
     (0xAD, ''Delta Electronics''),
     (0xAE, ''Shikoku Electric Power T&D''),
     (0xAF, ''Takara Standard''),
     (0xB0, ''Idea (Naltec)''),
     (0xB1, ''IIJ''),
     (0xB2, ''NF Blossom Technologies''),
     (0xB3, ''TOPPERS Project''),
     (0xB4, ''4R Energy''),
     (0xB5, ''Chugoku Electric Power''),
     (0xB6, ''Bunka Shutter''),
     (0xB7, ''Nitto Kogyo''),
     (0xB8, ''Hokkaido Electric Power Network''),
     (0xBA, ''Sankyo Tateyama''),
     (0xBB, ''Hokuriku Electric Power T&D''),
     (0xBC, ''Tohoku Electric Power Network''),
     (0xBE, ''Denken''),
     (0xBF, ''Kyushu Electric Power T&D''),
     (0xC1, ''Tsuken Denki Kogyo''),
     (0xC2, ''Tohoku Keiki Kogyo''),
     (0xC3, ''Japan Electric Meters Inspection''),
     (0xC5, ''Sanwa Shutter''),
     (0xCA, ''JSP''),
     (0xCB, ''Fuji Electric''),
     (0xCC, ''Bosch Home Comfort Japan''),
     (0xCD, ''Toclas''),
     (0xCE, ''Shindengen Electric''),
     (0xD0, ''Tsubakimoto Chain''),
     (0xD2, ''Chofu Kosan''),
     (0xD4, ''Murata Manufacturing''),
     (0xD5, ''Choshu Industry''),
     (0xD7, ''Kaga Electronics''),
     (0xD8, ''Osaki Datatech''),
     (0xD9, ''Toshiba IT Control Systems''),
     (0xDA, ''Panasonic Industrial Systems''),
     (0xDB, ''Suntech Power Japan''),
     (0xDC, ''Nihon Techno''),
     (0xDD, ''Ena Stone''),
     (0xDE, ''FUJIFILM Business Innovation Japan''),
     (0xDF, ''SMA Japan''),
     (0xE0, ''Looop''),
     (0xE1, ''SoftBank''),
     (0xE2, ''NextDrive''),
     (0xE3, ''DDL''),
     (0xE4, ''Techno-i''),
     (0xE5, ''Hitachi Power Solutions''),
     (0xE6, ''Hokkaido Electrical Safety Services''),
     (0xE8, ''Koizumi Lighting''),
     (0xE9, ''NTT Smile Energy''),
     (0xEB, ''Nichicon Kameoka''),
     (0xEC, ''Toshiba Energy Systems''),
     (0xED, ''Anfini''),
     (0xEE, ''Tessera Technology''),
     (0xEF, ''Toyota Industries''),
     (0xF0, ''Kaneka''),
     (0xF1, ''Laplace System''),
     (0xF2, ''Energy Solutions''),
     (0xF3, ''Energy Gateway''),
     (0xF4, ''Denso Aircool''),
     (0xF5, ''Odelic''),
     (0xF6, ''Field Logic''),
     (0xF7, ''J-City''),
     (0xF8, ''Simux Initiative''),
     (0xF9, ''Toho Electronics''),
     (0xFA, ''Plat'Home''),
     (0xFB, ''Shiko Giken Kogyo''),
     (0xFC, ''Fuji Industrial''),
     (0xFD, ''Bellnix''),
     (0xFE, ''Panasonic Eco Systems''),
     (0xFF, ''TEPCO Energy Partner''),
     (0x100, ''Smart Solar''),
     (0x101, ''Sunpot''),
     (0x102, ''Nichicon Kusatsu''),
     (0x103, ''Data Technology''),
     (0x104, ''Next Energy & Resources''),
     (0x105, ''Mitsubishi Electric Lighting''),
     (0x106, ''Nature''),
     (0x107, ''Seiko Electric''),
     (0x108, ''SOUSEI Technology''),
     (0x109, ''Denso (kk-denso)''),
     (0x10A, ''Energy Gap''),
     (0x10B, ''Kitanihon Densen''),
     (0x10C, ''Max''),
     (0x10D, ''Shizen Connect''),
     (0x10E, ''Sanix''),
     (0x10F, ''Iwatani''),
     (0x110, ''Asuka Solution''),
     (0x111, ''Topre''),
     (0x112, ''Nichiei Intec''),
     (0x113, ''Ebara Jitsugyo''),
     (0x114, ''Okatani Kiden''),
     (0x115, ''Huawei Japan''),
     (0x116, ''Sungrow Power Supply''),
     (0x117, ''WWB''),
     (0x118, ''NEC Magnus Communications''),
     (0x119, ''Daihen''),
     (0x11A, ''ACCESS''),
     (0x11B, ''SolaX Power''),
     (0x11C, ''Sanden Retail Systems''),
     (0x11D, ''mui Lab''),
     (0x11E, ''Sakigawa''),
     (0x11F, ''Toyota Tsusho''),
     (0x120, ''Meisei Electric''),
     (0x121, ''Toyota Motor''),
     (0x122, ''Hanwha Q Cells Japan''),
     (0x123, ''Contec''),
     (0x124, ''Intec''),
     (0x125, ''LiveSmart''),
     (0x126, ''Togami Electric''),
     (0x127, ''Paloma''),
     (0x128, ''Saiko Engineering''),
     (0x129, ''GoodWe Japan''),
     (0x12A, ''Monochrome''),
     (0x12B, ''Denso Wave''),
     (0x12C, ''Onanba''),
     (0x12D, ''Tachikawa Blind''),
     (0x12E, ''Enecloud''),
     (0x12F, ''Taiwan Plastic Japan New Energy''),
     (0x130, ''Cool Design''),
     (0x131, ''Eternalplanet Energy (EP Cube)''),
     (0x132, ''EX4Energy''),
     (0x133, ''afterFIT''),
     (0x134, ''GoodWe Technologies''),
     (0x135, ''Link Japan''),
     (0x136, ''Chuo Bussan''),
     (0x137, ''Okatani Kiden (2nd)''),
     (0x138, ''TRENDE''),
     (0x139, ''Ratoc Systems''),
     (0x13A, ''GUGEN''),
     (0x13B, ''Crossdoor''),
     (0x13D, ''Nihon Gas (Nicigas)''),
     (0x13E, ''I-Grid Solutions''),
     (0x13F, ''Energy Pool Japan''),
     (0x140, ''Landis+Gyr''),
     (0x141, ''Daiko Electric''),
     (0x142, ''Yanekara''),
     (0x143, ''Tokugyou Energy Japan''),
     (0x144, ''Sky Electric Japan''),
     (0x145, ''Tesla Japan'')]"

text \<open>\<open>Sprintf("0x%06X", code)\<close> of a code of three bytes.\<close>

definition decodeManufacturer :: "bytes \<Rightarrow> string" where
  "decodeManufacturer edt =
     (case edt of
        [a, b, c] \<Rightarrow>
          (let code = push_bit 16 (ucast a) OR push_bit 8 (ucast b) OR ucast c :: 32 word
           in case map_of manufacturerNames code of
                Some name \<Rightarrow> name
              | None \<Rightarrow> ''0x'' @ hex2_upper a @ hex2_upper b @ hex2_upper c)
      | _ \<Rightarrow> [])"

definition formatManufacturerCode :: "bytes \<Rightarrow> string" where
  "formatManufacturerCode edt =
     (case edt of [a, b, c] \<Rightarrow> hex2 a @ hex2 b @ hex2 c | _ \<Rightarrow> [])"

lemma length_3: "length xs = 3 \<longleftrightarrow> (\<exists>a b c. xs = [a, b, c])"
  by (auto simp: length_Suc_conv numeral_3_eq_3)

lemma formatManufacturerCode_empty: "formatManufacturerCode edt = [] \<longleftrightarrow> length edt \<noteq> 3"
  by (auto simp: formatManufacturerCode_def hex2_def length_3 split: list.splits)

lemma formatManufacturerCode_inj:
  "length edt = 3 \<Longrightarrow> length edt' = 3 \<Longrightarrow>
    formatManufacturerCode edt = formatManufacturerCode edt' \<Longrightarrow> edt = edt'"
  by (auto simp: formatManufacturerCode_def length_3 dest!: hex2_inj)

lemma names_nonempty: "list_all (\<lambda>p. snd p \<noteq> []) manufacturerNames"
  unfolding manufacturerNames_def by (simp only: list.pred_inject snd_conv list.distinct simp_thms)

lemma decodeManufacturer_empty: "decodeManufacturer edt = [] \<longleftrightarrow> length edt \<noteq> 3"
proof -
  have "name \<noteq> []" if "map_of manufacturerNames code = Some name" for code name
    using names_nonempty map_of_SomeD [OF that] unfolding list_all_iff by fastforce
  then show ?thesis
    by (auto simp: decodeManufacturer_def length_3 Let_def split: list.splits option.splits)
qed

end
