(* ===== verification/Client.thy ===== *)
theory Client
  imports Transport Encoder Manufacturers
begin

text \<open>
  \<open>internal/echonet/client.go\<close>: requests and their interpretation. A client owns nothing but a
  transport, so each method is a function of the transport's operations \<open>tr\<close> and of the state
  \<open>'s\<close> they change. \<open>getPropsAdaptive\<close> is the recovery from partial responses: it asks again in
  halves. The lemmas, proved for any transport that keeps the contract \<open>transport_service\<close>, show
  its bounds, that it loses nothing, and that it finds everything a device answers one by one.
\<close>

record DeviceInfo =
  v_UID :: string
  v_Manufacturer :: string
  v_ManufacturerCode :: string
  v_ProductCode :: string

record MetricValue =
  mv_Value :: float64
  mv_Type :: string
  mv_EnumLabel :: string

abbreviation maxAdaptiveSplitDepth :: nat where "maxAdaptiveSplitDepth \<equiv> 8"

section \<open>Requests\<close>

definition SendGet ::
  "'s transport_ops \<Rightarrow> string \<Rightarrow> eoj \<Rightarrow> bytes \<Rightarrow> 's \<Rightarrow> (go_error + bytes) \<times> 's" where
  "SendGet tr addr eoj epcs s =
     (if epcs = [] then (Inl NoEPCs, s)
      else case x_NextTID tr s of (tid, s1) \<Rightarrow>
        (case x_Send tr addr (GetRequest tid eoj epcs) tid s1 of
           (Inl e, s2) \<Rightarrow> (Inl (NetErr e), s2)
         | (Inr raw, s2) \<Rightarrow> (Inr raw, s2)))"

text \<open>\<open>SendSet\<close> returns the response also when its service code is an error.\<close>

definition SendSet ::
  "'s transport_ops \<Rightarrow> string \<Rightarrow> eoj \<Rightarrow> byte \<Rightarrow> bytes \<Rightarrow> 's \<Rightarrow> (bytes option \<times> go_error option) \<times> 's" where
  "SendSet tr addr eoj epc edt s =
     (case x_NextTID tr s of (tid, s1) \<Rightarrow>
        (case x_Send tr addr (SetRequest tid eoj epc edt) tid s1 of
           (Inl e, s2) \<Rightarrow> ((None, Some (NetErr e)), s2)
         | (Inr raw, s2) \<Rightarrow>
             (case ParseSetRes raw of
                (_, _, Some parseErr) \<Rightarrow> ((Some raw, Some parseErr), s2)
              | (_, _, None) \<Rightarrow> ((Some raw, None), s2))))"

definition SendSetI ::
  "'s transport_ops \<Rightarrow> string \<Rightarrow> eoj \<Rightarrow> byte \<Rightarrow> bytes \<Rightarrow> 's \<Rightarrow> net_error option \<times> 's" where
  "SendSetI tr addr eoj epc edt s =
     (case x_NextTID tr s of (tid, s1) \<Rightarrow> x_FireAndForget tr addr (SetIRequest tid eoj epc edt) s1)"

section \<open>Collecting properties\<close>

definition missingEPCs :: "bytes \<Rightarrow> Property list \<Rightarrow> bytes" where
  "missingEPCs requested props = filter (\<lambda>epc. epc \<notin> set (map p_EPC props)) requested"

definition splitEPCs :: "bytes \<Rightarrow> bytes \<times> bytes" where
  "splitEPCs epcs =
     (if length epcs \<le> 1 then (epcs, [])
      else let mid = (if length epcs div 2 = 0 then 1 else length epcs div 2)
        in (take mid epcs, drop mid epcs))"

definition containsAny :: "bytes \<Rightarrow> bytes \<Rightarrow> bool" where
  "containsAny candidates lookup \<longleftrightarrow> list_ex (\<lambda>v. v \<in> set lookup) candidates"

text \<open>The first property of a code wins, unless it is empty and a later one is not.\<close>

definition put_prop :: "Property \<Rightarrow> (byte, Property) gomap \<Rightarrow> (byte, Property) gomap" where
  "put_prop p dst =
     (case map_of dst (p_EPC p) of
        None \<Rightarrow> AList.update (p_EPC p) p dst
      | Some existing \<Rightarrow>
          if p_EDT existing = [] \<and> p_EDT p \<noteq> [] then AList.update (p_EPC p) p dst else dst)"

definition mergeProps :: "(byte, Property) gomap \<Rightarrow> Property list \<Rightarrow> (byte, Property) gomap" where
  "mergeProps dst src = fold put_prop src dst"

definition propsToMap :: "Property list \<Rightarrow> (byte, Property) gomap" where
  "propsToMap props = fold put_prop props []"

definition mapToProps :: "(byte, Property) gomap \<Rightarrow> Property list" where
  "mapToProps props =
     map (\<lambda>k. the (map_of props (word_of_nat k))) (sort (map (\<lambda>kv. unat (fst kv)) props))"

definition merge_part ::
  "(byte, Property) gomap \<Rightarrow> (go_error + Property list) \<times> 's \<Rightarrow> (byte, Property) gomap \<times> 's" where
  "merge_part merged result =
     (case result of (Inl e, s) \<Rightarrow> (merged, s) | (Inr partProps, s) \<Rightarrow> (mergeProps merged partProps, s))"

function getPropsAdaptive ::
  "'s transport_ops \<Rightarrow> string \<Rightarrow> eoj \<Rightarrow> bytes \<Rightarrow> nat \<Rightarrow> 's \<Rightarrow> (go_error + Property list) \<times> 's" where
  "getPropsAdaptive tr addr eoj epcs depth s =
     (case SendGet tr addr eoj epcs s of
        (Inl e, s1) \<Rightarrow> (Inl e, s1)
      | (Inr raw, s1) \<Rightarrow>
          (case ParseGetRes raw of (_, props0, err) \<Rightarrow>
             if err \<noteq> None \<and> \<not> isGetSNA err then (Inl (the err), s1)
             else
               let props = (if isGetSNA err then filter (\<lambda>p. 0 < p_PDC p) props0 else props0);
                   missing = missingEPCs epcs props
               in if missing = [] then (Inr props, s1)
                  else if length epcs \<le> 1 then (Inr props, s1)
                  else if maxAdaptiveSplitDepth \<le> depth then (Inr props, s1)
                  else
                    let left = fst (splitEPCs epcs);
                        right = snd (splitEPCs epcs);
                        m0 = propsToMap props;
                        r1 = (if left = [] \<or> \<not> containsAny left missing then (m0, s1)
                              else merge_part m0 (getPropsAdaptive tr addr eoj left (Suc depth) s1));
                        r2 = (if right = [] \<or> \<not> containsAny right missing then r1
                              else merge_part (fst r1) (getPropsAdaptive tr addr eoj right (Suc depth) (snd r1)));
                        out = mapToProps (fst r2)
                    in if out = [] then (Inl NoProperties, snd r2) else (Inr out, snd r2)))"
  by pat_completeness auto
termination by (relation "measure (\<lambda>(tr, addr, eoj, epcs, depth, s). Suc maxAdaptiveSplitDepth - depth)") auto

declare getPropsAdaptive.simps [simp del]

definition GetProps ::
  "'s transport_ops \<Rightarrow> string \<Rightarrow> eoj \<Rightarrow> bytes \<Rightarrow> 's \<Rightarrow> (go_error + Property list) \<times> 's" where
  "GetProps tr addr eoj epcs s = getPropsAdaptive tr addr eoj epcs 0 s"

section \<open>Property maps and identity\<close>

definition GetReadablePropertyMap ::
  "'s transport_ops \<Rightarrow> string \<Rightarrow> eoj \<Rightarrow> 's \<Rightarrow> (go_error + byte set) \<times> 's" where
  "GetReadablePropertyMap tr addr eoj s =
     (case GetProps tr addr eoj [0x9F] s of
        (Inl e, s1) \<Rightarrow> (Inl e, s1)
      | (Inr props, s1) \<Rightarrow>
          (case find (\<lambda>p. p_EPC p = 0x9F \<and> 0 < length (p_EDT p)) props of
             Some p \<Rightarrow> (Inr (decodePropertyMap (p_EDT p)), s1)
           | None \<Rightarrow> (Inl (MapMissing 0x9F), s1)))"

definition GetWritablePropertyMap ::
  "'s transport_ops \<Rightarrow> string \<Rightarrow> eoj \<Rightarrow> 's \<Rightarrow> (go_error + byte set) \<times> 's" where
  "GetWritablePropertyMap tr addr eoj s =
     (case GetProps tr addr eoj [0x9E] s of
        (Inl e, s1) \<Rightarrow> (Inl e, s1)
      | (Inr props, s1) \<Rightarrow>
          (case find (\<lambda>p. p_EPC p = 0x9E \<and> 0 < length (p_EDT p)) props of
             Some p \<Rightarrow> (Inr (decodePropertyMap (p_EDT p)), s1)
           | None \<Rightarrow> (Inl (MapMissing 0x9E), s1)))"

definition GetNotificationPropertyMap ::
  "'s transport_ops \<Rightarrow> string \<Rightarrow> eoj \<Rightarrow> 's \<Rightarrow> (go_error + byte set) \<times> 's" where
  "GetNotificationPropertyMap tr addr eoj s =
     (case GetProps tr addr eoj [0x9D] s of
        (Inl e, s1) \<Rightarrow> (Inl e, s1)
      | (Inr props, s1) \<Rightarrow>
          (case find (\<lambda>p. p_EPC p = 0x9D \<and> 0 < length (p_EDT p)) props of
             Some p \<Rightarrow> (Inr (decodePropertyMap (p_EDT p)), s1)
           | None \<Rightarrow> (Inl (MapMissing 0x9D), s1)))"

abbreviation nodeProfileEOJ :: eoj where "nodeProfileEOJ \<equiv> (0x0E, 0xF0, 0x01)"

definition find_code :: "Property list \<Rightarrow> string option" where
  "find_code props =
     (case find (\<lambda>p. p_EPC p = 0x8A \<and> length (p_EDT p) = 3) props of
        Some p \<Rightarrow> Some (formatManufacturerCode (p_EDT p)) | None \<Rightarrow> None)"

text \<open>An error that is a Get_SNA is treated as an empty list of properties.\<close>

definition get_props_sna ::
  "'s transport_ops \<Rightarrow> string \<Rightarrow> eoj \<Rightarrow> bytes \<Rightarrow> 's \<Rightarrow> (go_error + Property list) \<times> 's" where
  "get_props_sna tr addr eoj epcs s =
     (case GetProps tr addr eoj epcs s of
        (Inl e, s1) \<Rightarrow> if \<not> isGetSNA (Some e) then (Inl e, s1) else (Inr [], s1)
      | (Inr props, s1) \<Rightarrow> (Inr props, s1))"

definition GetManufacturerCode ::
  "'s transport_ops \<Rightarrow> string \<Rightarrow> eoj \<Rightarrow> 's \<Rightarrow> (go_error + string) \<times> 's" where
  "GetManufacturerCode tr addr eoj s =
     (case get_props_sna tr addr eoj [0x8A] s of
        (Inl e, s1) \<Rightarrow> (Inl e, s1)
      | (Inr props, s1) \<Rightarrow>
          (case find_code props of
             Some c \<Rightarrow> (Inr c, s1)
           | None \<Rightarrow>
               if eoj \<noteq> nodeProfileEOJ then
                 (case get_props_sna tr addr nodeProfileEOJ [0x8A] s1 of
                    (Inl e, s2) \<Rightarrow> (Inl e, s2)
                  | (Inr props2, s2) \<Rightarrow>
                      (case find_code props2 of Some c \<Rightarrow> (Inr c, s2) | None \<Rightarrow> (Inr [], s2)))
               else (Inr [], s1)))"

text \<open>The switch over the identity properties; \<open>label\<close> is \<open>c.hostLabel(addr)\<close>.\<close>

definition info_step ::
  "(string \<Rightarrow> (byte \<times> byte \<times> byte \<times> byte) option) \<Rightarrow> string \<Rightarrow> Property \<Rightarrow> DeviceInfo \<Rightarrow> DeviceInfo" where
  "info_step v6 label p info =
     (if p_EPC p = 0x83 then info\<lparr>v_UID := decodeUID v6 (p_EDT p) label\<rparr>
      else if p_EPC p = 0x8A then
        info\<lparr>v_Manufacturer := decodeManufacturer (p_EDT p),
             v_ManufacturerCode := formatManufacturerCode (p_EDT p)\<rparr>
      else if p_EPC p = 0x8C then info\<lparr>v_ProductCode := decodeProductCode (p_EDT p)\<rparr>
      else info)"

definition GetDeviceInfo ::
  "(string \<Rightarrow> (byte \<times> byte \<times> byte \<times> byte) option) \<Rightarrow> (string \<Rightarrow> string) option \<Rightarrow> 's transport_ops \<Rightarrow>
     string \<Rightarrow> eoj \<Rightarrow> string \<Rightarrow> 's \<Rightarrow> (go_error + DeviceInfo) \<times> 's" where
  "GetDeviceInfo v6 resolver tr addr eoj knownModel s =
     (let label = transport_hostLabel resolver (normalizeHost addr);
          epcs = [0x83, 0x8A] @ (if knownModel = [] then [0x8C] else [])
      in case get_props_sna tr addr eoj epcs s of
           (Inl e, s1) \<Rightarrow> (Inl e, s1)
         | (Inr props, s1) \<Rightarrow>
             let info = fold (info_step v6 label) props
                   \<lparr>v_UID = [], v_Manufacturer = [], v_ManufacturerCode = [], v_ProductCode = knownModel\<rparr>
             in if (v_UID info = [] \<or> v_Manufacturer info = [] \<or> v_ProductCode info = []) \<and> eoj \<noteq> nodeProfileEOJ
                then
                  let missing = (if v_UID info = [] then [0x83] else [])
                        @ (if v_Manufacturer info = [] then [0x8A] else [])
                        @ (if v_ProductCode info = [] then [0x8C] else [])
                  in (case get_props_sna tr addr nodeProfileEOJ missing s1 of
                        (Inl e, s2) \<Rightarrow> (Inl e, s2)
                      | (Inr npProps, s2) \<Rightarrow> (Inr (fold (info_step v6 label) npProps info), s2))
                else (Inr info, s1))"

section \<open>Metrics of a response\<close>

definition apply_multiplier :: "Property list \<Rightarrow> MetricSpec \<Rightarrow> float64 \<Rightarrow> float64" where
  "apply_multiplier props m v =
     (if m_MultiplierEPC m \<noteq> 0 \<and> m_MultiplierMap m \<noteq> [] then
        (case find_prop props (m_MultiplierEPC m) of
           Some mulEDT \<Rightarrow>
             if 1 \<le> length mulEDT then
               (case map_of (m_MultiplierMap m) (int (unat (mulEDT ! 0))) of
                  Some mul \<Rightarrow> f_mul v mul | None \<Rightarrow> v)
             else v
         | None \<Rightarrow> v)
      else v)"

definition metric_step ::
  "(float64 \<Rightarrow> int) \<Rightarrow> (float64 \<Rightarrow> float64) \<Rightarrow> Property list \<Rightarrow> MetricSpec \<Rightarrow>
     (string, MetricValue) gomap \<Rightarrow> (string, MetricValue) gomap" where
  "metric_step oor log10f props m out =
     (case find_prop props (m_EPC m) of
        None \<Rightarrow> out
      | Some edt \<Rightarrow>
          (case parseEDTWithReason oor log10f edt m of
             Inl reason \<Rightarrow> out
           | Inr v0 \<Rightarrow>
               let v = apply_multiplier props m v0;
                   label = (if m_Enum m \<noteq> [] then
                              (case map_of (m_Enum m) (f_to_int64 oor v) of Some l \<Rightarrow> l | None \<Rightarrow> [])
                            else [])
               in AList.update (m_Name m)
                    \<lparr>mv_Value = v, mv_Type = m_Type m, mv_EnumLabel = label\<rparr> out))"

definition ParsePropsToMetrics ::
  "(float64 \<Rightarrow> int) \<Rightarrow> (float64 \<Rightarrow> float64) \<Rightarrow> Property list \<Rightarrow> MetricSpec list \<Rightarrow> (string, MetricValue) gomap" where
  "ParsePropsToMetrics oor log10f props metrics = fold (metric_step oor log10f props) metrics []"

section \<open>Lemmas: maps of properties\<close>

definition props_map_ok :: "(byte, Property) gomap \<Rightarrow> bool" where
  "props_map_ok m \<longleftrightarrow> gomap_ok m \<and> (\<forall>k p. map_of m k = Some p \<longrightarrow> p_EPC p = k)"

lemma props_map_ok_Nil [simp, intro]: "props_map_ok []"
  by (simp add: props_map_ok_def)

lemma put_prop_ok [wf_intros]: "props_map_ok m \<Longrightarrow> props_map_ok (put_prop p m)"
  by (auto simp: props_map_ok_def put_prop_def split: option.splits)

lemma dom_put_prop [simp]: "dom (map_of (put_prop p m)) = insert (p_EPC p) (dom (map_of m))"
  by (auto simp: put_prop_def split: option.splits)

lemma put_prop_cases: "map_of (put_prop p m) k = Some q \<Longrightarrow> q = p \<or> map_of m k = Some q"
  by (auto simp: put_prop_def split: option.splits if_splits)

text \<open>A property with data is only ever replaced by nothing.\<close>

lemma put_prop_keeps: "map_of m k = Some q \<Longrightarrow> p_EDT q \<noteq> [] \<Longrightarrow> map_of (put_prop p m) k = Some q"
  by (auto simp: put_prop_def split: option.splits)

lemma mergeProps_ok [wf_intros]: "props_map_ok m \<Longrightarrow> props_map_ok (mergeProps m ps)"
  by (induction ps arbitrary: m) (auto simp: mergeProps_def intro: put_prop_ok)

lemma dom_mergeProps [simp]: "dom (map_of (mergeProps m ps)) = dom (map_of m) \<union> p_EPC ` set ps"
proof (induction ps arbitrary: m)
  case (Cons p ps)
  from Cons [of "put_prop p m"] show ?case by (auto simp: mergeProps_def)
qed (simp add: mergeProps_def)

lemma mergeProps_cases: "map_of (mergeProps m ps) k = Some q \<Longrightarrow> q \<in> set ps \<or> map_of m k = Some q"
proof (induction ps arbitrary: m)
  case (Cons p ps)
  from Cons.prems have "map_of (mergeProps (put_prop p m) ps) k = Some q" by (simp add: mergeProps_def)
  from Cons.IH [OF this] show ?case by (auto dest: put_prop_cases)
qed (simp add: mergeProps_def)

lemma mergeProps_keeps:
  "map_of m k = Some q \<Longrightarrow> p_EDT q \<noteq> [] \<Longrightarrow> map_of (mergeProps m ps) k = Some q"
proof (induction ps arbitrary: m)
  case (Cons p ps)
  then show ?case using put_prop_keeps [of m k q p] by (simp add: mergeProps_def)
qed (simp add: mergeProps_def)

lemma propsToMap_merge: "propsToMap ps = mergeProps [] ps"
  by (simp add: propsToMap_def mergeProps_def)

lemma mapToProps_codes:
  assumes "props_map_ok m"
  shows "map (\<lambda>p. unat (p_EPC p)) (mapToProps m) = sort (map (\<lambda>kv. unat (fst kv)) m)"
proof -
  have "unat (p_EPC (the (map_of m (word_of_nat k)))) = k" if k: "k \<in> set (map (\<lambda>kv. unat (fst kv)) m)" for k
  proof -
    obtain b where b: "k = unat b" "b \<in> fst ` set m" using k by auto
    then obtain p where "map_of m b = Some p" by (metis domD dom_map_of_conv_image_fst)
    with b(1) assms show ?thesis by (simp add: props_map_ok_def)
  qed
  then show ?thesis unfolding mapToProps_def map_map comp_def by (intro map_idI) auto
qed

lemma mapToProps_sorted:
  assumes "props_map_ok m"
  shows "sorted (map (\<lambda>p. unat (p_EPC p)) (mapToProps m))" "distinct (map p_EPC (mapToProps m))"
proof -
  show "sorted (map (\<lambda>p. unat (p_EPC p)) (mapToProps m))" by (simp add: mapToProps_codes [OF assms])
  have "distinct (map fst m)" using assms by (simp add: props_map_ok_def gomap_ok_def)
  moreover have "inj_on unat (set (map fst m))" by (rule inj_onI) (rule unsigned_word_eqI)
  ultimately have "distinct (map unat (map fst m))" by (simp only: distinct_map [of unat] simp_thms)
  then have "distinct (map (\<lambda>p. unat (p_EPC p)) (mapToProps m))"
    unfolding mapToProps_codes [OF assms] by (simp add: comp_def)
  then show "distinct (map p_EPC (mapToProps m))" by (auto simp: distinct_map inj_on_def)
qed

lemma set_mapToProps:
  assumes "props_map_ok m"
  shows "p \<in> set (mapToProps m) \<longleftrightarrow> map_of m (p_EPC p) = Some p"
proof -
  have "set (mapToProps m) = (\<lambda>b. the (map_of m b)) ` dom (map_of m)"
    by (simp add: mapToProps_def dom_map_of_conv_image_fst image_image)
  moreover have "p \<in> (\<lambda>b. the (map_of m b)) ` dom (map_of m) \<longleftrightarrow> map_of m (p_EPC p) = Some p"
  proof
    assume "p \<in> (\<lambda>b. the (map_of m b)) ` dom (map_of m)"
    then obtain b where "map_of m b = Some p" by auto
    with assms show "map_of m (p_EPC p) = Some p" by (simp add: props_map_ok_def)
  qed force
  ultimately show ?thesis by simp
qed

lemma codes_mapToProps:
  assumes "props_map_ok m"
  shows "p_EPC ` set (mapToProps m) = dom (map_of m)"
proof
  show "p_EPC ` set (mapToProps m) \<subseteq> dom (map_of m)"
    using set_mapToProps [OF assms] by auto
  show "dom (map_of m) \<subseteq> p_EPC ` set (mapToProps m)"
  proof
    fix k
    assume "k \<in> dom (map_of m)"
    then obtain p where p: "map_of m k = Some p" by blast
    with assms have "p_EPC p = k" by (simp add: props_map_ok_def)
    with p set_mapToProps [OF assms, of p] show "k \<in> p_EPC ` set (mapToProps m)" by auto
  qed
qed

section \<open>Lemmas: one request\<close>

lemma missingEPCs_Nil: "missingEPCs epcs ps = [] \<longleftrightarrow> set epcs \<subseteq> p_EPC ` set ps"
  by (auto simp: missingEPCs_def filter_empty_conv)

lemma containsAny_iff: "containsAny xs ys \<longleftrightarrow> set xs \<inter> set ys \<noteq> {}"
  by (auto simp: containsAny_def list_ex_iff)

lemma splitEPCs_spec:
  assumes "2 \<le> length epcs"
  shows "fst (splitEPCs epcs) @ snd (splitEPCs epcs) = epcs"
    "fst (splitEPCs epcs) \<noteq> []" "snd (splitEPCs epcs) \<noteq> []"
    "length epcs \<le> 2 * n \<Longrightarrow> length (fst (splitEPCs epcs)) \<le> n \<and> length (snd (splitEPCs epcs)) \<le> n"
  using assms by (auto simp: splitEPCs_def Let_def)

text \<open>What the client takes from a response: all of a Get_Res, the non-empty part of a Get_SNA.\<close>

definition accepted :: "bytes \<Rightarrow> Property list \<Rightarrow> bool" where
  "accepted raw props \<longleftrightarrow> (\<exists>tid ps. parseFrame raw = Inr (tid, 0x72, ps) \<and> props = ps
     \<or> parseFrame raw = Inr (tid, 0x52, ps) \<and> props = filter (\<lambda>p. 0 < p_PDC p) ps)"

lemma ParseGetRes_accepted:
  assumes "ParseGetRes raw = (tid, ps, err)" "err = None \<or> isGetSNA err"
  shows "accepted raw (if isGetSNA err then filter (\<lambda>p. 0 < p_PDC p) ps else ps)"
  using assms by (auto simp: ParseGetRes_def isGetSNA_def accepted_def split: sum.splits if_splits)

lemma accepted_prop_ok: "accepted raw props \<Longrightarrow> p \<in> set props \<Longrightarrow> prop_ok p"
  using parseFrame_InrD(6) unfolding accepted_def by fastforce

definition get_part ::
  "'s transport_ops \<Rightarrow> string \<Rightarrow> eoj \<Rightarrow> nat \<Rightarrow> bytes \<Rightarrow> bytes \<Rightarrow> (byte, Property) gomap \<times> 's \<Rightarrow>
     (byte, Property) gomap \<times> 's" where
  "get_part tr addr eoj depth part missing ms =
     (if part = [] \<or> \<not> containsAny part missing then ms
      else merge_part (fst ms) (getPropsAdaptive tr addr eoj part (Suc depth) (snd ms)))"

lemma getProps_cases:
  assumes "getPropsAdaptive tr addr eoj epcs depth s = (r, s')"
  obtains (send) e where "SendGet tr addr eoj epcs s = (Inl e, s')" "r = Inl e"
  | (service) raw e where "SendGet tr addr eoj epcs s = (Inr raw, s')" "\<not> isGetSNA (Some e)" "r = Inl e"
      "\<And>props. \<not> accepted raw props"
  | (plain) raw props where "SendGet tr addr eoj epcs s = (Inr raw, s')" "accepted raw props" "r = Inr props"
      "missingEPCs epcs props = [] \<or> length epcs \<le> 1 \<or> maxAdaptiveSplitDepth \<le> depth"
  | (split) raw props s1 ms where "SendGet tr addr eoj epcs s = (Inr raw, s1)" "accepted raw props"
      "2 \<le> length epcs" "depth < maxAdaptiveSplitDepth" "missingEPCs epcs props \<noteq> []"
      "ms = get_part tr addr eoj depth (snd (splitEPCs epcs)) (missingEPCs epcs props)
         (get_part tr addr eoj depth (fst (splitEPCs epcs)) (missingEPCs epcs props) (propsToMap props, s1))"
      "s' = snd ms" "r = (if mapToProps (fst ms) = [] then Inl NoProperties else Inr (mapToProps (fst ms)))"
proof (cases "SendGet tr addr eoj epcs s")
  case (Pair q s1)
  show thesis
  proof (cases q)
    case (Inl e)
    with Pair assms have "SendGet tr addr eoj epcs s = (Inl e, s')" "r = Inl e"
      by (simp_all add: getPropsAdaptive.simps)
    then show thesis by (rule send)
  next
    case (Inr raw)
    obtain tid ps err where p: "ParseGetRes raw = (tid, ps, err)" by (metis surj_pair)
    show thesis
    proof (cases "err \<noteq> None \<and> \<not> isGetSNA err")
      case True
      then obtain e where e: "err = Some e" by blast
      have "\<not> accepted raw props" for props
        using True p by (auto simp: accepted_def ParseGetRes_def isGetSNA_def)
      with True e Pair Inr p assms service [of raw e] show thesis
        by (simp add: getPropsAdaptive.simps)
    next
      case ok: False
      define props where "props = (if isGetSNA err then filter (\<lambda>p. 0 < p_PDC p) ps else ps)"
      have acc: "accepted raw props"
        unfolding props_def using ParseGetRes_accepted [OF p] ok by auto
      have sent: "SendGet tr addr eoj epcs s = (Inr raw, s1)" using Pair Inr by simp
      let ?missing = "missingEPCs epcs props"
      define ms where "ms = get_part tr addr eoj depth (snd (splitEPCs epcs)) ?missing
         (get_part tr addr eoj depth (fst (splitEPCs epcs)) ?missing (propsToMap props, s1))"
      have stop: "getPropsAdaptive tr addr eoj epcs depth s = (Inr props, s1)"
        if "?missing = [] \<or> length epcs \<le> 1 \<or> maxAdaptiveSplitDepth \<le> depth"
        using ok that unfolding getPropsAdaptive.simps [of tr addr eoj epcs] sent
        by (auto simp: p props_def [symmetric] Let_def)
      have go_on: "getPropsAdaptive tr addr eoj epcs depth s
          = (if mapToProps (fst ms) = [] then (Inl NoProperties, snd ms) else (Inr (mapToProps (fst ms)), snd ms))"
        if "?missing \<noteq> []" "\<not> length epcs \<le> 1" "\<not> maxAdaptiveSplitDepth \<le> depth"
        unfolding getPropsAdaptive.simps [of tr addr eoj epcs] sent ms_def get_part_def Let_def fst_conv snd_conv
        by (simp only: p prod.case sum.case if_not_P [OF ok] props_def [symmetric]
          if_not_P [OF that(1)] if_not_P [OF that(2)] if_not_P [OF that(3)] fst_conv snd_conv)
      show thesis
      proof (cases "?missing = [] \<or> length epcs \<le> 1 \<or> maxAdaptiveSplitDepth \<le> depth")
        case True
        with stop [OF True] plain [OF _ acc _ True] sent assms show thesis by simp
      next
        case False
        have "s' = snd ms" "r = (if mapToProps (fst ms) = [] then Inl NoProperties else Inr (mapToProps (fst ms)))"
          using go_on False assms by (auto split: if_splits)
        with False split [OF sent acc _ _ _ ms_def] show thesis by simp
      qed
    qed
  qed
qed

section \<open>Lemmas: adaptive requests\<close>

context transport_service
begin

lemma SendGet_ok: "ok s \<Longrightarrow> SendGet tr addr eoj epcs s = (r, s') \<Longrightarrow> ok s'"
  by (auto simp: SendGet_def split: if_splits prod.splits sum.splits dest: next_ok send_ok)

lemma SendGet_length:
  assumes "ok s" "SendGet tr addr eoj epcs s = (Inr raw, s')"
  shows "12 \<le> length raw"
proof -
  obtain tid s1 where 1: "x_NextTID tr s = (tid, s1)" by force
  have "x_Send tr addr (GetRequest tid eoj epcs) tid s1 = (Inr raw, s')"
    using assms(2) by (auto simp: SendGet_def 1 split: if_splits prod.splits sum.splits)
  from send_response [OF next_ok [OF assms(1) 1] this] show ?thesis by (simp add: response_ok_def)
qed

lemma get_part_inv:
  assumes "\<And>part s r s'. ok s \<Longrightarrow> getPropsAdaptive tr addr eoj part (Suc depth) s = (r, s') \<Longrightarrow> ok s'"
    and "ok (snd ms)"
  shows "ok (snd (get_part tr addr eoj depth part missing ms))"
  using assms by (auto simp: get_part_def merge_part_def split: prod.splits sum.splits)

lemma getProps_ok:
  "getPropsAdaptive tr addr eoj epcs depth s = (r, s') \<Longrightarrow> ok s \<Longrightarrow> ok s'"
proof (induction "Suc maxAdaptiveSplitDepth - depth" arbitrary: depth epcs s r s' rule: less_induct)
  case less
  from less.prems(1) show ?case
  proof (cases rule: getProps_cases)
    case (send e)
    show ?thesis by (rule SendGet_ok [OF less.prems(2) send(1)])
  next
    case (service raw e)
    show ?thesis by (rule SendGet_ok [OF less.prems(2) service(1)])
  next
    case (plain raw props)
    show ?thesis by (rule SendGet_ok [OF less.prems(2) plain(1)])
  next
    case (split raw props s1 ms)
    have IH: "ok s \<Longrightarrow> getPropsAdaptive tr addr eoj part (Suc depth) s = (r, s') \<Longrightarrow> ok s'" for part s r s'
      by (rule less.hyps) (use split(4) in auto)
    have "ok s1" by (rule SendGet_ok [OF less.prems(2) split(1)])
    then have "ok (snd (get_part tr addr eoj depth (fst (splitEPCs epcs)) (missingEPCs epcs props) (propsToMap props, s1)))"
      by (intro get_part_inv) (rule IH, assumption+, simp)
    then show ?thesis unfolding split(6,7) by (rule get_part_inv [rotated]) (rule IH)
  qed
qed

end

text \<open>No error of \<open>GetProps\<close> is a Get_SNA: the code turns it into what the device did return.\<close>

lemma SendGet_error: "SendGet tr addr eoj epcs s = (Inl e, s') \<Longrightarrow> \<not> isGetSNA (Some e)"
  by (auto simp: SendGet_def isGetSNA_def split: if_splits prod.splits sum.splits)

lemma getProps_error:
  assumes "getPropsAdaptive tr addr eoj epcs depth s = (Inl e, s')"
  shows "\<not> isGetSNA (Some e)"
  using assms
proof (cases rule: getProps_cases)
  case (send e')
  then show ?thesis using SendGet_error [OF send(1)] by simp
next
  case (split raw props s1 ms)
  then show ?thesis by (auto simp: isGetSNA_def split: if_splits)
qed auto

text \<open>The merged map: well-formed, and only ever gaining codes.\<close>

lemma get_part_map:
  assumes "props_map_ok (fst ms)"
  shows "props_map_ok (fst (get_part tr addr eoj depth part missing ms))"
    "dom (map_of (fst ms)) \<subseteq> dom (map_of (fst (get_part tr addr eoj depth part missing ms)))"
  using assms by (auto simp: get_part_def merge_part_def intro: mergeProps_ok split: prod.splits sum.splits)

lemma getProps_split_sorted:
  assumes "getPropsAdaptive tr addr eoj epcs depth s = (Inr ps, s')"
    and "SendGet tr addr eoj epcs s = (Inr raw, s1)" "accepted raw props"
    and "missingEPCs epcs props \<noteq> []" "2 \<le> length epcs" "depth < maxAdaptiveSplitDepth"
  shows "sorted (map (\<lambda>p. unat (p_EPC p)) ps)" "distinct (map p_EPC ps)" "p_EPC ` set props \<subseteq> p_EPC ` set ps"
proof -
  have uniq: "props' = props" if "accepted raw props'" for props'
    using that assms(3) by (auto simp: accepted_def)
  from assms(1) have "sorted (map (\<lambda>p. unat (p_EPC p)) ps) \<and> distinct (map p_EPC ps)
      \<and> p_EPC ` set props \<subseteq> p_EPC ` set ps"
  proof (cases rule: getProps_cases)
    case (split raw' props' s1' ms)
    have eq: "props' = props" using uniq split(1,2) assms(2) by simp
    have m0: "props_map_ok (propsToMap props')" "dom (map_of (propsToMap props')) = p_EPC ` set props'"
      by (auto simp: propsToMap_merge intro: mergeProps_ok)
    have ok: "props_map_ok (fst ms)" "p_EPC ` set props' \<subseteq> dom (map_of (fst ms))"
      unfolding split(6) m0(2) [symmetric]
      by (intro get_part_map(1), simp add: m0)
        (intro order_trans [OF _ get_part_map(2)] get_part_map(1); simp add: m0)
    have "ps = mapToProps (fst ms)" using split(8) by (auto split: if_splits)
    then show ?thesis using mapToProps_sorted [OF ok(1)] codes_mapToProps [OF ok(1)] ok(2) eq by simp
  next
    case (plain raw' props')
    have "props' = props" using uniq plain(1,2) assms(2) by simp
    with plain(4) assms(4-6) show ?thesis by simp
  qed (use assms(2,3) in simp_all)
  then show "sorted (map (\<lambda>p. unat (p_EPC p)) ps)" "distinct (map p_EPC ps)"
    "p_EPC ` set props \<subseteq> p_EPC ` set ps" by auto
qed

text \<open>Splitting in halves sends at most \<open>2 n - 1\<close> requests for \<open>n\<close> codes.\<close>

definition counts_sends :: "'s transport_ops \<Rightarrow> nat \<Rightarrow> ('s \<Rightarrow> nat) \<Rightarrow> bool" where
  "counts_sends tr k f \<longleftrightarrow> (\<forall>s. f (snd (x_NextTID tr s)) \<le> f s)
     \<and> (\<forall>addr req tid s. f (snd (x_Send tr addr req tid s)) \<le> f s + k)"

lemma SendGet_count:
  assumes "counts_sends tr k f" "SendGet tr addr eoj epcs s = (r, s')"
  shows "f s' \<le> f s + k"
proof (cases "epcs = []")
  case False
  obtain tid s1 where 1: "x_NextTID tr s = (tid, s1)" by force
  obtain q s2 where 2: "x_Send tr addr (GetRequest tid eoj epcs) tid s1 = (q, s2)" by force
  have "f (snd (x_NextTID tr s)) \<le> f s" "f (snd (x_Send tr addr (GetRequest tid eoj epcs) tid s1)) \<le> f s1 + k"
    using assms(1) unfolding counts_sends_def by blast+
  moreover have "s' = s2" using assms(2) False by (simp add: SendGet_def 1 2 split: sum.splits)
  ultimately show ?thesis using 1 2 by simp
qed (use assms(2) in \<open>simp add: SendGet_def\<close>)

lemma getProps_count:
  assumes "counts_sends tr k f"
  shows "getPropsAdaptive tr addr eoj epcs depth s = (r, s') \<Longrightarrow> epcs \<noteq> [] \<Longrightarrow>
    f s' \<le> f s + k * (2 * length epcs - 1)"
proof (induction "Suc maxAdaptiveSplitDepth - depth" arbitrary: depth epcs s r s' rule: less_induct)
  case less
  have one: "f s1 \<le> f s + k" if "SendGet tr addr eoj epcs s = (q, s1)" for q s1
    by (rule SendGet_count [OF assms that])
  have ge: "k \<le> k * (2 * length epcs - 1)" using less.prems(2) by (cases epcs) auto
  from less.prems(1) show ?case
  proof (cases rule: getProps_cases)
    case (split raw props s1 ms)
    let ?l = "fst (splitEPCs epcs)" and ?r = "snd (splitEPCs epcs)" and ?m = "missingEPCs epcs props"
    note sp = splitEPCs_spec [OF split(3)]
    have part: "f (snd (get_part tr addr eoj depth part ?m ms0)) \<le> f (snd ms0) + k * (2 * length part - 1)"
      if "part \<noteq> []" for part ms0
    proof -
      obtain q s2 where 2: "getPropsAdaptive tr addr eoj part (Suc depth) (snd ms0) = (q, s2)" by force
      have "f s2 \<le> f (snd ms0) + k * (2 * length part - 1)"
        by (rule less.hyps [OF _ 2 that]) (use split(4) in auto)
      then show ?thesis by (cases q) (auto simp: get_part_def merge_part_def 2)
    qed
    let ?ms1 = "get_part tr addr eoj depth ?l ?m (propsToMap props, s1)"
    have "f s' \<le> f (snd ?ms1) + k * (2 * length ?r - 1)" unfolding split(6,7) by (rule part [OF sp(3)])
    also have "f (snd ?ms1) \<le> f s1 + k * (2 * length ?l - 1)" using part [OF sp(2), of "(propsToMap props, s1)"] by simp
    also have "f s1 \<le> f s + k" by (rule one [OF split(1)])
    finally have "f s' \<le> f s + k * (1 + (2 * length ?l - 1) + (2 * length ?r - 1))"
      by (simp add: algebra_simps)
    also have "1 + (2 * length ?l - 1) + (2 * length ?r - 1) = 2 * length epcs - 1"
    proof -
      have "length epcs = length ?l + length ?r" using sp(1) by (metis length_append)
      moreover have "0 < length ?l" "0 < length ?r" using sp(2,3) by auto
      ultimately show ?thesis by arith
    qed
    finally show ?thesis .
  next
    case (send e)
    show ?thesis by (rule order_trans [OF one [OF send(1)]]) (rule add_left_mono [OF ge])
  next
    case (service raw e)
    show ?thesis by (rule order_trans [OF one [OF service(1)]]) (rule add_left_mono [OF ge])
  next
    case (plain raw props)
    show ?thesis by (rule order_trans [OF one [OF plain(1)]]) (rule add_left_mono [OF ge])
  qed
qed

text \<open>
  What a device owes: a well-formed Get_Res or Get_SNA to every request, and the property when it
  is asked for one code of \<open>R\<close> alone. Nothing is assumed of what it returns for several codes.
\<close>

definition answers_singly ::
  "'s transport_ops \<Rightarrow> string \<Rightarrow> eoj \<Rightarrow> byte set \<Rightarrow> ('s \<Rightarrow> bool) \<Rightarrow> bool" where
  "answers_singly tr addr eoj R I \<longleftrightarrow>
     (\<forall>s epcs. I s \<longrightarrow> epcs \<noteq> [] \<longrightarrow>
        (\<exists>raw props s'. SendGet tr addr eoj epcs s = (Inr raw, s') \<and> I s' \<and> accepted raw props
           \<and> (\<forall>e \<in> R. epcs = [e] \<longrightarrow> e \<in> p_EPC ` set props)))"

lemma accepted_unique: "accepted raw ps \<Longrightarrow> accepted raw ps' \<Longrightarrow> ps' = ps"
  by (auto simp: accepted_def)

lemma getProps_recovers:
  assumes dev: "answers_singly tr addr eoj R I"
  shows "getPropsAdaptive tr addr eoj epcs depth s = (r, s') \<Longrightarrow> I s \<Longrightarrow> epcs \<noteq> [] \<Longrightarrow>
    depth \<le> 8 \<Longrightarrow> length epcs \<le> 2 ^ (8 - depth) \<Longrightarrow>
    I s' \<and> (\<forall>e \<in> set epcs \<inter> R. \<exists>ps. r = Inr ps \<and> e \<in> p_EPC ` set ps)"
proof (induction "Suc maxAdaptiveSplitDepth - depth" arbitrary: depth epcs s r s' rule: less_induct)
  case less
  obtain raw0 props0 s0 where ans: "SendGet tr addr eoj epcs s = (Inr raw0, s0)" "I s0" "accepted raw0 props0"
    "\<forall>e \<in> R. epcs = [e] \<longrightarrow> e \<in> p_EPC ` set props0"
    using dev [unfolded answers_singly_def, rule_format, OF less.prems(2,3)] by blast
  from less.prems(1) show ?case
  proof (cases rule: getProps_cases)
    case (plain raw props)
    have eq: "props = props0" "s' = s0" using plain(1,2) ans(1,3) accepted_unique by auto
    have "e \<in> p_EPC ` set props0" if "e \<in> set epcs \<inter> R" for e
    proof (cases "length epcs \<le> 1")
      case True
      with that less.prems(3) have "epcs = [e]" by (cases epcs) auto
      with ans(4) that show ?thesis by blast
    next
      case False
      with less.prems(4,5) have "depth \<noteq> 8" by auto
      with less.prems(4) have "\<not> maxAdaptiveSplitDepth \<le> depth" by simp
      with plain(4) False have "missingEPCs epcs props0 = []" unfolding eq by blast
      with that show ?thesis by (auto simp: missingEPCs_Nil)
    qed
    with ans(2) plain(3) show ?thesis unfolding eq by blast
  next
    case (split raw props s1 ms)
    have eq: "props = props0" "s1 = s0" using split(1,2) ans(1,3) accepted_unique by auto
    let ?l = "fst (splitEPCs epcs)" and ?r = "snd (splitEPCs epcs)" and ?m = "missingEPCs epcs props"
    note sp = splitEPCs_spec [OF split(3)]
    have "(2 :: nat) ^ (8 - depth) = 2 * 2 ^ (8 - Suc depth)"
      using split(4) by (metis Suc_diff_Suc power_Suc)
    then have len: "length ?l \<le> 2 ^ (8 - Suc depth)" "length ?r \<le> 2 ^ (8 - Suc depth)"
      using sp(4) less.prems(5) by auto
    have part: "I (snd (get_part tr addr eoj depth part ?m ms0))
        \<and> (\<forall>e \<in> set part \<inter> R. e \<in> dom (map_of (fst (get_part tr addr eoj depth part ?m ms0))))"
      if "part \<noteq> []" "set part \<subseteq> set epcs" "length part \<le> 2 ^ (8 - Suc depth)" "I (snd ms0)"
        "p_EPC ` set props \<subseteq> dom (map_of (fst ms0))" for part ms0
    proof (cases "containsAny part ?m")
      case False
      have "e \<in> p_EPC ` set props" if "e \<in> set part" for e
        using that False \<open>set part \<subseteq> set epcs\<close> by (auto simp: containsAny_iff missingEPCs_def)
      moreover have "get_part tr addr eoj depth part ?m ms0 = ms0" using False by (simp add: get_part_def)
      ultimately show ?thesis using that(4,5) by (simp only:) blast
    next
      case True
      obtain q s2 where 2: "getPropsAdaptive tr addr eoj part (Suc depth) (snd ms0) = (q, s2)" by force
      have IH: "I s2 \<and> (\<forall>e \<in> set part \<inter> R. \<exists>ps. q = Inr ps \<and> e \<in> p_EPC ` set ps)"
        by (rule less.hyps [OF _ 2 that(4,1) _ that(3)]) (use split(4) in auto)
      show ?thesis
      proof (cases q)
        case (Inl x)
        with IH True that(1) show ?thesis by (auto simp: get_part_def merge_part_def 2)
      next
        case (Inr ps)
        then have gp: "get_part tr addr eoj depth part ?m ms0 = (mergeProps (fst ms0) ps, s2)"
          using True that(1) by (simp add: get_part_def merge_part_def 2)
        show ?thesis unfolding gp using IH Inr by auto
      qed
    qed
    define ms1 where "ms1 = get_part tr addr eoj depth ?l ?m (propsToMap props, s1)"
    have m0: "props_map_ok (propsToMap props)" "dom (map_of (propsToMap props)) = p_EPC ` set props"
      by (auto simp: propsToMap_merge intro: mergeProps_ok)
    have sub: "set ?l \<subseteq> set epcs" "set ?r \<subseteq> set epcs" "set epcs = set ?l \<union> set ?r"
      using sp(1) by (metis Un_upper1 set_append, metis Un_upper2 set_append, metis set_append)
    have 1: "I (snd ms1)" "\<forall>e \<in> set ?l \<inter> R. e \<in> dom (map_of (fst ms1))"
      using part [OF sp(2) sub(1) len(1), of "(propsToMap props, s1)"] ans(2) m0(2) eq
      unfolding ms1_def by auto
    have k1: "props_map_ok (fst ms1)" "p_EPC ` set props \<subseteq> dom (map_of (fst ms1))"
      using get_part_map [of "(propsToMap props, s1)"] m0 unfolding ms1_def by auto
    have ms: "ms = get_part tr addr eoj depth ?r ?m ms1" unfolding split(6) ms1_def ..
    have 2: "I (snd ms)" "\<forall>e \<in> set ?r \<inter> R. e \<in> dom (map_of (fst ms))"
      using part [OF sp(3) sub(2) len(2) 1(1) k1(2)] unfolding ms by auto
    have k2: "props_map_ok (fst ms)" "dom (map_of (fst ms1)) \<subseteq> dom (map_of (fst ms))"
      using get_part_map [OF k1(1)] unfolding ms by auto
    have "\<exists>ps. r = Inr ps \<and> e \<in> p_EPC ` set ps" if "e \<in> set epcs \<inter> R" for e
    proof -
      have "e \<in> dom (map_of (fst ms))" using that sub(3) 1(2) 2(2) k2(2) by blast
      then have "e \<in> p_EPC ` set (mapToProps (fst ms))" using codes_mapToProps [OF k2(1)] by simp
      then show ?thesis unfolding split(8) by auto
    qed
    with 2(1) split(7) show ?thesis by blast
  qed (use ans accepted_unique in auto)
qed

lemma get_part_values:
  assumes "\<And>part s r s' ps p. getPropsAdaptive tr addr eoj part (Suc depth) s = (Inr ps, s') \<Longrightarrow> p \<in> set ps \<Longrightarrow> Q p"
    and "map_of (fst (get_part tr addr eoj depth part missing ms)) k = Some p"
  shows "Q p \<or> map_of (fst ms) k = Some p"
proof (cases "part = [] \<or> \<not> containsAny part missing")
  case True
  with assms(2) show ?thesis by (auto simp: get_part_def)
next
  case False
  obtain q s2 where q: "getPropsAdaptive tr addr eoj part (Suc depth) (snd ms) = (q, s2)" by force
  have gp: "get_part tr addr eoj depth part missing ms = merge_part (fst ms) (q, s2)"
    unfolding get_part_def if_not_P [OF False] q ..
  show ?thesis
  proof (cases q)
    case (Inl e)
    with assms(2) gp show ?thesis by (simp add: merge_part_def)
  next
    case (Inr ps)
    have "map_of (mergeProps (fst ms) ps) k = Some p" using assms(2) gp Inr by (simp add: merge_part_def)
    from mergeProps_cases [OF this] show ?thesis using assms(1) [OF q [unfolded Inr]] by blast
  qed
qed

lemma getProps_prop_ok:
  "getPropsAdaptive tr addr eoj epcs depth s = (Inr ps, s') \<Longrightarrow> p \<in> set ps \<Longrightarrow> prop_ok p"
proof (induction "Suc maxAdaptiveSplitDepth - depth" arbitrary: depth epcs s ps s' p rule: less_induct)
  case less
  from less.prems(1) show ?case
  proof (cases rule: getProps_cases)
    case (plain raw props)
    with less.prems(2) accepted_prop_ok show ?thesis by blast
  next
    case (split raw props s1 ms)
    have IH: "prop_ok q" if "getPropsAdaptive tr addr eoj part (Suc depth) s = (Inr qs, s')" "q \<in> set qs" for part s qs s' q
      by (rule less.hyps [OF _ that]) (use split(4) in auto)
    have ok: "props_map_ok (fst ms)"
      unfolding split(6) by (intro get_part_map(1)) (simp add: propsToMap_merge mergeProps_ok)
    have "ps = mapToProps (fst ms)" using split(8) by (auto split: if_splits)
    then have "map_of (fst ms) (p_EPC p) = Some p" using less.prems(2) set_mapToProps [OF ok] by simp
    then have "prop_ok p \<or> map_of (fst (get_part tr addr eoj depth (fst (splitEPCs epcs)) (missingEPCs epcs props)
        (propsToMap props, s1))) (p_EPC p) = Some p"
      unfolding split(6) by (rule get_part_values [of tr addr eoj depth prop_ok, rotated]) (rule IH)
    then have "prop_ok p \<or> map_of (propsToMap props) (p_EPC p) = Some p"
    proof
      assume "map_of (fst (get_part tr addr eoj depth (fst (splitEPCs epcs)) (missingEPCs epcs props)
        (propsToMap props, s1))) (p_EPC p) = Some p"
      then have "prop_ok p \<or> map_of (fst (propsToMap props, s1)) (p_EPC p) = Some p"
        by (rule get_part_values [of tr addr eoj depth prop_ok, rotated]) (rule IH)
      then show ?thesis by simp
    qed simp
    moreover have "p \<in> set props" if "map_of (propsToMap props) (p_EPC p) = Some p"
      using mergeProps_cases [of "[]" props "p_EPC p" p] that by (simp add: propsToMap_merge)
    ultimately show ?thesis using accepted_prop_ok [OF split(2)] by blast
  qed simp_all
qed

lemma udp_counts_sends:
  assumes "counts_writes net f"
  shows "counts_sends (udp_transport net caller timeout) 5 (\<lambda>s. f (snd s))"
proof -
  have "f (snd (snd (Send net caller addr req tid timeout s))) \<le> f (snd s) + 5" for addr req tid s
    by (cases s; cases "Send net caller addr req tid timeout s") (auto dest: writes_Send [OF assms])
  then show ?thesis by (auto simp: counts_sends_def udp_transport_def NextTID_def Let_def split: prod.splits)
qed

lemma metric_step_other: "n \<noteq> m_Name m \<Longrightarrow> map_of (metric_step oor log10f props m out) n = map_of out n"
  by (simp add: metric_step_def Let_def split: option.splits sum.splits)

lemma metric_step_own:
  "map_of out (m_Name m) = None \<Longrightarrow>
    map_of (metric_step oor log10f props m out) (m_Name m) = map_of (metric_step oor log10f props m []) (m_Name m)"
  by (simp add: metric_step_def Let_def split: option.splits sum.splits)

lemma fold_metrics_other:
  "n \<notin> m_Name ` set ms \<Longrightarrow> map_of (fold (metric_step oor log10f props) ms out) n = map_of out n"
  by (induction ms arbitrary: out) (auto simp: metric_step_other)

lemma fold_metrics_own:
  "distinct (map m_Name ms) \<Longrightarrow> m \<in> set ms \<Longrightarrow> map_of out (m_Name m) = None \<Longrightarrow>
    map_of (fold (metric_step oor log10f props) ms out) (m_Name m)
      = map_of (metric_step oor log10f props m []) (m_Name m)"
proof (induction ms arbitrary: out)
  case (Cons a ms)
  show ?case
  proof (cases "m = a")
    case True
    with Cons.prems metric_step_own [of out a oor log10f props] show ?thesis by (simp add: fold_metrics_other)
  next
    case False
    then have "m_Name a \<noteq> m_Name m" using Cons.prems by force
    with Cons False show ?thesis by (simp add: metric_step_other)
  qed
qed simp

text \<open>The entry of one metric in a parsed response.\<close>

lemma ParsePropsToMetrics_ok: "gomap_ok (ParsePropsToMetrics oor log10f props ms)"
proof -
  have "gomap_ok out \<Longrightarrow> gomap_ok (fold (metric_step oor log10f props) ms out)" for out
    by (induction ms arbitrary: out) (auto simp: metric_step_def Let_def split: option.splits sum.splits)
  then show ?thesis by (simp add: ParsePropsToMetrics_def)
qed

definition enum_label :: "(float64 \<Rightarrow> int) \<Rightarrow> MetricSpec \<Rightarrow> float64 \<Rightarrow> string" where
  "enum_label oor m v =
     (if m_Enum m \<noteq> [] then (case map_of (m_Enum m) (f_to_int64 oor v) of Some l \<Rightarrow> l | None \<Rightarrow> []) else [])"

lemma parsed_metric:
  assumes "distinct (map m_Name ms)" "m \<in> set ms" "find_prop props (m_EPC m) = Some edt"
    and "parseEDTWithReason oor log10f edt m = Inr v"
  shows "map_of (ParsePropsToMetrics oor log10f props ms) (m_Name m)
    = Some \<lparr>mv_Value = apply_multiplier props m v, mv_Type = m_Type m,
            mv_EnumLabel = enum_label oor m (apply_multiplier props m v)\<rparr>"
  using fold_metrics_own [OF assms(1,2), of "[]" oor log10f props] assms(3,4)
  by (simp add: ParsePropsToMetrics_def metric_step_def enum_label_def Let_def)

section \<open>Properties\<close>

text \<open>C22: recovery from partial responses. If a device answers every request with a well-formed
  Get_Res or Get_SNA, and returns a property of \<open>R\<close> whenever it is asked for that code alone, then
  a request for up to 256 codes finds every requested code of \<open>R\<close>, whatever the device returned
  for several codes at once.\<close>

theorem get_props_recovers:
  assumes "answers_singly tr addr eoj R I" "I s" "epcs \<noteq> []" "length epcs \<le> 256" "e \<in> set epcs \<inter> R"
  shows "\<exists>ps. fst (GetProps tr addr eoj epcs s) = Inr ps \<and> e \<in> p_EPC ` set ps"
proof -
  obtain r s' where r: "getPropsAdaptive tr addr eoj epcs 0 s = (r, s')" by force
  have "length epcs \<le> 2 ^ (8 - 0)" using assms(4) by simp
  from getProps_recovers [OF assms(1) r assms(2,3) _ this] assms(5) show ?thesis
    by (simp add: GetProps_def r)
qed

text \<open>A device that answers one code at a time, and a longer request with an empty Get_SNA.\<close>

definition one_at_a_time :: "16 word transport_ops" where
  "one_at_a_time =
     \<lparr>x_NextTID = (\<lambda>n. (n + 1, n + 1)),
      x_Send = (\<lambda>addr req tid n.
        (case parseFrame req of
           Inr (_, _, [p]) \<Rightarrow>
             Inr (frame_of tid (0x01, 0x30, 0x01) controller 0x72 [\<lparr>p_EPC = p_EPC p, p_PDC = 1, p_EDT = [0x30]\<rparr>])
         | _ \<Rightarrow> Inr (frame_of tid (0x01, 0x30, 0x01) controller 0x52 []), n)),
      x_FireAndForget = (\<lambda>_ _ n. (None, n))\<rparr>"

lemma get_request_single:
  "parseFrame (GetRequest tid eoj [e]) = Inr (tid, esvGet, [\<lparr>p_EPC = e, p_PDC = 0, p_EDT = []\<rparr>])"
  unfolding GetRequest_frame by (subst parseFrame_frame_of) (simp_all add: prop_ok_def)

lemma one_at_a_time_answers: "answers_singly one_at_a_time addr eoj UNIV (\<lambda>_. True)"
  unfolding answers_singly_def
proof (intro allI impI, goal_cases)
  case (1 n epcs)
  show ?case
  proof (cases "\<exists>t v p. parseFrame (GetRequest (n + 1) eoj epcs) = Inr (t, v, [p])")
    case True
    then obtain t v p where pf: "parseFrame (GetRequest (n + 1) eoj epcs) = Inr (t, v, [p])" by blast
    let ?q = "\<lparr>p_EPC = p_EPC p, p_PDC = 1, p_EDT = [0x30]\<rparr>"
    let ?raw = "frame_of (n + 1) (0x01, 0x30, 0x01) controller 0x72 [?q]"
    have "accepted ?raw [?q]"
      using parseFrame_frame_of [of "[?q]" "n + 1" "(0x01, 0x30, 0x01)" controller "0x72"]
      by (auto simp: accepted_def prop_ok_def)
    moreover have "e = p_EPC p" if "epcs = [e]" for e
      using pf get_request_single [of "n + 1" eoj e] that by auto
    ultimately show ?thesis
      using 1 pf by (auto simp: SendGet_def one_at_a_time_def intro!: exI [of _ ?raw] exI [of _ "[?q]"])
  next
    case False
    let ?raw = "frame_of (n + 1) (0x01, 0x30, 0x01) controller 0x52 []"
    have "accepted ?raw []"
      using parseFrame_frame_of [of "[]" "n + 1" "(0x01, 0x30, 0x01)" controller "0x52"]
      by (auto simp: accepted_def)
    moreover have "x_Send one_at_a_time addr (GetRequest (n + 1) eoj epcs) (n + 1) (n + 1) = (Inr ?raw, n + 1)"
      using False by (auto simp: one_at_a_time_def split: sum.splits list.splits)
    then have "SendGet one_at_a_time addr eoj epcs n = (Inr ?raw, n + 1)"
      using 1 by (simp add: SendGet_def one_at_a_time_def)
    moreover have "epcs \<noteq> [e]" for e using False get_request_single [of "n + 1" eoj e] by auto
    ultimately show ?thesis
      by (intro exI [of _ ?raw] exI [of _ "[] :: Property list"] exI [of _ "n + 1"]) simp
  qed
qed

theorem get_props_recovers_witness:
  "\<exists>ps. fst (GetProps one_at_a_time ''h'' (0x01, 0x30, 0x01) [0x80, 0xB0, 0xB3] 0) = Inr ps
    \<and> 0xB0 \<in> p_EPC ` set ps"
  by (rule get_props_recovers [OF one_at_a_time_answers]) simp_all

text \<open>C23: a request for \<open>n\<close> codes, with all its splitting, retries and fallbacks, writes at most
  \<open>5 (2 n - 1)\<close> datagrams on the network.\<close>

theorem get_props_datagram_bound:
  assumes "counts_writes net f" "epcs \<noteq> []"
    and "GetProps (udp_transport net caller timeout) addr eoj epcs s = (r, s')"
  shows "f (snd s') \<le> f (snd s) + 5 * (2 * length epcs - 1)"
  using getProps_count [OF udp_counts_sends [OF assms(1)] _ assms(2)] assms(3) unfolding GetProps_def by blast

theorem get_props_datagram_bound_witness:
  "snd (snd (GetProps (udp_transport (echo_net ''h'' []) [] second) ''h'' (1, 2, 3) [0x80, 0xB0] (NewTransport False, 0)))
    \<le> 15"
proof -
  let ?r = "GetProps (udp_transport (echo_net ''h'' []) [] second) ''h'' (1, 2, 3) [0x80, 0xB0] (NewTransport False, 0)"
  have "counts_writes (echo_net ''h'' []) (\<lambda>k. k)" by (simp add: counts_writes_def echo_net_def)
  from get_props_datagram_bound [OF this, of "[0x80, 0xB0]" "[]" second "''h''" "(1, 2, 3)" "(NewTransport False, 0)"
      "fst ?r" "snd ?r"]
  show ?thesis by simp
qed

text \<open>C24: over the UDP transport, what \<open>GetProps\<close> returns are properties whose data has the length
  they announce, and the transport's invariant holds afterwards, whatever the devices send.\<close>

theorem get_props_well_formed:
  assumes "transport_ok (fst s)"
    and "GetProps (udp_transport net caller timeout) addr eoj epcs s = (r, s')"
  shows "transport_ok (fst s') \<and> (\<forall>ps. r = Inr ps \<longrightarrow> (\<forall>p \<in> set ps. length (p_EDT p) = unat (p_PDC p)))"
proof (intro conjI allI impI ballI)
  show "transport_ok (fst s')" by (rule udp.getProps_ok [OF assms(2) [unfolded GetProps_def] assms(1)])
  fix ps p
  assume "r = Inr ps" "p \<in> set ps"
  have "prop_ok p"
    by (rule getProps_prop_ok [OF assms(2) [unfolded GetProps_def \<open>r = Inr ps\<close>] \<open>p \<in> set ps\<close>])
  then show "length (p_EDT p) = unat (p_PDC p)" by (simp add: prop_ok_def)
qed

theorem get_props_well_formed_witness:
  "transport_ok (fst (snd (GetProps (udp_transport (echo_net ''h'' []) [] second) ''h'' (1, 2, 3) [0x80]
     (NewTransport False, 0))))"
proof -
  let ?r = "GetProps (udp_transport (echo_net ''h'' []) [] second) ''h'' (1, 2, 3) [0x80] (NewTransport False, 0)"
  have "transport_ok (fst (NewTransport False, 0 :: nat))" by (simp add: NewTransport_ok)
  from get_props_well_formed [OF this, of "echo_net ''h'' []" "[]" second "''h''" "(1, 2, 3)" "[0x80]" "fst ?r" "snd ?r"]
  show ?thesis by simp
qed

text \<open>\<open>GetProps\<close> never fails with a Get_SNA, for any device and any state: a caller that asks
  whether its error is a Get_SNA is always told no.\<close>

theorem get_props_hides_sna:
  "\<not> (\<exists>e. fst (GetProps tr addr eoj epcs s) = Inl e \<and> isGetSNA (Some e))"
  using getProps_error by (metis GetProps_def prod.collapse)

text \<open>If a device answers the request for its readable property map with the map of a set of
  codes above 0x80, the client returns exactly that set.\<close>

theorem readable_map_from_device:
  assumes "x_NextTID tr s = (tid, s1)"
    and "x_Send tr addr (GetRequest tid eoj [0x9F]) tid s1 = (Inr (frame_of tid seoj deoj 0x72
           [\<lparr>p_EPC = 0x9F, p_PDC = 17, p_EDT = encode_property_map S\<rparr>]), s')"
    and "\<forall>e \<in> S. 0x80 \<le> unat e"
  shows "GetReadablePropertyMap tr addr eoj s = (Inr S, s')"
proof -
  let ?p = "\<lparr>p_EPC = 0x9F, p_PDC = 17, p_EDT = encode_property_map S\<rparr>"
  have len: "length (encode_property_map S) = 17" by (simp add: encode_property_map_def)
  have pf: "parseFrame (frame_of tid seoj deoj 0x72 [?p]) = Inr (tid, 0x72, [?p])"
    by (rule parseFrame_frame_of) (simp_all add: prop_ok_def len)
  have "GetProps tr addr eoj [0x9F] s = (Inr [?p], s')"
    unfolding GetProps_def getPropsAdaptive.simps [of tr addr eoj "[0x9F]"]
    by (simp add: SendGet_def assms(1,2) ParseGetRes_def pf isGetSNA_def missingEPCs_def Let_def)
  then show ?thesis using len decode_encode_property_map [OF assms(3)]
    by (auto simp: GetReadablePropertyMap_def)
qed

theorem readable_map_from_device_witness:
  "GetReadablePropertyMap
     \<lparr>x_NextTID = (\<lambda>k. (5, k)),
       x_Send = (\<lambda>addr req tid k. (Inr (frame_of tid (1, 0x30, 1) controller 0x72
         [\<lparr>p_EPC = 0x9F, p_PDC = 17, p_EDT = encode_property_map {0x80, 0xE0}\<rparr>]), Suc k)),
       x_FireAndForget = (\<lambda>addr req k. (None, k))\<rparr> ''h'' (1, 0x30, 1) 0 = (Inr {0x80, 0xE0}, 1)"
  by (rule readable_map_from_device [where tid = 5]) simp_all

text \<open>Each metric of a response is computed on its own: with distinct metric names, the entry of a
  metric depends on no other metric of the specification, and no other name has an entry.\<close>

theorem metrics_independent:
  assumes "distinct (map m_Name metrics)" "m \<in> set metrics"
  shows "map_of (ParsePropsToMetrics oor log10f props metrics) (m_Name m)
      = map_of (ParsePropsToMetrics oor log10f props [m]) (m_Name m)
    \<and> gokeys (ParsePropsToMetrics oor log10f props metrics) \<subseteq> m_Name ` set metrics"
proof -
  have "n \<in> m_Name ` set metrics" if "n \<in> gokeys (ParsePropsToMetrics oor log10f props metrics)" for n
  proof (rule ccontr)
    assume "n \<notin> m_Name ` set metrics"
    then have "map_of (ParsePropsToMetrics oor log10f props metrics) n = None"
      by (simp add: ParsePropsToMetrics_def fold_metrics_other)
    with that show False by (simp add: map_of_eq_None_iff)
  qed
  moreover have "map_of (ParsePropsToMetrics oor log10f props metrics) (m_Name m)
      = map_of (ParsePropsToMetrics oor log10f props [m]) (m_Name m)"
    using fold_metrics_own [OF assms, of "[]" oor log10f props] by (simp add: ParsePropsToMetrics_def)
  ultimately show ?thesis by blast
qed

theorem metrics_independent_witness:
  "map_of (ParsePropsToMetrics (\<lambda>_. 0) (\<lambda>x. x) [\<lparr>p_EPC = 0x80, p_PDC = 1, p_EDT = [0x30]\<rparr>]
       [zero_metric\<lparr>m_Name := ''on'', m_EPC := 0x80, m_Size := 1, m_Scale := Fin 1\<rparr>, zero_metric\<lparr>m_Name := ''b''\<rparr>]) ''on''
   = map_of (ParsePropsToMetrics (\<lambda>_. 0) (\<lambda>x. x) [\<lparr>p_EPC = 0x80, p_PDC = 1, p_EDT = [0x30]\<rparr>]
       [zero_metric\<lparr>m_Name := ''on'', m_EPC := 0x80, m_Size := 1, m_Scale := Fin 1\<rparr>]) ''on''"
  using metrics_independent [of "[zero_metric\<lparr>m_Name := ''on'', m_EPC := 0x80, m_Size := 1, m_Scale := Fin 1\<rparr>, zero_metric\<lparr>m_Name := ''b''\<rparr>]"
      "zero_metric\<lparr>m_Name := ''on'', m_EPC := 0x80, m_Size := 1, m_Scale := Fin 1\<rparr>" "\<lambda>_. 0" "\<lambda>x. x"
      "[\<lparr>p_EPC = 0x80, p_PDC = 1, p_EDT = [0x30]\<rparr>]"] by simp

end
