(* ===== verification/Notification.thy ===== *)
theory Notification
  imports Transport
begin

text \<open>
  \<open>internal/echonet/notification.go\<close>: the handler of unsolicited frames. Its state is the set of
  known device addresses; handling a frame returns what it does, in order: the acknowledgement it
  writes on the shared socket and the call of the callback. The lemmas show which datagrams reach
  the callback, from the receiver of the transport on.
\<close>

record NotificationHandler =
  h_devices :: "string set"
  h_hasCallback :: bool

datatype notif_action =
    SendINFCRes UDPAddr bytes
  | Callback string eoj "Property list"

definition NewNotificationHandler :: "bool \<Rightarrow> NotificationHandler" where
  "NewNotificationHandler cb = \<lparr>h_devices = {}, h_hasCallback = cb\<rparr>"

definition RegisterDevice :: "string \<Rightarrow> NotificationHandler \<Rightarrow> NotificationHandler" where
  "RegisterDevice ip h = h\<lparr>h_devices := insert ip (h_devices h)\<rparr>"

text \<open>\<open>conn\<close> is the transport's \<open>FixedConn()\<close>: without one, no acknowledgement is sent.\<close>

definition sendINFCRes :: "nat option \<Rightarrow> UDPAddr \<Rightarrow> INFFrame \<Rightarrow> notif_action list" where
  "sendINFCRes conn addr fr =
     (case conn of None \<Rightarrow> [] | Some _ \<Rightarrow> [SendINFCRes addr (BuildINFCRes fr)])"

definition handleFrame :: "NotificationHandler \<Rightarrow> nat option \<Rightarrow> UDPFrame \<Rightarrow> notif_action list" where
  "handleFrame h conn frame =
     (case u_From frame of
        None \<Rightarrow> []
      | Some addr \<Rightarrow>
          let ip = ip_string (a_IP addr)
          in case ParseINFFrame (u_Data frame) of
               Inl _ \<Rightarrow> []
             | Inr fr \<Rightarrow>
                 if \<not> IsNotification fr then []
                 else if ip \<notin> h_devices h then []
                 else (if i_ESV fr = esvINFC then sendINFCRes conn addr fr else [])
                   @ (if h_hasCallback h \<and> 0 < length (i_Props fr)
                      then [Callback ip (i_SEOJ fr) (i_Props fr)] else []))"

text \<open>The loop of \<open>Run\<close> over the frames that arrive before the context ends.\<close>

definition Run_notifications :: "NotificationHandler \<Rightarrow> nat option \<Rightarrow> UDPFrame list \<Rightarrow> notif_action list" where
  "Run_notifications h conn frames = concat (map (handleFrame h conn) frames)"

definition esvNameStr :: "byte \<Rightarrow> string" where
  "esvNameStr esv =
     (if esv = esvGet then ''Get'' else if esv = esvGetRes then ''Get_Res''
      else if esv = esvSetC then ''SetC'' else if esv = esvINF then ''INF''
      else if esv = esvINFC then ''INFC'' else if esv = esvINFCRes then ''INFC_Res''
      else if esv = esvINFSNA then ''INF_SNA'' else ''0x'' @ hex2 esv)"

section \<open>Lemmas\<close>

text \<open>The receiver hands a frame for which nobody waits to the notification channel.\<close>

lemma receive_unsolicited:
  assumes "map_of (t_waiters t) (waiterKey ip (frame_tid data)) = None"
    and "12 \<le> length data" "length data \<le> 2048" "t_infChan t = Some (cap, queue)"
  shows "t_infChan (fst (receiveFixedConn conn (ReadFrom (Some \<lparr>a_IP = Some ip, a_Port = port\<rparr>) data) t))
    = Some (cap, if length queue < cap
        then queue @ [\<lparr>u_From = Some \<lparr>a_IP = Some ip, a_Port = port\<rparr>, u_Data = data\<rparr>] else queue)"
proof -
  have "t_infChan (snd (checkAndPopExpiredWaiter key t)) = t_infChan t" for key
    by (simp add: checkAndPopExpiredWaiter_def split: option.splits)
  then show ?thesis
    using assms by (simp add: receiveFixedConn_def frame_tid_def inf_offer_def Let_def)
qed

lemma receive_solicited:
  assumes "map_of (t_waiters t) (waiterKey ip (frame_tid data)) = Some ch"
    and "12 \<le> length data" "length data \<le> 2048"
  shows "fst (receiveFixedConn conn (ReadFrom (Some \<lparr>a_IP = Some ip, a_Port = port\<rparr>) data) t)
    = chan_offer ch \<lparr>u_From = Some \<lparr>a_IP = Some ip, a_Port = port\<rparr>, u_Data = data\<rparr> t"
  using assms by (simp add: receiveFixedConn_def frame_tid_def Let_def)

lemma handleFrame_frame_of:
  assumes "ip \<in> h_devices h" "length ps < 256" "\<forall>p \<in> set ps. prop_ok p"
    and "esv \<in> {esvINF, esvINFC, esvINFSNA}"
  shows "handleFrame h conn \<lparr>u_From = Some \<lparr>a_IP = Some ip, a_Port = port\<rparr>, u_Data = frame_of tid seoj deoj esv ps\<rparr>
    = (if esv = esvINFC then
         sendINFCRes conn \<lparr>a_IP = Some ip, a_Port = port\<rparr>
           \<lparr>i_TID = tid, i_SEOJ = seoj, i_DEOJ = deoj, i_ESV = esv, i_Props = ps\<rparr>
       else []) @ (if h_hasCallback h \<and> ps \<noteq> [] then [Callback ip seoj ps] else [])"
  using assms by (auto simp: handleFrame_def ip_string_def ParseINFFrame_frame_of IsNotification_def Let_def)

lemma frame_tid_frame_of [simp]: "frame_tid (frame_of tid seoj deoj esv ps) = tid"
  by (cases seoj; cases deoj) (simp add: frame_tid_def frame_of_def tid_bytes_def eoj_bytes_def)

lemma length_frame_of: "length (frame_of tid seoj deoj esv ps) = 12 + length (concat (map prop_bytes ps))"
  by (simp add: frame_of_def)

section \<open>Properties\<close>

text \<open>C28: an INF, INFC or INF_SNA datagram of a registered device, with at most 255 properties that take
  at most 2036 bytes (what the receiver's buffer of 2048 bytes holds), for whose transaction id no
  request to that address is waiting, is put at the end of the notification channel when the channel
  has room, and is dropped when it is full. Handling it acknowledges an INFC when there is a shared
  socket, and then calls the callback, if one is set and there is at least one property, with exactly
  the sender's object and properties; it does nothing else.\<close>

theorem notification_reaches_callback:
  assumes "ip \<in> h_devices h" "length ps < 256" "\<forall>p \<in> set ps. prop_ok p"
    and "esv \<in> {0x73, 0x74, 0x53}" "length (concat (map prop_bytes ps)) \<le> 2036"
    and "map_of (t_waiters t) (waiterKey ip tid) = None"
    and "t_infChan t = Some (cap, queue)"
  shows "\<exists>frame. t_infChan (fst (receiveFixedConn conn
        (ReadFrom (Some \<lparr>a_IP = Some ip, a_Port = port\<rparr>) (frame_of tid seoj deoj esv ps)) t))
      = Some (cap, if length queue < cap then queue @ [frame] else queue)
    \<and> handleFrame h sock frame =
        (if esv = 0x74 \<and> sock \<noteq> None then [SendINFCRes \<lparr>a_IP = Some ip, a_Port = port\<rparr>
             (frame_of tid controller seoj 0x7A ps)] else [])
        @ (if h_hasCallback h \<and> ps \<noteq> [] then [Callback ip seoj ps] else [])"
proof -
  let ?fr = "\<lparr>u_From = Some \<lparr>a_IP = Some ip, a_Port = port\<rparr>, u_Data = frame_of tid seoj deoj esv ps\<rparr>"
  have "t_infChan (fst (receiveFixedConn conn
      (ReadFrom (Some \<lparr>a_IP = Some ip, a_Port = port\<rparr>) (frame_of tid seoj deoj esv ps)) t))
    = Some (cap, if length queue < cap then queue @ [?fr] else queue)"
    using receive_unsolicited [of t ip "frame_of tid seoj deoj esv ps" cap queue conn port] assms(5-7)
    by (simp add: length_frame_of)
  moreover have "handleFrame h sock ?fr = (if esv = 0x74 \<and> sock \<noteq> None then [SendINFCRes \<lparr>a_IP = Some ip, a_Port = port\<rparr>
             (frame_of tid controller seoj 0x7A ps)] else [])
        @ (if h_hasCallback h \<and> ps \<noteq> [] then [Callback ip seoj ps] else [])"
    using handleFrame_frame_of [OF assms(1-4), of sock port tid seoj deoj]
    by (auto simp: sendINFCRes_def BuildINFCRes_frame split: option.split)
  ultimately show ?thesis by blast
qed

theorem notification_reaches_callback_witness:
  "\<exists>frame. t_infChan (fst (receiveFixedConn 7 (ReadFrom (Some \<lparr>a_IP = Some ''h'', a_Port = 3610\<rparr>)
      (frame_of 5 (0x01, 0x30, 0x01) controller 0x73 [\<lparr>p_EPC = 0x80, p_PDC = 1, p_EDT = [0x30]\<rparr>]))
      (SetNotificationChan 4 (NewTransport True)))) = Some (4, [frame])
    \<and> handleFrame (RegisterDevice ''h'' (NewNotificationHandler True)) (Some 7) frame
      = [Callback ''h'' (0x01, 0x30, 0x01) [\<lparr>p_EPC = 0x80, p_PDC = 1, p_EDT = [0x30]\<rparr>]]"
  using notification_reaches_callback [of "''h''" "RegisterDevice ''h'' (NewNotificationHandler True)"
      "[\<lparr>p_EPC = 0x80, p_PDC = 1, p_EDT = [0x30]\<rparr>]" "0x73" "SetNotificationChan 4 (NewTransport True)" 5 4 "[]"
      7 3610 "(0x01, 0x30, 0x01)" controller "Some 7"]
  by (simp add: RegisterDevice_def NewNotificationHandler_def SetNotificationChan_def NewTransport_def
      prop_ok_def prop_bytes_def)

text \<open>A notification whose transaction id is that of a request waiting on the same device is taken
  for the response: it goes to the request's channel and the notification channel does not change.\<close>

theorem notification_taken_for_response:
  assumes "map_of (t_waiters t) (waiterKey ip tid) = Some ch" "t_chans t ! ch = None"
    and "ch < length (t_chans t)" "length (concat (map prop_bytes ps)) \<le> 2036"
  shows "let t' = fst (receiveFixedConn conn
        (ReadFrom (Some \<lparr>a_IP = Some ip, a_Port = port\<rparr>) (frame_of tid seoj deoj 0x73 ps)) t)
    in t_infChan t' = t_infChan t
      \<and> t_chans t' ! ch = Some \<lparr>u_From = Some \<lparr>a_IP = Some ip, a_Port = port\<rparr>, u_Data = frame_of tid seoj deoj 0x73 ps\<rparr>"
  using receive_solicited [of t ip "frame_of tid seoj deoj 0x73 ps" ch conn port] assms
  by (simp add: length_frame_of chan_offer_def Let_def)

theorem notification_taken_for_response_witness:
  "t_infChan (fst (receiveFixedConn 7 (ReadFrom (Some \<lparr>a_IP = Some ''h'', a_Port = 3610\<rparr>)
      (frame_of 5 (0x01, 0x30, 0x01) controller 0x73 []))
      (SetNotificationChan 4 (NewTransport True)\<lparr>t_waiters := [(waiterKey ''h'' 5, 0)], t_chans := [None]\<rparr>)))
    = Some (4, [])"
  using notification_taken_for_response [of "SetNotificationChan 4 (NewTransport True)\<lparr>t_waiters := [(waiterKey ''h'' 5, 0)], t_chans := [None]\<rparr>"
      "''h''" 5 0 "[]" 7 3610 "(0x01, 0x30, 0x01)" controller]
  by (simp add: SetNotificationChan_def NewTransport_def Let_def)

end
