(* ===== verification/Config.thy ===== *)
theory Config
  imports GoText
begin

text \<open>
  \<open>internal/config/config.go\<close>: the configuration from the environment and the devices file. The
  environment is the parameter \<open>env\<close> (an unset variable is the empty string, as \<open>os.Getenv\<close> has
  it); reading the devices file and decoding \<open>ECHONET_DEVICES\<close> are the parameters \<open>file\<close> and
  \<open>unmarshal\<close> (YAML and JSON decoders). The lemmas show what a loaded configuration satisfies.
\<close>

record MQTTConfig =
  q_Broker :: string
  q_Username :: string
  q_Password :: string
  q_TopicPrefix :: string
  q_DiscoveryPrefix :: string

record Device =
  dv_Name :: string
  dv_IP :: string
  dv_Class :: string
  dv_Manufacturer :: string
  dv_Model :: string
  dv_Labels :: "(string, string) gomap"
  dv_ScrapeInterval :: string

record Config =
  cf_ListenAddr :: string
  cf_ScrapeTimeoutSec :: int
  cf_StrictSourcePort3610 :: bool
  cf_DevicesPath :: string
  cf_SpecsDir :: string
  cf_MetricsEnabled :: bool
  cf_NotificationsEnabled :: bool
  cf_ForcePolling :: bool
  cf_MulticastInterfaces :: "string list"
  cf_Devices :: "Device list"
  cf_MQTT :: MQTTConfig

datatype config_error =
    BadTimeout string
  | BadBool string
  | BadPort string
  | BadDevicesFile string
  | BadDevicesJSON
  | NameRequired nat
  | IPRequired string
  | ClassRequired string

definition MQTTEnabled :: "Config \<Rightarrow> bool" where
  "MQTTEnabled c \<longleftrightarrow> q_Broker (cf_MQTT c) \<noteq> []"

section \<open>Environment\<close>

definition env_bool :: "(string \<Rightarrow> string) \<Rightarrow> string \<Rightarrow> (bool \<Rightarrow> Config \<Rightarrow> Config) \<Rightarrow> Config \<Rightarrow> config_error + Config" where
  "env_bool env name set_to cfg =
     (if env name \<noteq> [] then
        (case go_parse_bool (env name) of None \<Rightarrow> Inl (BadBool name) | Some b \<Rightarrow> Inr (set_to b cfg))
      else Inr cfg)"

definition env_timeout :: "(string \<Rightarrow> string) \<Rightarrow> Config \<Rightarrow> config_error + Config" where
  "env_timeout env cfg =
     (let v = env ''ECHONET_SCRAPE_TIMEOUT_SEC''
      in if v \<noteq> [] then
           (case go_atoi v of
              None \<Rightarrow> Inl (BadTimeout v)
            | Some n \<Rightarrow> if n \<le> 0 then Inl (BadTimeout v) else Inr (cfg\<lparr>cf_ScrapeTimeoutSec := n\<rparr>))
         else Inr cfg)"

definition set_mqtt :: "(MQTTConfig \<Rightarrow> MQTTConfig) \<Rightarrow> Config \<Rightarrow> Config" where
  "set_mqtt f cfg = cfg\<lparr>cf_MQTT := f (cf_MQTT cfg)\<rparr>"

definition env_broker :: "(string \<Rightarrow> string) \<Rightarrow> Config \<Rightarrow> config_error + Config" where
  "env_broker env cfg =
     (if env ''MQTT_BROKER'' \<noteq> [] then Inr (set_mqtt (\<lambda>m. m\<lparr>q_Broker := env ''MQTT_BROKER''\<rparr>) cfg)
      else
        let host = (if env ''MQTT_HOST'' = [] then env ''MQTT_SERVER'' else env ''MQTT_HOST'');
            port = env ''MQTT_PORT''
        in if host \<noteq> [] then
             let port1 = (if port = [] then ''1883'' else port)
             in if \<not> has_prefix host ''tcp://'' \<and> \<not> has_prefix host ''ssl://'' then
                  (case go_atoi port1 of
                     None \<Rightarrow> Inl (BadPort port1)
                   | Some p \<Rightarrow>
                       if p < 1 \<or> p > 65535 then Inl (BadPort port1)
                       else Inr (set_mqtt (\<lambda>m. m\<lparr>q_Broker := ''tcp://'' @ host @ '':'' @ port1\<rparr>) cfg))
                else Inr (set_mqtt (\<lambda>m. m\<lparr>q_Broker := host\<rparr>) cfg)
           else Inr cfg)"

text \<open>The first of the named variables that is set, or the value given.\<close>

fun env_first :: "(string \<Rightarrow> string) \<Rightarrow> string list \<Rightarrow> string \<Rightarrow> string" where
  "env_first env [] old = old"
| "env_first env (n # ns) old = (if env n \<noteq> [] then env n else env_first env ns old)"

definition env_rest :: "(string \<Rightarrow> string) \<Rightarrow> Config \<Rightarrow> Config" where
  "env_rest env cfg = set_mqtt (\<lambda>m. m
       \<lparr>q_Username := env_first env [''MQTT_USER'', ''MQTT_USERNAME''] (q_Username m),
        q_Password := env_first env [''MQTT_PASS'', ''MQTT_PASSWORD''] (q_Password m),
        q_TopicPrefix := env_first env [''MQTT_TOPIC_PREFIX''] (q_TopicPrefix m),
        q_DiscoveryPrefix := env_first env [''MQTT_DISCOVERY_PREFIX''] (q_DiscoveryPrefix m)\<rparr>) cfg"

definition bind_ok :: "'e + 'a \<Rightarrow> ('a \<Rightarrow> 'e + 'b) \<Rightarrow> 'e + 'b" where
  "bind_ok r f = (case r of Inl e \<Rightarrow> Inl e | Inr x \<Rightarrow> f x)"

definition applyEnvOverrides :: "(string \<Rightarrow> string) \<Rightarrow> Config \<Rightarrow> config_error + Config" where
  "applyEnvOverrides env cfg0 =
     (let cfg = cfg0\<lparr>cf_ListenAddr := env_first env [''ECHONET_LISTEN_ADDR''] (cf_ListenAddr cfg0)\<rparr>
      in bind_ok (env_timeout env cfg) (\<lambda>cfg.
         bind_ok (env_bool env ''ECHONET_STRICT_SOURCE_PORT_3610'' (\<lambda>b c. c\<lparr>cf_StrictSourcePort3610 := b\<rparr>) cfg) (\<lambda>cfg.
         bind_ok (env_bool env ''ECHONET_METRICS_ENABLED'' (\<lambda>b c. c\<lparr>cf_MetricsEnabled := b\<rparr>) cfg) (\<lambda>cfg.
         bind_ok (env_bool env ''ECHONET_NOTIFICATIONS_ENABLED'' (\<lambda>b c. c\<lparr>cf_NotificationsEnabled := b\<rparr>) cfg) (\<lambda>cfg.
         bind_ok (env_bool env ''ECHONET_FORCE_POLLING'' (\<lambda>b c. c\<lparr>cf_ForcePolling := b\<rparr>) cfg) (\<lambda>cfg.
         let ifs = env ''ECHONET_MULTICAST_INTERFACES'';
             cfg = (if ifs \<noteq> [] then cfg\<lparr>cf_MulticastInterfaces := split_on CHR '','' ifs\<rparr> else cfg);
             cfg = cfg\<lparr>cf_DevicesPath := env_first env [''ECHONET_DEVICES_PATH''] (cf_DevicesPath cfg),
                       cf_SpecsDir := env_first env [''ECHONET_SPECS_DIR''] (cf_SpecsDir cfg)\<rparr>
         in bind_ok (env_broker env cfg) (\<lambda>cfg. Inr (env_rest env cfg))))))))"

section \<open>Devices\<close>

datatype file_result = FileMissing | FileError string | FileDevices "Device list"

text \<open>\<open>filepath.Ext\<close>: what follows the last dot of the last element of the path, with the dot.\<close>

definition filepath_ext :: "string \<Rightarrow> string" where
  "filepath_ext path =
     (let r = takeWhile (\<lambda>c. c \<noteq> CHR ''/'') (rev path)
      in if CHR ''.'' \<in> set r then CHR ''.'' # rev (takeWhile (\<lambda>c. c \<noteq> CHR ''.'') r) else [])"

text \<open>Reading gives the contents, or the error and whether it is that the file does not exist.\<close>

definition loadDevicesFile ::
  "(string \<Rightarrow> (bool \<times> string) + string) \<Rightarrow> (string \<Rightarrow> string + Device list) \<Rightarrow> (string \<Rightarrow> string + Device list) \<Rightarrow>
     string \<Rightarrow> file_result" where
  "loadDevicesFile readFile unmarshalJSON unmarshalYAML path =
     (case readFile path of
        Inl (notExist, err) \<Rightarrow> if notExist then FileMissing else FileError err
      | Inr contents \<Rightarrow>
          if filepath_ext path = ''.json'' then
            (case unmarshalJSON contents of
               Inl err \<Rightarrow> FileError (''parse devices JSON: '' @ err)
             | Inr ds \<Rightarrow> FileDevices ds)
          else
            (case unmarshalYAML contents of
               Inl err \<Rightarrow> FileError (''parse devices YAML: '' @ err)
             | Inr ds \<Rightarrow> FileDevices ds))"

definition loadAdditionalDevices ::
  "(string \<Rightarrow> string) \<Rightarrow> (string \<Rightarrow> file_result) \<Rightarrow> (string \<Rightarrow> Device list option) \<Rightarrow> Config \<Rightarrow> config_error + Config" where
  "loadAdditionalDevices env file unmarshal cfg =
     bind_ok
       (if cf_Devices cfg = [] \<and> cf_DevicesPath cfg \<noteq> [] then
          (case file (cf_DevicesPath cfg) of
             FileMissing \<Rightarrow> Inr cfg
           | FileError e \<Rightarrow> Inl (BadDevicesFile e)
           | FileDevices ds \<Rightarrow> Inr (cfg\<lparr>cf_Devices := ds\<rparr>))
        else Inr cfg)
       (\<lambda>cfg. let json = env ''ECHONET_DEVICES''
          in if json \<noteq> [] then
               (case unmarshal json of
                  None \<Rightarrow> Inl BadDevicesJSON
                | Some ds \<Rightarrow> Inr (cfg\<lparr>cf_Devices := ds\<rparr>))
             else Inr cfg)"

text \<open>
  \<open>strings.Map\<close> of the sanitizer: a control character is dropped, a separator or wildcard
  becomes \<open>_\<close>, an invalid byte becomes U+FFFD, any other character stays.
\<close>

definition is_control :: "nat \<Rightarrow> bool" where
  "is_control r \<longleftrightarrow> r \<le> 0x1F \<or> (0x7F \<le> r \<and> r \<le> 0x9F)"

definition sanitize_rune :: "nat \<times> string \<Rightarrow> string" where
  "sanitize_rune rw =
     (case rw of (r, w) \<Rightarrow>
        if is_control r then []
        else if r = 0x2F \<or> r = 0x2B \<or> r = 0x23 then ''_''
        else if r = rune_error \<and> length w = 1 then map (\<lambda>n. char_of (n :: nat)) [0xEF, 0xBF, 0xBD]
        else w)"

definition sanitizeDeviceName :: "string \<Rightarrow> string" where
  "sanitizeDeviceName name = concat (map sanitize_rune (runes name))"

definition Sanitize :: "Config \<Rightarrow> Config" where
  "Sanitize c = c\<lparr>cf_Devices := map (\<lambda>d. if dv_Name d \<noteq> [] then d\<lparr>dv_Name := sanitizeDeviceName (dv_Name d)\<rparr> else d)
     (cf_Devices c)\<rparr>"

fun validate_from :: "nat \<Rightarrow> Device list \<Rightarrow> config_error option" where
  "validate_from i [] = None"
| "validate_from i (d # ds) =
     (if dv_Name d = [] then Some (NameRequired i)
      else if dv_IP d = [] then Some (IPRequired (dv_Name d))
      else if dv_Class d = [] then Some (ClassRequired (dv_Name d))
      else validate_from (Suc i) ds)"

definition Validate :: "Config \<Rightarrow> config_error option" where
  "Validate c = validate_from 0 (cf_Devices c)"

definition default_config :: "(string \<Rightarrow> string) \<Rightarrow> Config" where
  "default_config env =
     \<lparr>cf_ListenAddr = '':9191'', cf_ScrapeTimeoutSec = 15, cf_StrictSourcePort3610 = True,
      cf_DevicesPath = (if env ''ECHONET_DEVICES_PATH'' = [] then ''etc/devices.yaml'' else env ''ECHONET_DEVICES_PATH''),
      cf_SpecsDir = [], cf_MetricsEnabled = False, cf_NotificationsEnabled = True, cf_ForcePolling = False,
      cf_MulticastInterfaces = [], cf_Devices = [],
      cf_MQTT = \<lparr>q_Broker = [], q_Username = [], q_Password = [], q_TopicPrefix = ''echonetgo'',
        q_DiscoveryPrefix = ''homeassistant''\<rparr>\<rparr>"

definition Load ::
  "(string \<Rightarrow> string) \<Rightarrow> (string \<Rightarrow> file_result) \<Rightarrow> (string \<Rightarrow> Device list option) \<Rightarrow> config_error + Config" where
  "Load env file unmarshal =
     bind_ok (applyEnvOverrides env (default_config env)) (\<lambda>cfg.
     bind_ok (loadAdditionalDevices env file unmarshal cfg) (\<lambda>cfg.
     let cfg = Sanitize cfg
     in case Validate cfg of Some e \<Rightarrow> Inl e | None \<Rightarrow> Inr cfg))"

section \<open>Lemmas\<close>

text \<open>A path with the extension \<open>.json\<close> is read as JSON.\<close>

lemma json_extension: "filepath_ext (path @ ''.json'') = ''.json''"
  by (simp add: filepath_ext_def Let_def)

lemma bind_ok_Inr [simp]: "bind_ok r f = Inr y \<longleftrightarrow> (\<exists>x. r = Inr x \<and> f x = Inr y)"
  by (auto simp: bind_ok_def split: sum.splits)

definition device_ok :: "Device \<Rightarrow> bool" where
  "device_ok d \<longleftrightarrow> dv_Name d \<noteq> [] \<and> dv_IP d \<noteq> [] \<and> dv_Class d \<noteq> []"

lemma validate_from_None: "validate_from i ds = None \<longleftrightarrow> (\<forall>d \<in> set ds. device_ok d)"
  by (induction i ds rule: validate_from.induct) (auto simp: device_ok_def)

text \<open>A name that is safe in a topic and in a log line.\<close>

definition safe_char :: "char \<Rightarrow> bool" where
  "safe_char c \<longleftrightarrow> (0x20 \<le> (of_char c :: nat) \<and> (of_char c :: nat) \<noteq> 0x7F)
     \<and> c \<noteq> CHR ''/'' \<and> c \<noteq> CHR ''+'' \<and> c \<noteq> CHR ''#''"

lemma sanitize_rune_safe:
  assumes "rw \<in> set (runes s)" "c \<in> set (sanitize_rune rw)"
  shows "safe_char c"
proof (cases "of_char c < (0x80 :: nat)")
  case False
  then show ?thesis by (auto simp: safe_char_def)
next
  case True
  obtain r w where rw: "rw = (r, w)" by force
  show ?thesis
  proof (cases "c \<in> set w \<and> \<not> is_control r \<and> r \<noteq> 0x2F \<and> r \<noteq> 0x2B \<and> r \<noteq> 0x23")
    case c: True
    have "r = of_char c" using runes_ascii [of r w s c] assms(1) c True by (auto simp: rw)
    with c show ?thesis by (auto simp: safe_char_def is_control_def)
  next
    case False
    then have "c = CHR ''_'' \<or> c \<in> set (map (\<lambda>n. char_of (n :: nat)) [0xEF, 0xBF, 0xBD])"
      using assms(2) by (auto simp: rw sanitize_rune_def split: if_splits)
    then consider "c = CHR ''_''" | n :: nat where "n \<in> {0xEF, 0xBF, 0xBD}" "c = char_of n" by auto
    then show ?thesis
    proof cases
      case 1
      then show ?thesis by (simp add: safe_char_def)
    next
      case 2
      with True show ?thesis by (auto simp: take_bit_eq_mod)
    qed
  qed
qed

lemma sanitize_safe: "c \<in> set (sanitizeDeviceName name) \<Longrightarrow> safe_char c"
  by (auto simp: sanitizeDeviceName_def dest: sanitize_rune_safe)

text \<open>The characters of a sanitised name are the ones that were kept or put in.\<close>

lemma sanitize_rune_shape:
  assumes "rw \<in> set (runes s)"
  shows "sanitize_rune rw = [] \<or> (\<exists>r. valid_char (r, sanitize_rune rw) \<and> 0x20 \<le> r \<and> (r < 0x7F \<or> 0x9F < r)
    \<and> r \<noteq> 0x2F \<and> r \<noteq> 0x2B \<and> r \<noteq> 0x23)"
proof -
  obtain r w where rw: "rw = (r, w)" by force
  consider "is_control r" | "\<not> is_control r" "r = 0x2F \<or> r = 0x2B \<or> r = 0x23"
    | "\<not> is_control r" "r \<noteq> 0x2F \<and> r \<noteq> 0x2B \<and> r \<noteq> 0x23" "r = rune_error \<and> length w = 1"
    | "\<not> is_control r" "r \<noteq> 0x2F \<and> r \<noteq> 0x2B \<and> r \<noteq> 0x23" "\<not> (r = rune_error \<and> length w = 1)" by blast
  then show ?thesis
  proof cases
    case 2
    have "valid_char (0x5F, ''_'')" by (simp add: valid_char_def string_codes_def decode_rune_def)
    moreover have "sanitize_rune rw = ''_''" using 2 by (auto simp: rw sanitize_rune_def)
    ultimately show ?thesis by (intro disjI2 exI [of _ "0x5F"]) simp
  next
    case 3
    have "valid_char (rune_error, map (\<lambda>n. char_of (n :: nat)) [0xEF, 0xBF, 0xBD])"
      by (simp add: valid_char_def string_codes_def decode_rune_def cont_byte_def take_bit_eq_mod)
    moreover have "sanitize_rune rw = map (\<lambda>n. char_of (n :: nat)) [0xEF, 0xBF, 0xBD]"
      using 3 by (simp add: rw sanitize_rune_def)
    ultimately show ?thesis by (intro disjI2 exI [of _ rune_error]) simp
  next
    case 4
    have "valid_char (r, w)" using runes_valid [of "(r, w)" s] assms 4(3) by (auto simp: rw)
    then show ?thesis using 4 by (auto simp: rw sanitize_rune_def is_control_def)
  qed (simp add: rw sanitize_rune_def)
qed

lemma runes_sanitized:
  assumes "(r, w) \<in> set (runes (sanitizeDeviceName s))"
  shows "0x20 \<le> r \<and> (r < 0x7F \<or> 0x9F < r) \<and> r \<noteq> 0x2F \<and> r \<noteq> 0x2B \<and> r \<noteq> 0x23
    \<and> (r = rune_error \<longrightarrow> length w \<noteq> 1)"
proof -
  define good where "good = (\<lambda>rw :: nat \<times> string. valid_char rw \<and> 0x20 \<le> fst rw \<and> (fst rw < 0x7F \<or> 0x9F < fst rw)
    \<and> fst rw \<noteq> 0x2F \<and> fst rw \<noteq> 0x2B \<and> fst rw \<noteq> 0x23)"
  have "\<exists>rws. concat (map sanitize_rune rs) = concat (map snd rws) \<and> (\<forall>rw \<in> set rws. good rw)"
    if "set rs \<subseteq> set (runes s)" for rs
    using that
  proof (induction rs)
    case (Cons x rs)
    then obtain rws where rws: "concat (map sanitize_rune rs) = concat (map snd rws)" "\<forall>rw \<in> set rws. good rw" by auto
    have "sanitize_rune x = [] \<or> (\<exists>r. good (r, sanitize_rune x))"
      using sanitize_rune_shape [of x s] Cons.prems unfolding good_def fst_conv by auto
    then show ?case
    proof
      assume "\<exists>r. good (r, sanitize_rune x)"
      then obtain r where "good (r, sanitize_rune x)" by blast
      with rws show ?thesis by (intro exI [of _ "(r, sanitize_rune x) # rws"]) simp
    qed (use rws in auto)
  qed (intro exI [of _ "[]"], simp)
  then obtain rws where rws: "sanitizeDeviceName s = concat (map snd rws)" "\<forall>rw \<in> set rws. good rw"
    unfolding sanitizeDeviceName_def by blast
  have "runes (sanitizeDeviceName s) = rws"
    unfolding rws(1) by (rule runes_concat_valid) (use rws(2) good_def in blast)
  with assms rws(2) have "good (r, w)" by auto
  then show ?thesis unfolding good_def valid_char_def fst_conv snd_conv by blast
qed

lemma of_char_eq_nat: "of_char c = (n :: nat) \<longleftrightarrow> n < 256 \<and> c = char_of n"
proof
  assume n: "of_char c = n"
  show "n < 256 \<and> c = char_of n" unfolding n [symmetric] by simp
qed (simp add: take_bit_eq_mod)

lemma sanitize_ascii:
  assumes "\<forall>c \<in> set s. safe_char c \<and> of_char c < (0x80 :: nat)"
  shows "sanitizeDeviceName s = s"
proof -
  have "sanitize_rune (of_char c, [c]) = [c]" if "c \<in> set s" for c
  proof -
    have safe: "safe_char c" "of_char c < (0x80 :: nat)" using assms that by blast+
    have chars: "char_of (0x2F :: nat) = CHR ''/''" "char_of (0x2B :: nat) = CHR ''+''" "char_of (0x23 :: nat) = CHR ''#''"
      by code_simp+
    have ne: "c \<noteq> CHR ''/''" "c \<noteq> CHR ''+''" "c \<noteq> CHR ''#''" using safe(1) unfolding safe_char_def by blast+
    have "of_char c \<noteq> (0x2F :: nat)" "of_char c \<noteq> (0x2B :: nat)" "of_char c \<noteq> (0x23 :: nat)"
      by (simp_all only: of_char_eq_nat chars ne simp_thms)
    moreover have "\<not> is_control (of_char c)" "of_char c \<noteq> rune_error"
      using safe unfolding safe_char_def is_control_def by linarith+
    ultimately show ?thesis by (simp add: sanitize_rune_def)
  qed
  then have "map (sanitize_rune \<circ> (\<lambda>c. (of_char c, [c]))) s = map (\<lambda>c. [c]) s" by simp
  moreover have "concat (map (\<lambda>c. [c]) s) = s" by (induction s) auto
  moreover have "runes s = map (\<lambda>c. (of_char c, [c])) s" using assms by (intro runes_of_ascii) auto
  ultimately show ?thesis by (simp only: sanitizeDeviceName_def map_map)
qed

lemma env_bool_timeout:
  "env_bool env name f cfg = Inr cfg' \<Longrightarrow> (\<And>b c. cf_ScrapeTimeoutSec (f b c) = cf_ScrapeTimeoutSec c) \<Longrightarrow>
    cf_ScrapeTimeoutSec cfg' = cf_ScrapeTimeoutSec cfg"
  by (auto simp: env_bool_def split: if_splits option.splits)

lemma env_broker_timeout: "env_broker env cfg = Inr cfg' \<Longrightarrow> cf_ScrapeTimeoutSec cfg' = cf_ScrapeTimeoutSec cfg"
  by (auto simp: env_broker_def set_mqtt_def Let_def split: if_splits option.splits)

lemma env_rest_timeout [simp]: "cf_ScrapeTimeoutSec (env_rest env cfg) = cf_ScrapeTimeoutSec cfg"
  by (simp add: env_rest_def set_mqtt_def)

lemma env_timeout_pos:
  "env_timeout env cfg = Inr cfg' \<Longrightarrow> 0 < cf_ScrapeTimeoutSec cfg \<Longrightarrow> 0 < cf_ScrapeTimeoutSec cfg'"
  by (auto simp: env_timeout_def Let_def split: if_splits option.splits)

lemma overrides_timeout:
  assumes "applyEnvOverrides env cfg = Inr cfg'" "0 < cf_ScrapeTimeoutSec cfg"
  shows "0 < cf_ScrapeTimeoutSec cfg'"
proof -
  obtain c1 c2 c3 c4 c5 c6 where
    1: "env_timeout env (cfg\<lparr>cf_ListenAddr := env_first env [''ECHONET_LISTEN_ADDR''] (cf_ListenAddr cfg)\<rparr>) = Inr c1"
    and b: "env_bool env ''ECHONET_STRICT_SOURCE_PORT_3610'' (\<lambda>b c. c\<lparr>cf_StrictSourcePort3610 := b\<rparr>) c1 = Inr c2"
      "env_bool env ''ECHONET_METRICS_ENABLED'' (\<lambda>b c. c\<lparr>cf_MetricsEnabled := b\<rparr>) c2 = Inr c3"
      "env_bool env ''ECHONET_NOTIFICATIONS_ENABLED'' (\<lambda>b c. c\<lparr>cf_NotificationsEnabled := b\<rparr>) c3 = Inr c4"
      "env_bool env ''ECHONET_FORCE_POLLING'' (\<lambda>b c. c\<lparr>cf_ForcePolling := b\<rparr>) c4 = Inr c5"
    and fin: "cf_ScrapeTimeoutSec cfg' = cf_ScrapeTimeoutSec c5"
    using assms(1) unfolding applyEnvOverrides_def Let_def bind_ok_Inr
    by (elim exE conjE) (auto dest!: env_broker_timeout split: if_splits)
  have "0 < cf_ScrapeTimeoutSec c1" using env_timeout_pos [OF 1] assms(2) by simp
  with b [THEN env_bool_timeout] fin show ?thesis by simp
qed

section \<open>Properties\<close>

text \<open>C35: a configuration that \<open>Load\<close> accepts has a positive scrape timeout, and each of its devices
  has an address, a class and a non-empty name that is valid UTF-8 and without control characters -
  no byte below 0x20 or 0x7F, no character U+0000 to U+001F or U+007F to U+009F -, without the topic
  separator and without the topic wildcards, wherever the devices came from.\<close>

theorem load_valid:
  assumes "Load env file unmarshal = Inr cfg"
  shows "0 < cf_ScrapeTimeoutSec cfg
    \<and> (\<forall>d \<in> set (cf_Devices cfg). dv_IP d \<noteq> [] \<and> dv_Class d \<noteq> [] \<and> dv_Name d \<noteq> []
         \<and> (\<forall>c \<in> set (dv_Name d). safe_char c)
         \<and> (\<forall>(r, w) \<in> set (runes (dv_Name d)). 0x20 \<le> r \<and> (r < 0x7F \<or> 0x9F < r)
              \<and> r \<noteq> 0x2F \<and> r \<noteq> 0x2B \<and> r \<noteq> 0x23 \<and> (r = 0xFFFD \<longrightarrow> length w \<noteq> 1)))"
proof -
  obtain c1 c2 where 1: "applyEnvOverrides env (default_config env) = Inr c1"
    and 2: "loadAdditionalDevices env file unmarshal c1 = Inr c2"
    and v: "Validate (Sanitize c2) = None" and cfg: "cfg = Sanitize c2"
    using assms unfolding Load_def by (auto simp: Let_def split: option.splits)
  have "0 < cf_ScrapeTimeoutSec c1" by (rule overrides_timeout [OF 1]) (simp add: default_config_def)
  moreover have "cf_ScrapeTimeoutSec c2 = cf_ScrapeTimeoutSec c1"
    using 2 by (auto simp: loadAdditionalDevices_def Let_def split: if_splits file_result.splits option.splits)
  ultimately have t: "0 < cf_ScrapeTimeoutSec cfg" by (simp add: cfg Sanitize_def)
  have ok: "device_ok d" if "d \<in> set (cf_Devices cfg)" for d
    using v that by (simp add: Validate_def validate_from_None cfg)
  have san: "\<exists>s. dv_Name d = sanitizeDeviceName s" if "d \<in> set (cf_Devices cfg)" for d
  proof -
    have "cf_Devices cfg = map (\<lambda>d. if dv_Name d \<noteq> [] then d\<lparr>dv_Name := sanitizeDeviceName (dv_Name d)\<rparr> else d) (cf_Devices c2)"
      by (simp add: cfg Sanitize_def)
    with that obtain x where "d = (if dv_Name x \<noteq> [] then x\<lparr>dv_Name := sanitizeDeviceName (dv_Name x)\<rparr> else x)"
      by (simp only: set_map image_iff) blast
    moreover have "sanitizeDeviceName [] = []" by (simp add: sanitizeDeviceName_def)
    ultimately show ?thesis by (cases "dv_Name x = []") (auto intro: exI [of _ "[]"])
  qed
  show ?thesis
  proof (intro conjI ballI t)
    fix d assume d: "d \<in> set (cf_Devices cfg)"
    from ok [OF d] show "dv_IP d \<noteq> []" "dv_Class d \<noteq> []" "dv_Name d \<noteq> []" by (auto simp: device_ok_def)
    from san [OF d] obtain s where s: "dv_Name d = sanitizeDeviceName s" by blast
    show "safe_char c" if "c \<in> set (dv_Name d)" for c using that sanitize_safe unfolding s by blast
    show "case rw of (r, w) \<Rightarrow> 0x20 \<le> r \<and> (r < 0x7F \<or> 0x9F < r) \<and> r \<noteq> 0x2F \<and> r \<noteq> 0x2B \<and> r \<noteq> 0x23
        \<and> (r = 0xFFFD \<longrightarrow> length w \<noteq> 1)" if "rw \<in> set (runes (dv_Name d))" for rw
      using that runes_sanitized [of "fst rw" "snd rw" s] unfolding s by (simp add: case_prod_beta)
  qed
qed

text \<open>A name with a separator and a C1 control character (U+0085, two bytes).\<close>

abbreviation sample_name :: string where
  "sample_name \<equiv> [CHR ''a'', CHR 0xC2, CHR 0x85, CHR ''c'', CHR ''/'', CHR ''1'']"

abbreviation sample_device :: Device where
  "sample_device \<equiv> \<lparr>dv_Name = ''ac/1'', dv_IP = ''10.0.0.9'', dv_Class = ''home_ac'', dv_Manufacturer = [],
     dv_Model = [], dv_Labels = [], dv_ScrapeInterval = []\<rparr>"

lemma sample_sanitized: "sanitizeDeviceName sample_name = ''ac_1''"
  by (simp add: sanitizeDeviceName_def runes.simps(2) decode_rune_def cont_byte_def string_codes_def take_bit_eq_mod
      sanitize_rune_def is_control_def)

lemma sample_load:
  "\<exists>cfg. Load (\<lambda>_. []) (\<lambda>_. FileDevices [sample_device\<lparr>dv_Name := sample_name\<rparr>]) (\<lambda>_. None) = Inr cfg
    \<and> cf_Devices cfg = [sample_device\<lparr>dv_Name := ''ac_1''\<rparr>]"
  by (simp add: Load_def applyEnvOverrides_def env_timeout_def env_bool_def env_broker_def bind_ok_def Let_def
      env_rest_def set_mqtt_def default_config_def loadAdditionalDevices_def Sanitize_def sample_sanitized Validate_def)

theorem load_valid_witness:
  "list_all safe_char ''ac_1'' \<and> list_all (\<lambda>(r, w). \<not> (0x80 \<le> r \<and> r \<le> 0x9F)) (runes ''ac_1'')"
proof -
  obtain cfg where cfg: "Load (\<lambda>_. []) (\<lambda>_. FileDevices [sample_device\<lparr>dv_Name := sample_name\<rparr>]) (\<lambda>_. None) = Inr cfg"
    "cf_Devices cfg = [sample_device\<lparr>dv_Name := ''ac_1''\<rparr>]"
    using sample_load by blast
  from load_valid [OF cfg(1)] have 1: "\<forall>c \<in> set ''ac_1''. safe_char c"
    and 2: "\<forall>(r, w) \<in> set (runes ''ac_1''). 0x20 \<le> r \<and> (r < 0x7F \<or> 0x9F < r)
      \<and> r \<noteq> 0x2F \<and> r \<noteq> 0x2B \<and> r \<noteq> 0x23 \<and> (r = 0xFFFD \<longrightarrow> length w \<noteq> 1)"
    unfolding cfg(2) by simp_all
  from 1 have "list_all safe_char ''ac_1''" unfolding list_all_iff .
  moreover from 2 have "list_all (\<lambda>(r, w). \<not> (0x80 \<le> r \<and> r \<le> 0x9F)) (runes ''ac_1'')"
    unfolding list_all_iff by fastforce
  ultimately show ?thesis ..
qed

end
