(* ===== verification/Cache.thy ===== *)
theory Cache
  imports Client Config
begin

text \<open>
  \<open>internal/poller/cache.go\<close>: the store of scraped values and of each device's capabilities. The
  clock is an argument \<open>now\<close>; an operation that calls the update callback returns the snapshot it
  passes to it (\<open>None\<close> when no callback is set). Every operation holds the mutex from end to end
  (\<open>IngestNotification\<close> once per part), so each is one atomic step. The lemmas give the laws of
  the per-device attributes, what a poll, a push and a failed poll change, and when a poll may be
  skipped.
\<close>

record groupStatus =
  g_interval :: duration
  g_success :: bool
  g_durationSec :: float64
  g_lastAttempt :: time
  g_lastSuccess :: time
  g_lastError :: string
  g_failures :: int

record deviceCache =
  k_groups :: "(string, groupStatus) gomap"
  k_metrics :: "(string, MetricValue) gomap"
  k_info :: DeviceInfo

record DeviceState =
  st_Device :: Device
  st_Info :: DeviceInfo
  st_Metrics :: "(string, MetricValue) gomap"
  st_MetricSpecs :: "MetricSpec list"
  st_Writable :: "byte set option"
  st_Climate :: "ClimateSpec option"
  st_Light :: "LightSpec option"
  st_Success :: bool

text \<open>A stored map of writable codes can be nil, which is not the empty map for a reader of it.\<close>

record Cache =
  ca_metrics :: "string \<rightharpoonup> deviceCache"
  ca_onUpdate :: bool
  ca_specsByDev :: "string \<rightharpoonup> MetricSpec list"
  ca_climateByDev :: "string \<rightharpoonup> ClimateSpec"
  ca_lightByDev :: "string \<rightharpoonup> LightSpec"
  ca_writableEPCs :: "string \<rightharpoonup> byte set option"
  ca_eojByDev :: "string \<rightharpoonup> eoj"
  ca_notifyEPCs :: "string \<rightharpoonup> byte set"
  ca_lastPush :: "string \<rightharpoonup> (byte \<rightharpoonup> time)"
  ca_forcePolling :: bool

abbreviation zero_time :: time where "zero_time \<equiv> 0"

definition zero_info :: DeviceInfo where
  "zero_info = \<lparr>v_UID = [], v_Manufacturer = [], v_ManufacturerCode = [], v_ProductCode = []\<rparr>"

definition zero_group :: groupStatus where
  "zero_group = \<lparr>g_interval = 0, g_success = False, g_durationSec = Zero False, g_lastAttempt = zero_time,
     g_lastSuccess = zero_time, g_lastError = [], g_failures = 0\<rparr>"

definition zero_dc :: deviceCache where
  "zero_dc = \<lparr>k_groups = [], k_metrics = [], k_info = zero_info\<rparr>"

definition deviceKey :: "Device \<Rightarrow> string" where
  "deviceKey dev = dv_Name dev @ ''|'' @ dv_IP dev @ ''|'' @ dv_Class dev"

definition NewCache :: Cache where
  "NewCache = \<lparr>ca_metrics = Map.empty, ca_onUpdate = False, ca_specsByDev = Map.empty, ca_climateByDev = Map.empty,
     ca_lightByDev = Map.empty, ca_writableEPCs = Map.empty, ca_eojByDev = Map.empty, ca_notifyEPCs = Map.empty,
     ca_lastPush = Map.empty, ca_forcePolling = False\<rparr>"

section \<open>Attributes of a device\<close>

definition SetOnUpdate :: "bool \<Rightarrow> Cache \<Rightarrow> Cache" where
  "SetOnUpdate cb c = c\<lparr>ca_onUpdate := cb\<rparr>"

definition SetDeviceSpecs :: "Device \<Rightarrow> MetricSpec list \<Rightarrow> Cache \<Rightarrow> Cache" where
  "SetDeviceSpecs dev metricSpecs c = c\<lparr>ca_specsByDev := (ca_specsByDev c)(deviceKey dev \<mapsto> metricSpecs)\<rparr>"

definition SetDeviceClimate :: "Device \<Rightarrow> ClimateSpec option \<Rightarrow> Cache \<Rightarrow> Cache" where
  "SetDeviceClimate dev climate c =
     (case climate of
        None \<Rightarrow> c\<lparr>ca_climateByDev := (ca_climateByDev c)(deviceKey dev := None)\<rparr>
      | Some x \<Rightarrow> c\<lparr>ca_climateByDev := (ca_climateByDev c)(deviceKey dev \<mapsto> x)\<rparr>)"

definition SetDeviceLight :: "Device \<Rightarrow> LightSpec option \<Rightarrow> Cache \<Rightarrow> Cache" where
  "SetDeviceLight dev light c =
     (case light of
        None \<Rightarrow> c\<lparr>ca_lightByDev := (ca_lightByDev c)(deviceKey dev := None)\<rparr>
      | Some x \<Rightarrow> c\<lparr>ca_lightByDev := (ca_lightByDev c)(deviceKey dev \<mapsto> x)\<rparr>)"

definition GetDeviceLight :: "Device \<Rightarrow> Cache \<Rightarrow> LightSpec option" where
  "GetDeviceLight dev c = ca_lightByDev c (deviceKey dev)"

definition SetWritableEPCs :: "Device \<Rightarrow> byte set option \<Rightarrow> Cache \<Rightarrow> Cache" where
  "SetWritableEPCs dev writable c = c\<lparr>ca_writableEPCs := (ca_writableEPCs c)(deviceKey dev \<mapsto> writable)\<rparr>"

definition GetWritableEPCs :: "Device \<Rightarrow> Cache \<Rightarrow> byte set option option" where
  "GetWritableEPCs dev c = ca_writableEPCs c (deviceKey dev)"

definition SetDeviceEOJ :: "Device \<Rightarrow> eoj \<Rightarrow> Cache \<Rightarrow> Cache" where
  "SetDeviceEOJ dev eoj c = c\<lparr>ca_eojByDev := (ca_eojByDev c)(deviceKey dev \<mapsto> eoj)\<rparr>"

definition GetDeviceEOJ :: "Device \<Rightarrow> Cache \<Rightarrow> eoj option" where
  "GetDeviceEOJ dev c = ca_eojByDev c (deviceKey dev)"

definition GetDeviceClimate :: "Device \<Rightarrow> Cache \<Rightarrow> ClimateSpec option" where
  "GetDeviceClimate dev c = ca_climateByDev c (deviceKey dev)"

definition GetDeviceSpecs :: "Device \<Rightarrow> Cache \<Rightarrow> MetricSpec list option" where
  "GetDeviceSpecs dev c = ca_specsByDev c (deviceKey dev)"

definition HasWritableMap :: "Device \<Rightarrow> Cache \<Rightarrow> bool" where
  "HasWritableMap dev c \<longleftrightarrow> ca_writableEPCs c (deviceKey dev) \<noteq> None"

definition HasNotificationMap :: "Device \<Rightarrow> Cache \<Rightarrow> bool" where
  "HasNotificationMap dev c \<longleftrightarrow> ca_notifyEPCs c (deviceKey dev) \<noteq> None"

definition HasDeviceInfo :: "Device \<Rightarrow> Cache \<Rightarrow> bool" where
  "HasDeviceInfo dev c =
     (case ca_metrics c (deviceKey dev) of
        None \<Rightarrow> False
      | Some dc \<Rightarrow> v_Manufacturer (k_info dc) \<noteq> [] \<or> v_UID (k_info dc) \<noteq> [])"

definition SetNotificationEPCs :: "Device \<Rightarrow> byte set \<Rightarrow> Cache \<Rightarrow> Cache" where
  "SetNotificationEPCs dev notify c = c\<lparr>ca_notifyEPCs := (ca_notifyEPCs c)(deviceKey dev \<mapsto> notify)\<rparr>"

definition SetForcePolling :: "bool \<Rightarrow> Cache \<Rightarrow> Cache" where
  "SetForcePolling force c = c\<lparr>ca_forcePolling := force\<rparr>"

section \<open>Reading\<close>

text \<open>The loop of \<open>Get\<close> over the groups: latest attempt, its duration, latest success, and whether a
  successful group is still fresh.\<close>

definition get_step :: "time \<Rightarrow> groupStatus \<Rightarrow> time \<times> float64 \<times> time \<times> bool \<Rightarrow> time \<times> float64 \<times> time \<times> bool" where
  "get_step now gs acc =
     (case acc of (latestAttempt, latestDuration, latestSuccess, aggregatedSuccess) \<Rightarrow>
        let newer = latestAttempt < g_lastAttempt gs;
            ttl0 = wrap64 (g_interval gs * 2);
            ttl = (if ttl0 < 5 * second then 5 * second else ttl0)
        in (if newer then g_lastAttempt gs else latestAttempt,
            if newer then g_durationSec gs else latestDuration,
            if latestSuccess < g_lastSuccess gs then g_lastSuccess gs else latestSuccess,
            if g_success gs \<and> time_sub now (g_lastAttempt gs) \<le> ttl then True else aggregatedSuccess))"

definition Get ::
  "time \<Rightarrow> Device \<Rightarrow> Cache \<Rightarrow> bool \<times> float64 \<times> time \<times> (string, MetricValue) gomap option" where
  "Get now dev c =
     (case ca_metrics c (deviceKey dev) of
        None \<Rightarrow> (False, Zero False, zero_time, None)
      | Some dc \<Rightarrow>
          (case fold (\<lambda>(gid, gs). get_step now gs) (k_groups dc) (zero_time, Zero False, zero_time, False) of
             (latestAttempt, latestDuration, latestSuccess, aggregatedSuccess) \<Rightarrow>
               (aggregatedSuccess, latestDuration, latestSuccess, Some (go_copy_into [] (k_metrics dc)))))"

definition GetInfo :: "Device \<Rightarrow> Cache \<Rightarrow> DeviceInfo" where
  "GetInfo dev c = (case ca_metrics c (deviceKey dev) of None \<Rightarrow> zero_info | Some dc \<Rightarrow> k_info dc)"

definition snapshotLocked ::
  "Device \<Rightarrow> string \<Rightarrow> deviceCache \<Rightarrow> bool \<Rightarrow> Cache \<Rightarrow> DeviceState option" where
  "snapshotLocked dev key dc success c =
     (if \<not> ca_onUpdate c then None
      else Some \<lparr>st_Device = dev, st_Info = k_info dc, st_Metrics = go_copy_into [] (k_metrics dc),
        st_MetricSpecs = (case ca_specsByDev c key of Some s \<Rightarrow> s | None \<Rightarrow> []),
        st_Writable = (case ca_writableEPCs c key of Some (Some w) \<Rightarrow> Some w | _ \<Rightarrow> None),
        st_Climate = ca_climateByDev c key, st_Light = ca_lightByDev c key, st_Success = success\<rparr>)"

section \<open>Writing\<close>

definition dc_of :: "string \<Rightarrow> Cache \<Rightarrow> deviceCache" where
  "dc_of key c = (case ca_metrics c key of Some dc \<Rightarrow> dc | None \<Rightarrow> zero_dc)"

definition update_group ::
  "time \<Rightarrow> duration \<Rightarrow> bool \<Rightarrow> float64 \<Rightarrow> string \<Rightarrow> groupStatus \<Rightarrow> groupStatus" where
  "update_group now interval success durationSec errMsg gs0 =
     (let gs = gs0\<lparr>g_interval := interval, g_success := success, g_durationSec := durationSec, g_lastAttempt := now\<rparr>
      in if success then gs\<lparr>g_lastSuccess := now, g_lastError := [], g_failures := 0\<rparr>
         else gs\<lparr>g_failures := g_failures gs + 1,
                 g_lastError := (if errMsg = [] then ''scrape failed'' else errMsg)\<rparr>)"

definition Update ::
  "time \<Rightarrow> Device \<Rightarrow> string \<Rightarrow> duration \<Rightarrow> bool \<Rightarrow> float64 \<Rightarrow> (string, MetricValue) gomap \<Rightarrow> string \<Rightarrow> Cache \<Rightarrow>
     Cache \<times> DeviceState option" where
  "Update now dev groupID interval success durationSec metrics errMsg c =
     (let key = deviceKey dev;
          dc = dc_of key c;
          gs = (case map_of (k_groups dc) groupID of Some g \<Rightarrow> g | None \<Rightarrow> zero_group);
          dc1 = dc\<lparr>k_groups := AList.update groupID (update_group now interval success durationSec errMsg gs) (k_groups dc),
                   k_metrics := (if success then go_copy_into (k_metrics dc) metrics else k_metrics dc)\<rparr>;
          c1 = c\<lparr>ca_metrics := (ca_metrics c)(key \<mapsto> dc1)\<rparr>
      in (c1, snapshotLocked dev key dc1 success c1))"

definition TriggerUpdate :: "Device \<Rightarrow> Cache \<Rightarrow> DeviceState option" where
  "TriggerUpdate dev c = (let key = deviceKey dev in snapshotLocked dev key (dc_of key c) True c)"

definition RecordPush :: "time \<Rightarrow> Device \<Rightarrow> bytes \<Rightarrow> Cache \<Rightarrow> Cache" where
  "RecordPush now dev epcs c =
     (let key = deviceKey dev;
          m = (case ca_lastPush c key of Some m \<Rightarrow> m | None \<Rightarrow> Map.empty)
      in c\<lparr>ca_lastPush := (ca_lastPush c)(key \<mapsto> fold (\<lambda>epc m. m(epc \<mapsto> now)) epcs m)\<rparr>)"

definition ShouldSkipPoll :: "time \<Rightarrow> Device \<Rightarrow> byte \<Rightarrow> duration \<Rightarrow> Cache \<Rightarrow> bool" where
  "ShouldSkipPoll now dev epc freshness c =
     (if ca_forcePolling c then False
      else case ca_notifyEPCs c (deviceKey dev) of
        None \<Rightarrow> False
      | Some notify \<Rightarrow>
          if epc \<notin> notify then False
          else case ca_lastPush c (deviceKey dev) of
            None \<Rightarrow> False
          | Some pushTimes \<Rightarrow>
              (case pushTimes epc of None \<Rightarrow> False | Some lastT \<Rightarrow> time_sub now lastT < freshness))"

definition MergeMetrics ::
  "Device \<Rightarrow> (string, MetricValue) gomap \<Rightarrow> Cache \<Rightarrow> Cache \<times> DeviceState option" where
  "MergeMetrics dev metrics c =
     (let key = deviceKey dev;
          dc = dc_of key c;
          dc1 = dc\<lparr>k_metrics := go_copy_into (k_metrics dc) metrics\<rparr>;
          c1 = c\<lparr>ca_metrics := (ca_metrics c)(key \<mapsto> dc1)\<rparr>
      in (c1, snapshotLocked dev key dc1 True c1))"

definition UpdateFromINF ::
  "Device \<Rightarrow> (string, MetricValue) gomap \<Rightarrow> Cache \<Rightarrow> Cache \<times> DeviceState option" where
  "UpdateFromINF dev metrics c = MergeMetrics dev metrics c"

definition FindDeviceByIPAndEOJ :: "string \<Rightarrow> eoj \<Rightarrow> Device list \<Rightarrow> Cache \<Rightarrow> Device option" where
  "FindDeviceByIPAndEOJ ip seoj devices c =
     find (\<lambda>dev. dv_IP dev = ip \<and> ca_eojByDev c (deviceKey dev) = Some seoj) devices"

definition IngestNotification ::
  "(float64 \<Rightarrow> int) \<Rightarrow> (float64 \<Rightarrow> float64) \<Rightarrow> time \<Rightarrow> string \<Rightarrow> eoj \<Rightarrow> Property list \<Rightarrow> Device list \<Rightarrow> Cache \<Rightarrow>
     Cache \<times> DeviceState option" where
  "IngestNotification oor log10f now ip seoj props devices c =
     (case FindDeviceByIPAndEOJ ip seoj devices c of
        None \<Rightarrow> (c, None)
      | Some dev \<Rightarrow>
          (case GetDeviceSpecs dev c of
             None \<Rightarrow> (c, None)
           | Some devSpecs \<Rightarrow>
               let epcs = map p_EPC props;
                   c1 = RecordPush now dev epcs c;
                   relevantSpecs = filter (\<lambda>s. m_EPC s \<in> set epcs) devSpecs;
                   metrics = ParsePropsToMetrics oor log10f props relevantSpecs
               in if metrics \<noteq> [] then MergeMetrics dev metrics c1 else (c1, None)))"

definition UpdateInfo :: "Device \<Rightarrow> DeviceInfo \<Rightarrow> Cache \<Rightarrow> Cache" where
  "UpdateInfo dev info0 c =
     (let info1 = (if v_Manufacturer info0 = [] \<and> dv_Manufacturer dev \<noteq> []
                   then info0\<lparr>v_Manufacturer := dv_Manufacturer dev\<rparr> else info0);
          info = (if v_ProductCode info1 = [] \<and> dv_Model dev \<noteq> []
                  then info1\<lparr>v_ProductCode := dv_Model dev\<rparr> else info1);
          key = deviceKey dev
      in c\<lparr>ca_metrics := (ca_metrics c)(key \<mapsto> (dc_of key c)\<lparr>k_info := info\<rparr>)\<rparr>)"

section \<open>Lemmas: keys and invariant\<close>

lemma append_bar_inj:
  assumes "a @ CHR ''|'' # b = a' @ CHR ''|'' # b'" "CHR ''|'' \<notin> set b" "CHR ''|'' \<notin> set b'"
  shows "a = a' \<and> b = b'"
proof -
  have "takeWhile (\<lambda>c. c \<noteq> CHR ''|'') (rev b @ CHR ''|'' # rev a) = rev b"
    "takeWhile (\<lambda>c. c \<noteq> CHR ''|'') (rev b' @ CHR ''|'' # rev a') = rev b'"
    using assms(2,3) by (subst takeWhile_append2; auto)+
  moreover have "rev b @ CHR ''|'' # rev a = rev b' @ CHR ''|'' # rev a'"
    using arg_cong [OF assms(1), of rev] by simp
  ultimately have "rev b = rev b'" by simp
  with assms(1) show ?thesis by simp
qed

text \<open>The key separates devices unless an address or a class holds the separator.\<close>

lemma deviceKey_inj:
  assumes "deviceKey d = deviceKey d'"
    and "CHR ''|'' \<notin> set (dv_IP d) \<union> set (dv_Class d) \<union> set (dv_IP d') \<union> set (dv_Class d')"
  shows "dv_Name d = dv_Name d' \<and> dv_IP d = dv_IP d' \<and> dv_Class d = dv_Class d'"
proof -
  have "(dv_Name d @ ''|'' @ dv_IP d) @ CHR ''|'' # dv_Class d = (dv_Name d' @ ''|'' @ dv_IP d') @ CHR ''|'' # dv_Class d'"
    using assms(1) by (simp add: deviceKey_def)
  from append_bar_inj [OF this] assms(2)
  have 1: "dv_Name d @ ''|'' @ dv_IP d = dv_Name d' @ ''|'' @ dv_IP d'" "dv_Class d = dv_Class d'" by auto
  from 1(1) have "dv_Name d @ CHR ''|'' # dv_IP d = dv_Name d' @ CHR ''|'' # dv_IP d'" by simp
  from append_bar_inj [OF this] assms(2) 1(2) show ?thesis by auto
qed

definition dc_ok :: "deviceCache \<Rightarrow> bool" where
  "dc_ok dc \<longleftrightarrow> gomap_ok (k_groups dc) \<and> gomap_ok (k_metrics dc)"

definition cache_ok :: "Cache \<Rightarrow> bool" where
  "cache_ok c \<longleftrightarrow> (\<forall>key dc. ca_metrics c key = Some dc \<longrightarrow> dc_ok dc)"

lemma zero_dc_ok [simp]: "dc_ok zero_dc"
  by (simp add: dc_ok_def zero_dc_def)

lemma dc_of_ok: "cache_ok c \<Longrightarrow> dc_ok (dc_of key c)"
  by (auto simp: cache_ok_def dc_of_def split: option.splits)

lemma NewCache_ok [wf_intros]: "cache_ok NewCache"
  by (simp add: cache_ok_def NewCache_def)

lemma cache_ok_put [wf_intros]:
  "cache_ok c \<Longrightarrow> dc_ok dc \<Longrightarrow> cache_ok (c\<lparr>ca_metrics := (ca_metrics c)(key \<mapsto> dc)\<rparr>)"
  by (simp add: cache_ok_def)

lemma Update_ok [wf_intros]: "cache_ok c \<Longrightarrow> cache_ok (fst (Update now dev gid interval success dur metrics err c))"
  using dc_of_ok [of c "deviceKey dev"] by (auto simp: Update_def Let_def dc_ok_def intro!: cache_ok_put)

lemma MergeMetrics_ok [wf_intros]: "cache_ok c \<Longrightarrow> cache_ok (fst (MergeMetrics dev metrics c))"
  using dc_of_ok [of c "deviceKey dev"] by (auto simp: MergeMetrics_def Let_def dc_ok_def intro!: cache_ok_put)

lemma UpdateInfo_ok [wf_intros]: "cache_ok c \<Longrightarrow> cache_ok (UpdateInfo dev info c)"
  using dc_of_ok [of c "deviceKey dev"] by (auto simp: UpdateInfo_def Let_def dc_ok_def intro!: cache_ok_put)

lemma RecordPush_ok [wf_intros]: "cache_ok c \<Longrightarrow> cache_ok (RecordPush now dev epcs c)"
  by (simp add: RecordPush_def cache_ok_def Let_def)

lemma Ingest_ok [wf_intros]: "cache_ok c \<Longrightarrow> cache_ok (fst (IngestNotification oor l now ip seoj props devs c))"
  by (auto simp: IngestNotification_def Let_def intro: MergeMetrics_ok RecordPush_ok split: option.splits)

section \<open>The attributes of a device as a store\<close>

text \<open>
  The contract every attribute keeps: reading gives what was last put for a device with the same
  key. \<open>wrap\<close> is how a stored value is returned (the second result of a Go map lookup).
\<close>

locale device_store =
  fixes put :: "Device \<Rightarrow> 'v \<Rightarrow> Cache \<Rightarrow> Cache" and read :: "Device \<Rightarrow> Cache \<Rightarrow> 'r" and wrap :: "'v \<Rightarrow> 'r"
  assumes read_put: "read d' (put d v c) = (if deviceKey d' = deviceKey d then wrap v else read d' c)"
begin

lemma read_same: "deviceKey d' = deviceKey d \<Longrightarrow> read d' (put d v c) = wrap v"
  by (simp add: read_put)

lemma read_other: "deviceKey d' \<noteq> deviceKey d \<Longrightarrow> read d' (put d v c) = read d' c"
  by (simp add: read_put)

end

interpretation specs_store: device_store SetDeviceSpecs GetDeviceSpecs Some
  by unfold_locales (simp add: SetDeviceSpecs_def GetDeviceSpecs_def)

interpretation climate_store: device_store SetDeviceClimate GetDeviceClimate "\<lambda>v. v"
  by unfold_locales (simp add: SetDeviceClimate_def GetDeviceClimate_def split: option.splits)

interpretation light_store: device_store SetDeviceLight GetDeviceLight "\<lambda>v. v"
  by unfold_locales (simp add: SetDeviceLight_def GetDeviceLight_def split: option.splits)

interpretation writable_store: device_store SetWritableEPCs GetWritableEPCs Some
  by unfold_locales (simp add: SetWritableEPCs_def GetWritableEPCs_def)

interpretation eoj_store: device_store SetDeviceEOJ GetDeviceEOJ Some
  by unfold_locales (simp add: SetDeviceEOJ_def GetDeviceEOJ_def)

section \<open>Sequences of writes\<close>

text \<open>The operations that write what is stored for one device, as the callers issue them.\<close>

datatype cache_op =
    PutSpecs Device "MetricSpec list"
  | PutClimate Device "ClimateSpec option"
  | PutLight Device "LightSpec option"
  | PutWritable Device "byte set option"
  | PutEOJ Device eoj
  | PutNotify Device "byte set"
  | Push time Device bytes
  | Poll time Device string duration bool float64 "(string, MetricValue) gomap" string
  | Merge Device "(string, MetricValue) gomap"
  | Info Device DeviceInfo

fun cache_apply :: "cache_op \<Rightarrow> Cache \<Rightarrow> Cache" where
  "cache_apply (PutSpecs dev s) c = SetDeviceSpecs dev s c"
| "cache_apply (PutClimate dev s) c = SetDeviceClimate dev s c"
| "cache_apply (PutLight dev s) c = SetDeviceLight dev s c"
| "cache_apply (PutWritable dev w) c = SetWritableEPCs dev w c"
| "cache_apply (PutEOJ dev e) c = SetDeviceEOJ dev e c"
| "cache_apply (PutNotify dev es) c = SetNotificationEPCs dev es c"
| "cache_apply (Push now dev epcs) c = RecordPush now dev epcs c"
| "cache_apply (Poll now dev gid interval success dur metrics err) c
    = fst (Update now dev gid interval success dur metrics err c)"
| "cache_apply (Merge dev metrics) c = fst (MergeMetrics dev metrics c)"
| "cache_apply (Info dev info) c = UpdateInfo dev info c"

fun op_device :: "cache_op \<Rightarrow> Device" where
  "op_device (PutSpecs dev s) = dev"
| "op_device (PutClimate dev s) = dev"
| "op_device (PutLight dev s) = dev"
| "op_device (PutWritable dev w) = dev"
| "op_device (PutEOJ dev e) = dev"
| "op_device (PutNotify dev es) = dev"
| "op_device (Push now dev epcs) = dev"
| "op_device (Poll now dev gid interval success dur metrics err) = dev"
| "op_device (Merge dev metrics) = dev"
| "op_device (Info dev info) = dev"

definition same_device :: "Device \<Rightarrow> Device \<Rightarrow> bool" where
  "same_device d d' \<longleftrightarrow> dv_Name d = dv_Name d' \<and> dv_IP d = dv_IP d' \<and> dv_Class d = dv_Class d'"

text \<open>The last value that a sequence puts for a device; \<open>put\<close> says which operations count.\<close>

definition last_put :: "(cache_op \<Rightarrow> 'v option) \<Rightarrow> Device \<Rightarrow> cache_op list \<Rightarrow> 'v option" where
  "last_put put d ops =
     (case find (\<lambda>x. put x \<noteq> None \<and> same_device (op_device x) d) (rev ops) of Some x \<Rightarrow> put x | None \<Rightarrow> None)"

definition put_specs :: "cache_op \<Rightarrow> MetricSpec list option" where
  "put_specs x = (case x of PutSpecs _ s \<Rightarrow> Some s | _ \<Rightarrow> None)"

definition put_climate :: "cache_op \<Rightarrow> ClimateSpec option option" where
  "put_climate x = (case x of PutClimate _ s \<Rightarrow> Some s | _ \<Rightarrow> None)"

definition put_light :: "cache_op \<Rightarrow> LightSpec option option" where
  "put_light x = (case x of PutLight _ s \<Rightarrow> Some s | _ \<Rightarrow> None)"

definition put_writable :: "cache_op \<Rightarrow> byte set option option" where
  "put_writable x = (case x of PutWritable _ w \<Rightarrow> Some w | _ \<Rightarrow> None)"

definition put_eoj :: "cache_op \<Rightarrow> eoj option" where
  "put_eoj x = (case x of PutEOJ _ e \<Rightarrow> Some e | _ \<Rightarrow> None)"

definition no_bar :: "Device \<Rightarrow> bool" where
  "no_bar d \<longleftrightarrow> CHR ''|'' \<notin> set (dv_IP d) \<union> set (dv_Class d)"

lemma same_device_key: "no_bar d \<Longrightarrow> no_bar d' \<Longrightarrow> same_device d d' \<longleftrightarrow> deviceKey d = deviceKey d'"
  using deviceKey_inj [of d d'] by (auto simp: no_bar_def same_device_def deviceKey_def)

text \<open>An attribute in a sequence of all operations: \<open>sel\<close> picks the ones that put it, the others keep it.\<close>

locale device_attribute = device_store put read wrap
  for put :: "Device \<Rightarrow> 'v \<Rightarrow> Cache \<Rightarrow> Cache" and read :: "Device \<Rightarrow> Cache \<Rightarrow> 'r" and wrap :: "'v \<Rightarrow> 'r" +
  fixes sel :: "cache_op \<Rightarrow> 'v option"
  assumes apply_put: "sel x = Some v \<Longrightarrow> cache_apply x c = put (op_device x) v c"
    and apply_other: "sel x = None \<Longrightarrow> read d (cache_apply x c) = read d c"
begin

lemma read_last_put:
  assumes "\<forall>x \<in> set ops. no_bar (op_device x)" "no_bar d"
  shows "read d (fold cache_apply ops c) = (case last_put sel d ops of Some v \<Rightarrow> wrap v | None \<Rightarrow> read d c)"
  using assms(1)
proof (induction ops rule: rev_induct)
  case (snoc x ops)
  then have IH: "read d (fold cache_apply ops c) = (case last_put sel d ops of Some v \<Rightarrow> wrap v | None \<Rightarrow> read d c)"
    and same: "same_device (op_device x) d \<longleftrightarrow> deviceKey (op_device x) = deviceKey d"
    using same_device_key [OF _ assms(2), of "op_device x"] by auto
  show ?case
  proof (cases "sel x")
    case None
    with IH show ?thesis by (simp add: apply_other last_put_def)
  next
    case (Some v)
    with IH same show ?thesis by (cases "same_device (op_device x) d") (simp_all add: apply_put read_same read_other last_put_def)
  qed
qed (simp add: last_put_def)

end

lemmas attribute_defs =
  SetDeviceSpecs_def SetDeviceClimate_def SetDeviceLight_def SetWritableEPCs_def SetDeviceEOJ_def
  SetNotificationEPCs_def RecordPush_def Update_def MergeMetrics_def UpdateInfo_def Let_def
  GetDeviceSpecs_def GetDeviceClimate_def GetDeviceLight_def GetWritableEPCs_def GetDeviceEOJ_def
  put_specs_def put_climate_def put_light_def put_writable_def put_eoj_def

interpretation specs_attr: device_attribute SetDeviceSpecs GetDeviceSpecs Some put_specs
proof
  show "put_specs x = Some v \<Longrightarrow> cache_apply x c = SetDeviceSpecs (op_device x) v c" for x v c
    by (cases x) (simp_all add: put_specs_def)
  show "put_specs x = None \<Longrightarrow> GetDeviceSpecs d (cache_apply x c) = GetDeviceSpecs d c" for x d c
    by (cases x) (simp_all add: attribute_defs split: option.split)
qed

interpretation eoj_attr: device_attribute SetDeviceEOJ GetDeviceEOJ Some put_eoj
proof
  show "put_eoj x = Some v \<Longrightarrow> cache_apply x c = SetDeviceEOJ (op_device x) v c" for x v c
    by (cases x) (simp_all add: put_eoj_def)
  show "put_eoj x = None \<Longrightarrow> GetDeviceEOJ d (cache_apply x c) = GetDeviceEOJ d c" for x d c
    by (cases x) (simp_all add: attribute_defs split: option.split)
qed

interpretation writable_attr: device_attribute SetWritableEPCs GetWritableEPCs Some put_writable
proof
  show "put_writable x = Some v \<Longrightarrow> cache_apply x c = SetWritableEPCs (op_device x) v c" for x v c
    by (cases x) (simp_all add: put_writable_def)
  show "put_writable x = None \<Longrightarrow> GetWritableEPCs d (cache_apply x c) = GetWritableEPCs d c" for x d c
    by (cases x) (simp_all add: attribute_defs split: option.split)
qed

interpretation climate_attr: device_attribute SetDeviceClimate GetDeviceClimate "\<lambda>v. v" put_climate
proof
  show "put_climate x = Some v \<Longrightarrow> cache_apply x c = SetDeviceClimate (op_device x) v c" for x v c
    by (cases x) (simp_all add: put_climate_def)
  show "put_climate x = None \<Longrightarrow> GetDeviceClimate d (cache_apply x c) = GetDeviceClimate d c" for x d c
    by (cases x) (simp_all add: attribute_defs split: option.split)
qed

interpretation light_attr: device_attribute SetDeviceLight GetDeviceLight "\<lambda>v. v" put_light
proof
  show "put_light x = Some v \<Longrightarrow> cache_apply x c = SetDeviceLight (op_device x) v c" for x v c
    by (cases x) (simp_all add: put_light_def)
  show "put_light x = None \<Longrightarrow> GetDeviceLight d (cache_apply x c) = GetDeviceLight d c" for x d c
    by (cases x) (simp_all add: attribute_defs split: option.split)
qed

text \<open>What is stored for a device.\<close>

definition stored :: "string \<Rightarrow> Cache \<Rightarrow> Cache" where
  "stored key c = \<lparr>ca_metrics = ca_metrics c |` {key}, ca_onUpdate = ca_onUpdate c,
     ca_specsByDev = ca_specsByDev c |` {key}, ca_climateByDev = ca_climateByDev c |` {key},
     ca_lightByDev = ca_lightByDev c |` {key}, ca_writableEPCs = ca_writableEPCs c |` {key},
     ca_eojByDev = ca_eojByDev c |` {key}, ca_notifyEPCs = ca_notifyEPCs c |` {key},
     ca_lastPush = ca_lastPush c |` {key}, ca_forcePolling = ca_forcePolling c\<rparr>"

lemma stored_apply: "deviceKey (op_device x) \<noteq> key \<Longrightarrow> stored key (cache_apply x c) = stored key c"
  by (cases x) (auto simp: stored_def SetDeviceSpecs_def SetDeviceClimate_def SetDeviceLight_def SetWritableEPCs_def
      SetDeviceEOJ_def SetNotificationEPCs_def RecordPush_def Update_def MergeMetrics_def UpdateInfo_def Let_def
      split: option.split)

lemma stored_run: "\<forall>x \<in> set ops. deviceKey (op_device x) \<noteq> key \<Longrightarrow> stored key (fold cache_apply ops c) = stored key c"
  by (induction ops arbitrary: c) (auto simp: stored_apply)

lemma stored_eq:
  "stored key c = stored key c' \<longleftrightarrow> ca_metrics c key = ca_metrics c' key \<and> ca_onUpdate c = ca_onUpdate c'
    \<and> ca_specsByDev c key = ca_specsByDev c' key \<and> ca_climateByDev c key = ca_climateByDev c' key
    \<and> ca_lightByDev c key = ca_lightByDev c' key \<and> ca_writableEPCs c key = ca_writableEPCs c' key
    \<and> ca_eojByDev c key = ca_eojByDev c' key \<and> ca_notifyEPCs c key = ca_notifyEPCs c' key
    \<and> ca_lastPush c key = ca_lastPush c' key \<and> ca_forcePolling c = ca_forcePolling c'"
  by (auto simp: stored_def fun_eq_iff restrict_map_def)

lemma stored_readers:
  assumes "stored (deviceKey d) c' = stored (deviceKey d) c"
  shows "Get t d c' = Get t d c \<and> GetInfo d c' = GetInfo d c \<and> HasDeviceInfo d c' = HasDeviceInfo d c
    \<and> HasWritableMap d c' = HasWritableMap d c \<and> HasNotificationMap d c' = HasNotificationMap d c
    \<and> ShouldSkipPoll t d epc freshness c' = ShouldSkipPoll t d epc freshness c \<and> TriggerUpdate d c' = TriggerUpdate d c"
proof -
  have "ShouldSkipPoll t d epc freshness c' = ShouldSkipPoll t d epc freshness c"
    using assms by (simp add: stored_eq ShouldSkipPoll_def split: option.split)
  then show ?thesis
    using assms by (simp add: stored_eq Get_def GetInfo_def HasDeviceInfo_def HasWritableMap_def HasNotificationMap_def
        TriggerUpdate_def snapshotLocked_def dc_of_def Let_def)
qed

text \<open>A notification is a push and a merge for the device it is found to belong to, or nothing.\<close>

lemma ingest_ops:
  "\<exists>ops. fst (IngestNotification oor log10f now ip seoj props devices c) = fold cache_apply ops c
    \<and> (\<forall>x \<in> set ops. FindDeviceByIPAndEOJ ip seoj devices c = Some (op_device x))"
proof (cases "FindDeviceByIPAndEOJ ip seoj devices c = None \<or> (\<exists>dev. FindDeviceByIPAndEOJ ip seoj devices c = Some dev
    \<and> GetDeviceSpecs dev c = None)")
  case True
  then show ?thesis by (intro exI [of _ "[]"]) (auto simp: IngestNotification_def)
next
  case False
  then obtain dev devSpecs where d: "FindDeviceByIPAndEOJ ip seoj devices c = Some dev" "GetDeviceSpecs dev c = Some devSpecs"
    by auto
  let ?epcs = "map p_EPC props"
  let ?m = "ParsePropsToMetrics oor log10f props (filter (\<lambda>s. m_EPC s \<in> set ?epcs) devSpecs)"
  show ?thesis
    by (rule exI [of _ "Push now dev ?epcs # (if ?m \<noteq> [] then [Merge dev ?m] else [])"])
      (simp add: IngestNotification_def d Let_def)
qed

section \<open>Lemmas: reading the status\<close>

definition group_fresh :: "time \<Rightarrow> groupStatus \<Rightarrow> bool" where
  "group_fresh now gs \<longleftrightarrow> g_success gs
     \<and> time_sub now (g_lastAttempt gs) \<le> max (5 * second) (wrap64 (g_interval gs * 2))"

lemma get_step_fresh:
  "snd (snd (snd (get_step now gs acc))) \<longleftrightarrow> group_fresh now gs \<or> snd (snd (snd acc))"
  by (auto simp: get_step_def group_fresh_def Let_def max_def split: prod.splits)

lemma get_step_latest:
  "fst (snd (snd (get_step now gs acc))) = max (fst (snd (snd acc))) (g_lastSuccess gs)"
  by (auto simp: get_step_def Let_def max_def split: prod.splits)

lemma get_fold_fresh:
  "snd (snd (snd (fold (\<lambda>(gid, gs). get_step now gs) gs acc)))
    \<longleftrightarrow> (\<exists>p \<in> set gs. group_fresh now (snd p)) \<or> snd (snd (snd acc))"
  by (induction gs arbitrary: acc) (auto simp: get_step_fresh split: prod.splits)

lemma get_fold_latest:
  "fst (snd (snd (fold (\<lambda>(gid, gs). get_step now gs) gs acc)))
    = fold (\<lambda>(gid, gs). max (g_lastSuccess gs)) gs (fst (snd (snd acc)))"
  by (induction gs arbitrary: acc) (auto simp: get_step_latest max.commute split: prod.splits)

lemma Get_Some:
  assumes "ca_metrics c (deviceKey dev) = Some dc"
  shows "fst (Get now dev c) \<longleftrightarrow> (\<exists>p \<in> set (k_groups dc). group_fresh now (snd p))"
    "snd (snd (snd (Get now dev c))) = Some (go_copy_into [] (k_metrics dc))"
  using assms get_fold_fresh [of now "k_groups dc" "(zero_time, Zero False, zero_time, False)"]
  by (auto simp: Get_def split: prod.splits)

lemma Get_cong:
  "ca_metrics c (deviceKey dev) = ca_metrics c' (deviceKey dev) \<Longrightarrow> Get now dev c = Get now dev c'"
  by (simp add: Get_def)

definition get_status :: "bool \<times> float64 \<times> time \<times> (string, MetricValue) gomap option \<Rightarrow> bool \<times> float64 \<times> time" where
  "get_status r = (case r of (a, b, c, _) \<Rightarrow> (a, b, c))"

lemma get_status_groups:
  "get_status (Get now dev c) = (case fold (\<lambda>(gid, gs). get_step now gs) (k_groups (dc_of (deviceKey dev) c))
       (zero_time, Zero False, zero_time, False) of (la, ld, ls, ag) \<Rightarrow> (ag, ld, ls))"
  by (auto simp: Get_def get_status_def dc_of_def zero_dc_def split: option.splits prod.splits)

lemma time_sub_nonneg_le: "now \<le> t \<Longrightarrow> t - now \<le> d \<Longrightarrow> 0 \<le> d \<Longrightarrow> d < 2 ^ 63 - 1 \<Longrightarrow> time_sub t now \<le> d"
  by (subst time_sub_le_iff) auto

lemma merge_then_get:
  assumes "cache_ok c" "gomap_ok metrics" "map_of metrics n = Some mv"
  shows "\<exists>ms. snd (snd (snd (Get t dev (fst (MergeMetrics dev metrics c))))) = Some ms \<and> map_of ms n = Some mv"
proof -
  let ?dc = "(dc_of (deviceKey dev) c)\<lparr>k_metrics := go_copy_into (k_metrics (dc_of (deviceKey dev) c)) metrics\<rparr>"
  have dc: "ca_metrics (fst (MergeMetrics dev metrics c)) (deviceKey dev) = Some ?dc"
    by (simp add: MergeMetrics_def Let_def)
  have "gomap_ok (k_metrics (dc_of (deviceKey dev) c))" using dc_of_ok [OF assms(1)] by (simp add: dc_ok_def)
  then have "map_of (go_copy_into [] (k_metrics ?dc)) n = Some mv" using assms(2,3) by (simp add: map_of_copy_into)
  with Get_Some(2) [OF dc] show ?thesis by blast
qed

lemma merge_update:
  assumes "cache_ok c" "gomap_ok metrics" "map_of metrics n = Some mv" "ca_onUpdate c"
  shows "\<exists>st. snd (MergeMetrics dev metrics c) = Some st \<and> st_Device st = dev \<and> st_Success st
    \<and> gomap_ok (st_Metrics st) \<and> map_of (st_Metrics st) n = Some mv"
proof -
  have "gomap_ok (k_metrics (dc_of (deviceKey dev) c))" using dc_of_ok [OF assms(1)] by (simp add: dc_ok_def)
  with assms show ?thesis by (simp add: MergeMetrics_def snapshotLocked_def Let_def map_of_copy_into)
qed

lemma ingest_metric:
  assumes "FindDeviceByIPAndEOJ ip seoj devices c = Some dev" "GetDeviceSpecs dev c = Some ms"
    and "distinct (map m_Name ms)" "m \<in> set ms" "find_prop ps (m_EPC m) = Some edt"
    and "parseEDTWithReason oor log10f edt m = Inr v" "m_MultiplierEPC m = 0"
  shows "\<exists>metrics. IngestNotification oor log10f now ip seoj ps devices c = MergeMetrics dev metrics (RecordPush now dev (map p_EPC ps) c)
    \<and> gomap_ok metrics
    \<and> map_of metrics (m_Name m) = Some \<lparr>mv_Value = v, mv_Type = m_Type m, mv_EnumLabel = enum_label oor m v\<rparr>"
proof -
  let ?ms = "filter (\<lambda>s. m_EPC s \<in> set (map p_EPC ps)) ms"
  let ?parsed = "ParsePropsToMetrics oor log10f ps ?ms"
  have "m_EPC m \<in> set (map p_EPC ps)" using assms(5)
    by (induction ps) (auto simp: find_prop_def split: if_splits)
  then have "m \<in> set ?ms" "distinct (map m_Name ?ms)" using assms(3,4) by (auto intro: distinct_map_filter)
  then have parsed: "map_of ?parsed (m_Name m) = Some \<lparr>mv_Value = v, mv_Type = m_Type m, mv_EnumLabel = enum_label oor m v\<rparr>"
    using parsed_metric [of ?ms m ps edt oor log10f v] assms(5-7) by (simp add: apply_multiplier_def)
  then have "?parsed \<noteq> []" by auto
  then have "IngestNotification oor log10f now ip seoj ps devices c = MergeMetrics dev ?parsed (RecordPush now dev (map p_EPC ps) c)"
    using assms(1,2) by (simp add: IngestNotification_def Let_def)
  with parsed ParsePropsToMetrics_ok show ?thesis by blast
qed

section \<open>Properties\<close>

text \<open>C29: a successful poll shows up at once and stays: read within twice the polling interval (or five
  seconds, if that is longer), the device counts as up, every value of the poll is the current
  one and every other metric keeps its value.\<close>

theorem poll_then_get:
  assumes "cache_ok c" "gomap_ok metrics" "0 \<le> interval" "2 * interval < 2 ^ 63 - 1"
    and "now \<le> now'" "now' \<le> now + max (5 * second) (2 * interval)"
  shows "\<exists>m. fst (Get now' dev (fst (Update now dev gid interval True dur metrics err c))) = True
    \<and> snd (snd (snd (Get now' dev (fst (Update now dev gid interval True dur metrics err c))))) = Some m
    \<and> map_of m = map_of (k_metrics (dc_of (deviceKey dev) c)) ++ map_of metrics"
proof -
  let ?c = "fst (Update now dev gid interval True dur metrics err c)" and ?old = "dc_of (deviceKey dev) c"
  obtain dc where dc: "ca_metrics ?c (deviceKey dev) = Some dc"
    and m: "k_metrics dc = go_copy_into (k_metrics ?old) metrics"
    and g: "\<exists>gs. map_of (k_groups dc) gid = Some gs \<and> g_interval gs = interval \<and> g_success gs \<and> g_lastAttempt gs = now"
    by (auto simp: Update_def Let_def update_group_def)
  obtain gs where gs: "(gid, gs) \<in> set (k_groups dc)" "g_interval gs = interval" "g_success gs" "g_lastAttempt gs = now"
    using g by (blast dest: map_of_SomeD)
  have iv: "wrap64 (interval * 2) = 2 * interval" using assms(3,4) by (simp add: int64_ok_def mult.commute)
  have "time_sub now' now \<le> max (5 * second) (2 * interval)"
    using assms(3-6) by (intro time_sub_nonneg_le) auto
  then have "group_fresh now' gs" by (simp add: group_fresh_def gs iv)
  with gs(1) have "fst (Get now' dev ?c)" unfolding Get_Some(1) [OF dc] by force
  moreover have "map_of (go_copy_into [] (k_metrics dc)) = map_of (k_metrics ?old) ++ map_of metrics"
    using assms(2) dc_of_ok [OF assms(1), of "deviceKey dev"] by (simp add: m map_of_copy_into dc_ok_def)
  ultimately show ?thesis unfolding Get_Some(2) [OF dc] by blast
qed

theorem poll_then_get_witness:
  "fst (Get (3 * second) sample_device (fst (Update second sample_device ''60s'' (60 * second) True (Zero False) [] [] NewCache)))"
  using poll_then_get [OF NewCache_ok gomap_ok_Nil, of "60 * second" second "3 * second" sample_device "''60s''" "Zero False" "[]"]
  by auto

text \<open>A push leaves the polling status alone: an incoming notification changes neither the
  success, nor the duration, nor the time of the last scrape that any device reports.\<close>

theorem notification_keeps_status:
  "get_status (Get t d (fst (IngestNotification oor log10f now ip seoj props devices c))) = get_status (Get t d c)"
proof -
  have merge: "get_status (Get t d (fst (MergeMetrics dev m c'))) = get_status (Get t d c')" for dev m c'
    unfolding get_status_groups by (auto simp: MergeMetrics_def Let_def dc_of_def)
  have push: "get_status (Get t d (RecordPush now dev epcs c)) = get_status (Get t d c)" for dev epcs
    unfolding get_status_groups by (simp add: RecordPush_def Let_def dc_of_def)
  show ?thesis
    by (auto simp: IngestNotification_def Let_def merge push split: option.splits)
qed

text \<open>C31: what is stored for one device is not seen by another. In every sequence of writes - specs,
  objects, maps, controls, pushes, polls, merges and identity updates, of any devices -, the specs,
  EOJ, writable map and controls read for a device are the last ones put for the device of its name,
  address and class, or what was read before if there were none; and a sequence of writes to other
  devices changes nothing that is read for it: the status and metrics, the identity, what is known of
  its maps, the decision to skip a poll and the state handed to the publisher. It supposes that no
  address or class holds a \<open>|\<close>.\<close>

theorem devices_isolated:
  assumes "no_bar d" "\<forall>x \<in> set ops. no_bar (op_device x)" and "c' = fold cache_apply ops c"
  shows "GetDeviceSpecs d c' = (case last_put put_specs d ops of Some s \<Rightarrow> Some s | None \<Rightarrow> GetDeviceSpecs d c)
    \<and> GetDeviceEOJ d c' = (case last_put put_eoj d ops of Some e \<Rightarrow> Some e | None \<Rightarrow> GetDeviceEOJ d c)
    \<and> GetWritableEPCs d c' = (case last_put put_writable d ops of Some w \<Rightarrow> Some w | None \<Rightarrow> GetWritableEPCs d c)
    \<and> GetDeviceClimate d c' = (case last_put put_climate d ops of Some s \<Rightarrow> s | None \<Rightarrow> GetDeviceClimate d c)
    \<and> GetDeviceLight d c' = (case last_put put_light d ops of Some s \<Rightarrow> s | None \<Rightarrow> GetDeviceLight d c)
    \<and> ((\<forall>x \<in> set ops. \<not> same_device (op_device x) d) \<longrightarrow>
        Get t d c' = Get t d c \<and> GetInfo d c' = GetInfo d c \<and> HasDeviceInfo d c' = HasDeviceInfo d c
        \<and> HasWritableMap d c' = HasWritableMap d c \<and> HasNotificationMap d c' = HasNotificationMap d c
        \<and> ShouldSkipPoll t d epc freshness c' = ShouldSkipPoll t d epc freshness c
        \<and> TriggerUpdate d c' = TriggerUpdate d c)"
proof -
  have "stored (deviceKey d) c' = stored (deviceKey d) c" if "\<forall>x \<in> set ops. \<not> same_device (op_device x) d"
    unfolding assms(3) using that assms(1,2) same_device_key by (intro stored_run) blast
  then show ?thesis
    unfolding assms(3) specs_attr.read_last_put [OF assms(2,1)] eoj_attr.read_last_put [OF assms(2,1)]
      writable_attr.read_last_put [OF assms(2,1)] climate_attr.read_last_put [OF assms(2,1)]
      light_attr.read_last_put [OF assms(2,1)]
    by (intro conjI refl impI stored_readers) simp
qed

abbreviation other_device :: Device where
  "other_device \<equiv> sample_device\<lparr>dv_IP := ''10.0.0.8''\<rparr>"

theorem devices_isolated_witness:
  "let c' = fold cache_apply [PutEOJ sample_device (1, 0x30, 1), PutEOJ other_device (1, 0x30, 2),
      Merge other_device [], Push 5 sample_device [0x80]] NewCache
   in GetDeviceEOJ sample_device c' = Some (1, 0x30, 1) \<and> GetDeviceSpecs sample_device c' = None
    \<and> Get 0 sample_device (fold cache_apply [Info other_device zero_info, PutEOJ other_device (1, 0x30, 2)] c') = Get 0 sample_device c'"
proof -
  let ?ops = "[PutEOJ sample_device (1, 0x30, 1), PutEOJ other_device (1, 0x30, 2), Merge other_device [],
    Push 5 sample_device [0x80]]"
  let ?more = "[Info other_device zero_info, PutEOJ other_device (1, 0x30, 2)]"
  have bar: "no_bar sample_device" "no_bar other_device" by (simp_all add: no_bar_def)
  then have ops: "\<forall>x \<in> set ?ops. no_bar (op_device x)" "\<forall>x \<in> set ?more. no_bar (op_device x)"
    by (simp_all add: no_bar_def)
  have last: "last_put put_eoj sample_device ?ops = Some (1, 0x30, 1)" "last_put put_specs sample_device ?ops = None"
    by (simp_all add: last_put_def put_eoj_def put_specs_def same_device_def)
  have "GetDeviceSpecs sample_device NewCache = None" by (simp add: GetDeviceSpecs_def NewCache_def)
  with devices_isolated [OF bar(1) ops(1) refl, of NewCache]
  have "GetDeviceEOJ sample_device (fold cache_apply ?ops NewCache) = Some (1, 0x30, 1)"
    "GetDeviceSpecs sample_device (fold cache_apply ?ops NewCache) = None"
    unfolding last by (simp_all only: option.case)
  moreover have "\<forall>x \<in> set ?more. \<not> same_device (op_device x) sample_device" by (simp add: same_device_def)
  with devices_isolated [OF bar(1) ops(2) refl, of "fold cache_apply ?ops NewCache" 0]
  have "Get 0 sample_device (fold cache_apply ?more (fold cache_apply ?ops NewCache))
      = Get 0 sample_device (fold cache_apply ?ops NewCache)" by blast
  ultimately show ?thesis by (simp only: Let_def)
qed

text \<open>The history of a cache as far as skipping polls goes.\<close>

datatype skip_event = Pushed time Device bytes | StatMap Device "byte set" | Forced bool

definition skip_run :: "skip_event list \<Rightarrow> Cache" where
  "skip_run evs = fold (\<lambda>e c. case e of
      Pushed now dev epcs \<Rightarrow> RecordPush now dev epcs c
    | StatMap dev notify \<Rightarrow> SetNotificationEPCs dev notify c
    | Forced b \<Rightarrow> SetForcePolling b c) evs NewCache"

definition last_pushed :: "string \<Rightarrow> byte \<Rightarrow> skip_event list \<Rightarrow> time option" where
  "last_pushed key epc evs =
     (case find (\<lambda>e. case e of Pushed now dev epcs \<Rightarrow> deviceKey dev = key \<and> epc \<in> set epcs | _ \<Rightarrow> False) (rev evs) of
        Some (Pushed now dev epcs) \<Rightarrow> Some now | _ \<Rightarrow> None)"

definition last_statmap :: "string \<Rightarrow> skip_event list \<Rightarrow> byte set option" where
  "last_statmap key evs =
     (case find (\<lambda>e. case e of StatMap dev notify \<Rightarrow> deviceKey dev = key | _ \<Rightarrow> False) (rev evs) of
        Some (StatMap dev notify) \<Rightarrow> Some notify | _ \<Rightarrow> None)"

definition last_forced :: "skip_event list \<Rightarrow> bool" where
  "last_forced evs =
     (case find (\<lambda>e. case e of Forced b \<Rightarrow> True | _ \<Rightarrow> False) (rev evs) of Some (Forced b) \<Rightarrow> b | _ \<Rightarrow> False)"

lemma fold_push: "fold (\<lambda>epc m. m(epc \<mapsto> now)) epcs m e = (if e \<in> set epcs then Some now else m e)"
  by (induction epcs arbitrary: m) auto

lemma skip_run_state:
  "ca_forcePolling (skip_run evs) = last_forced evs
   \<and> ca_notifyEPCs (skip_run evs) key = last_statmap key evs
   \<and> (case ca_lastPush (skip_run evs) key of Some m \<Rightarrow> m epc | None \<Rightarrow> None) = last_pushed key epc evs"
proof (induction evs rule: rev_induct)
  case Nil
  then show ?case by (simp add: skip_run_def NewCache_def last_forced_def last_statmap_def last_pushed_def)
next
  case (snoc e evs)
  have run: "skip_run (evs @ [e]) = (case e of
      Pushed now dev epcs \<Rightarrow> RecordPush now dev epcs (skip_run evs)
    | StatMap dev notify \<Rightarrow> SetNotificationEPCs dev notify (skip_run evs)
    | Forced b \<Rightarrow> SetForcePolling b (skip_run evs))"
    by (cases e) (simp_all add: skip_run_def)
  show ?case
  proof (cases e)
    case (Pushed now dev epcs)
    with snoc show ?thesis unfolding run
      by (auto simp: RecordPush_def Let_def fold_push last_forced_def last_statmap_def last_pushed_def split: option.splits)
  next
    case (StatMap dev notify)
    with snoc show ?thesis unfolding run
      by (auto simp: SetNotificationEPCs_def last_forced_def last_statmap_def last_pushed_def)
  next
    case (Forced b)
    with snoc show ?thesis unfolding run
      by (auto simp: SetForcePolling_def last_forced_def last_statmap_def last_pushed_def)
  qed
qed

text \<open>C30: a poll of a property is skipped exactly when the history says so: polling is not forced by the
  last setting, the device's last notification map lists the property, and the property was
  pushed, the last time less than the freshness window ago. In every other history the property
  is polled.\<close>

theorem skip_poll_refines_history:
  "ShouldSkipPoll now dev epc freshness (skip_run evs) \<longleftrightarrow>
     \<not> last_forced evs
     \<and> (\<exists>notify. last_statmap (deviceKey dev) evs = Some notify \<and> epc \<in> notify)
     \<and> (\<exists>t. last_pushed (deviceKey dev) epc evs = Some t \<and> time_sub now t < freshness)"
  using skip_run_state [of evs "deviceKey dev" epc]
  by (cases "last_pushed (deviceKey dev) epc evs") (auto simp: ShouldSkipPoll_def split: option.splits)

end
