(* ===== verification/Reconciler.thy ===== *)
theory Reconciler
  imports Cache
begin

text \<open>
  \<open>internal/poller/reconciler.go\<close>: the background discovery of what the cache does not know of a
  responsive device. The transport is \<open>tr\<close> with its state \<open>'s\<close>; \<open>ctxErr\<close> tells whether the
  context of the cycle has ended; \<open>v6\<close> and \<open>resolver\<close> are the parameters of \<open>GetDeviceInfo\<close>.
  \<open>ReconcileDevice\<close> decides, under its mutex, whether to start a cycle; \<open>doReconcile\<close> is the cycle.
  (That two cycles of one device never overlap is the promise of the \<open>singleflight\<close> package.)
  The lemmas show the cooldown, that a cycle only adds knowledge, and what it misses.
\<close>

abbreviation reconcileCooldown :: duration where "reconcileCooldown \<equiv> 60 * second"

record CapabilityReconciler =
  rc_hasClient :: bool
  rc_lastAttempt :: "string \<rightharpoonup> time"

definition NewCapabilityReconciler :: CapabilityReconciler where
  "NewCapabilityReconciler = \<lparr>rc_hasClient = False, rc_lastAttempt = Map.empty\<rparr>"

definition reconciler_SetClient :: "CapabilityReconciler \<Rightarrow> CapabilityReconciler" where
  "reconciler_SetClient r = r\<lparr>rc_hasClient := True\<rparr>"

definition NeedsReconciliation :: "Device \<Rightarrow> Cache \<Rightarrow> bool" where
  "NeedsReconciliation dev c \<longleftrightarrow> \<not> HasWritableMap dev c \<or> \<not> HasNotificationMap dev c \<or> \<not> HasDeviceInfo dev c"

text \<open>The decision of \<open>ReconcileDevice\<close>: the new state, and whether a cycle is started. A device that
  was never attempted has the zero time.\<close>

definition ReconcileDevice ::
  "time \<Rightarrow> Device \<Rightarrow> Cache \<Rightarrow> CapabilityReconciler \<Rightarrow> CapabilityReconciler \<times> bool" where
  "ReconcileDevice now dev c r =
     (if \<not> rc_hasClient r then (r, False)
      else if \<not> NeedsReconciliation dev c then (r, False)
      else
        let key = deviceKey dev;
            last = (case rc_lastAttempt r key of Some t \<Rightarrow> t | None \<Rightarrow> zero_time)
        in if time_sub now last < reconcileCooldown then (r, False)
           else (r\<lparr>rc_lastAttempt := (rc_lastAttempt r)(key \<mapsto> now)\<rparr>, True))"

text \<open>The state of a cycle: the cache, the transport, and whether anything was learnt.\<close>

type_synonym 's cycle = "Cache \<times> 's \<times> bool"

definition reconcile_writable ::
  "'s transport_ops \<Rightarrow> ('s \<Rightarrow> bool) \<Rightarrow> Device \<Rightarrow> eoj \<Rightarrow> 's cycle \<Rightarrow> 's cycle" where
  "reconcile_writable tr ctxErr dev eoj = (\<lambda>(c, s, updated).
     (if \<not> HasWritableMap dev c \<and> \<not> ctxErr s then
        (case GetWritablePropertyMap tr (dv_IP dev) eoj s of
           (Inl err, s1) \<Rightarrow>
             if isGetSNA (Some err) then (SetWritableEPCs dev (Some {}) c, s1, True) else (c, s1, updated)
         | (Inr writable, s1) \<Rightarrow> (SetWritableEPCs dev (Some writable) c, s1, True))
      else (c, s, updated)))"

definition reconcile_notify ::
  "'s transport_ops \<Rightarrow> ('s \<Rightarrow> bool) \<Rightarrow> Device \<Rightarrow> eoj \<Rightarrow> 's cycle \<Rightarrow> 's cycle" where
  "reconcile_notify tr ctxErr dev eoj = (\<lambda>(c, s, updated).
     (if \<not> HasNotificationMap dev c \<and> \<not> ctxErr s then
        (case GetNotificationPropertyMap tr (dv_IP dev) eoj s of
           (Inl err, s1) \<Rightarrow>
             if isGetSNA (Some err) then (SetNotificationEPCs dev {} c, s1, True) else (c, s1, updated)
         | (Inr notify, s1) \<Rightarrow> (SetNotificationEPCs dev notify c, s1, True))
      else (c, s, updated)))"

definition reconcile_info ::
  "(string \<Rightarrow> (byte \<times> byte \<times> byte \<times> byte) option) \<Rightarrow> (string \<Rightarrow> string) option \<Rightarrow> 's transport_ops \<Rightarrow>
     ('s \<Rightarrow> bool) \<Rightarrow> Device \<Rightarrow> eoj \<Rightarrow> 's cycle \<Rightarrow> 's cycle" where
  "reconcile_info v6 resolver tr ctxErr dev eoj = (\<lambda>(c, s, updated).
     (if \<not> HasDeviceInfo dev c \<and> \<not> ctxErr s then
        (case GetDeviceInfo v6 resolver tr (dv_IP dev) eoj (dv_Model dev) s of
           (Inl err, s1) \<Rightarrow> (c, s1, updated)
         | (Inr info, s1) \<Rightarrow>
             if v_Manufacturer info \<noteq> [] \<or> v_UID info \<noteq> [] then (UpdateInfo dev info c, s1, True)
             else (c, s1, updated))
      else (c, s, updated)))"

definition doReconcile ::
  "(string \<Rightarrow> (byte \<times> byte \<times> byte \<times> byte) option) \<Rightarrow> (string \<Rightarrow> string) option \<Rightarrow> 's transport_ops \<Rightarrow>
     ('s \<Rightarrow> bool) \<Rightarrow> Device \<Rightarrow> eoj \<Rightarrow> Cache \<times> 's \<Rightarrow> Cache \<times> 's \<times> DeviceState option" where
  "doReconcile v6 resolver tr ctxErr dev eoj = (\<lambda>(c, s).
     (case reconcile_info v6 resolver tr ctxErr dev eoj
             (reconcile_notify tr ctxErr dev eoj
               (reconcile_writable tr ctxErr dev eoj (c, s, False))) of
        (c1, s1, updated) \<Rightarrow> (c1, s1, if updated then TriggerUpdate dev c1 else None)))"

text \<open>\<open>RefreshDevice\<close>: the identity is read again in any case, the missing maps after it. It marks the
  attempt without looking at the cooldown.\<close>

definition RefreshDevice ::
  "(string \<Rightarrow> (byte \<times> byte \<times> byte \<times> byte) option) \<Rightarrow> (string \<Rightarrow> string) option \<Rightarrow> 's transport_ops \<Rightarrow>
     ('s \<Rightarrow> bool) \<Rightarrow> time \<Rightarrow> Device \<Rightarrow> eoj \<Rightarrow> CapabilityReconciler \<Rightarrow> Cache \<times> 's \<Rightarrow>
     CapabilityReconciler \<times> Cache \<times> 's \<times> DeviceState option" where
  "RefreshDevice v6 resolver tr ctxErr now dev eoj r = (\<lambda>(c, s).
     (if \<not> rc_hasClient r then (r, c, s, None)
      else
        let r1 = r\<lparr>rc_lastAttempt := (rc_lastAttempt r)(deviceKey dev \<mapsto> now)\<rparr>
        in (case GetDeviceInfo v6 resolver tr (dv_IP dev) eoj (dv_Model dev) s of
              (res, s1) \<Rightarrow>
                let c1 = (case res of Inl _ \<Rightarrow> c | Inr info \<Rightarrow> UpdateInfo dev info c)
                in if NeedsReconciliation dev c1
                   then (r1, doReconcile v6 resolver tr ctxErr dev eoj (c1, s1))
                   else (r1, c1, s1, None))))"

section \<open>Lemmas\<close>

text \<open>What is known of a device stays known.\<close>

definition knows_more :: "Device \<Rightarrow> Cache \<Rightarrow> Cache \<Rightarrow> bool" where
  "knows_more dev c c' \<longleftrightarrow>
     (HasWritableMap dev c \<longrightarrow> GetWritableEPCs dev c' = GetWritableEPCs dev c)
     \<and> (HasNotificationMap dev c \<longrightarrow> ca_notifyEPCs c' (deviceKey dev) = ca_notifyEPCs c (deviceKey dev))
     \<and> (HasDeviceInfo dev c \<longrightarrow> GetInfo dev c' = GetInfo dev c)"

lemma knows_more_refl [simp]: "knows_more dev c c"
  by (simp add: knows_more_def)

lemma has_by_get:
  "HasWritableMap dev c \<longleftrightarrow> GetWritableEPCs dev c \<noteq> None"
  "HasDeviceInfo dev c \<longleftrightarrow> v_Manufacturer (GetInfo dev c) \<noteq> [] \<or> v_UID (GetInfo dev c) \<noteq> []"
  by (simp_all add: HasWritableMap_def GetWritableEPCs_def HasDeviceInfo_def GetInfo_def zero_info_def split: option.splits)

lemma knows_more_trans: "knows_more dev c c' \<Longrightarrow> knows_more dev c' c'' \<Longrightarrow> knows_more dev c c''"
  unfolding knows_more_def has_by_get HasNotificationMap_def by simp

lemma knows_more_put:
  "\<not> HasWritableMap dev c \<Longrightarrow> knows_more dev c (SetWritableEPCs dev w c)"
  "\<not> HasNotificationMap dev c \<Longrightarrow> knows_more dev c (SetNotificationEPCs dev n c)"
  "\<not> HasDeviceInfo dev c \<Longrightarrow> knows_more dev c (UpdateInfo dev info c)"
  by (simp_all add: knows_more_def SetWritableEPCs_def SetNotificationEPCs_def UpdateInfo_def Let_def
      GetWritableEPCs_def GetInfo_def HasDeviceInfo_def)

lemma writable_step_more: "reconcile_writable tr ctxErr dev eoj (c, s, u) = (c', s', u') \<Longrightarrow> knows_more dev c c'"
  by (auto simp: reconcile_writable_def intro: knows_more_put split: if_splits prod.splits sum.splits)

lemma notify_step_more: "reconcile_notify tr ctxErr dev eoj (c, s, u) = (c', s', u') \<Longrightarrow> knows_more dev c c'"
  by (auto simp: reconcile_notify_def intro: knows_more_put split: if_splits prod.splits sum.splits)

lemma info_step_more: "reconcile_info v6 rs tr ctxErr dev eoj (c, s, u) = (c', s', u') \<Longrightarrow> knows_more dev c c'"
  by (auto simp: reconcile_info_def intro: knows_more_put split: if_splits prod.splits sum.splits)

lemma doReconcile_steps:
  assumes "doReconcile v6 rs tr ctxErr dev eoj (c, s) = (c3, s3, st)"
  obtains c1 s1 u1 c2 s2 u2 u3 where
    "reconcile_writable tr ctxErr dev eoj (c, s, False) = (c1, s1, u1)"
    "reconcile_notify tr ctxErr dev eoj (c1, s1, u1) = (c2, s2, u2)"
    "reconcile_info v6 rs tr ctxErr dev eoj (c2, s2, u2) = (c3, s3, u3)"
    "st = (if u3 then TriggerUpdate dev c3 else None)"
proof -
  obtain c1 s1 u1 where w: "reconcile_writable tr ctxErr dev eoj (c, s, False) = (c1, s1, u1)" using prod_cases3 by blast
  obtain c2 s2 u2 where n: "reconcile_notify tr ctxErr dev eoj (c1, s1, u1) = (c2, s2, u2)" using prod_cases3 by blast
  obtain c4 s4 u3 where i: "reconcile_info v6 rs tr ctxErr dev eoj (c2, s2, u2) = (c4, s4, u3)" using prod_cases3 by blast
  show thesis using assms w n i by (intro that [OF w n, of u3]) (auto simp: doReconcile_def)
qed

lemma doReconcile_more:
  assumes "doReconcile v6 rs tr ctxErr dev eoj (c, s) = (c', s', st)"
  shows "knows_more dev c c'"
  using assms by (rule doReconcile_steps)
    (blast intro: knows_more_trans dest: writable_step_more notify_step_more info_step_more)

text \<open>What is known of other devices is untouched.\<close>

lemma put_other:
  assumes "deviceKey d \<noteq> deviceKey dev"
  shows "GetInfo d (SetWritableEPCs dev w c) = GetInfo d c" "GetInfo d (SetNotificationEPCs dev n c) = GetInfo d c"
    "GetInfo d (UpdateInfo dev info c) = GetInfo d c"
    "GetWritableEPCs d (SetWritableEPCs dev w c) = GetWritableEPCs d c"
    "GetWritableEPCs d (SetNotificationEPCs dev n c) = GetWritableEPCs d c"
    "GetWritableEPCs d (UpdateInfo dev info c) = GetWritableEPCs d c"
  using assms by (simp_all add: GetInfo_def GetWritableEPCs_def SetWritableEPCs_def SetNotificationEPCs_def UpdateInfo_def Let_def)

lemma steps_other:
  assumes "deviceKey d \<noteq> deviceKey dev"
  shows "reconcile_writable tr ctxErr dev eoj (c, s, u) = (c', s', u') \<Longrightarrow> GetInfo d c' = GetInfo d c \<and> GetWritableEPCs d c' = GetWritableEPCs d c"
    "reconcile_notify tr ctxErr dev eoj (c, s, u) = (c', s', u') \<Longrightarrow> GetInfo d c' = GetInfo d c \<and> GetWritableEPCs d c' = GetWritableEPCs d c"
    "reconcile_info v6 rs tr ctxErr dev eoj (c, s, u) = (c', s', u') \<Longrightarrow> GetInfo d c' = GetInfo d c \<and> GetWritableEPCs d c' = GetWritableEPCs d c"
  using put_other [OF assms]
  by (auto simp: reconcile_writable_def reconcile_notify_def reconcile_info_def split: if_splits prod.splits sum.splits)

text \<open>The error of a property map is never a Get_SNA.\<close>

lemma GetProps_error: "GetProps tr addr eoj epcs s = (Inl e, s') \<Longrightarrow> \<not> isGetSNA (Some e)"
  unfolding GetProps_def by (rule getProps_error)

lemma property_map_error:
  "GetWritablePropertyMap tr addr eoj s = (Inl e, s') \<Longrightarrow> \<not> isGetSNA (Some e)"
  "GetNotificationPropertyMap tr addr eoj s = (Inl e, s') \<Longrightarrow> \<not> isGetSNA (Some e)"
  by (auto simp: GetWritablePropertyMap_def GetNotificationPropertyMap_def isGetSNA_def
      dest!: GetProps_error split: prod.splits sum.splits option.splits)

text \<open>Calls of \<open>ReconcileDevice\<close>, one after the other, with the cache each of them sees; the times at
  which a cycle for the key was started, in order.\<close>

fun started :: "string \<Rightarrow> CapabilityReconciler \<Rightarrow> (time \<times> Device \<times> Cache) list \<Rightarrow> time list" where
  "started key r [] = []"
| "started key r ((now, dev, c) # calls) =
     (case ReconcileDevice now dev c r of (r', b) \<Rightarrow>
        (if b \<and> deviceKey dev = key then [now] else []) @ started key r' calls)"

lemma started_ge:
  "s \<in> set (started key r calls) \<Longrightarrow> \<forall>call \<in> set calls. t \<le> fst call \<Longrightarrow> t \<le> s"
  by (induction key r calls rule: started.induct) (auto split: prod.splits if_splits)

lemma started_after:
  assumes "t \<in> set (started key r calls)" "sorted (map fst calls)"
    and "\<forall>call \<in> set calls. t0 \<le> fst call" "rc_lastAttempt r key = Some t0"
  shows "t0 + reconcileCooldown \<le> t"
  using assms
proof (induction key r calls rule: started.induct)
  case (2 key r now dev c calls)
  obtain r' b where r': "ReconcileDevice now dev c r = (r', b)" by force
  have now: "t0 \<le> now" using "2.prems"(3) by simp
  show ?case
  proof (cases "b \<and> deviceKey dev = key")
    case True
    then have "\<not> time_sub now t0 < reconcileCooldown" "rc_lastAttempt r' key = Some now"
      using r' "2.prems"(4) by (auto simp: ReconcileDevice_def Let_def split: if_splits)
    then have first: "t0 + reconcileCooldown \<le> now" by (simp add: time_sub_less_iff)
    show ?thesis
    proof (cases "t = now")
      case False
      then have "t \<in> set (started key r' calls)" using "2.prems"(1) r' True by auto
      moreover have "now \<le> s" if "s \<in> set (started key r' calls)" for s
        using that "2.prems"(2) by (intro started_ge [OF that]) simp
      ultimately show ?thesis using first by force
    qed (use first in simp)
  next
    case False
    then have "rc_lastAttempt r' key = Some t0"
      using r' "2.prems"(4) by (auto simp: ReconcileDevice_def Let_def split: if_splits)
    with 2 r' False show ?thesis by auto
  qed
qed simp

lemma started_spaced:
  assumes "sorted (map fst calls)"
  shows "sorted_wrt (\<lambda>t u. t + reconcileCooldown \<le> u) (started key r calls)"
  using assms
proof (induction key r calls rule: started.induct)
  case (2 key r now dev c calls)
  obtain r' b where r': "ReconcileDevice now dev c r = (r', b)" by force
  have rest: "sorted_wrt (\<lambda>t u. t + reconcileCooldown \<le> u) (started key r' calls)"
    using "2.prems" by (intro "2.IH" [OF r' [symmetric]]) simp_all
  have "now + reconcileCooldown \<le> u" if "b" "deviceKey dev = key" "u \<in> set (started key r' calls)" for u
    using that(3)
  proof (rule started_after)
    show "rc_lastAttempt r' key = Some now"
      using r' that(1,2) by (auto simp: ReconcileDevice_def Let_def split: if_splits)
  qed (use "2.prems" in simp_all)
  with rest show ?case by (simp add: r')
qed simp

section \<open>Properties\<close>

text \<open>C32: between two background cycles of one device there are at least sixty seconds, however often
  and for whatever devices and cache contents cycles are asked for.\<close>

theorem reconcile_cooldown:
  assumes "sorted (map fst calls)" "i < j" "j < length (started key r calls)"
  shows "started key r calls ! i + reconcileCooldown \<le> started key r calls ! j"
  using sorted_wrt_nth_less [OF started_spaced [OF assms(1)] assms(2,3)] .

definition sample_calls :: "(time \<times> Device \<times> Cache) list" where
  "sample_calls = map (\<lambda>t. (t * second, sample_device, NewCache)) [100, 101, 159, 160, 200, 221]"

lemma sample_started: "started (deviceKey sample_device) (reconciler_SetClient NewCapabilityReconciler) sample_calls = map ((*) second) [100, 160, 221]"
  by (simp add: sample_calls_def ReconcileDevice_def reconciler_SetClient_def NewCapabilityReconciler_def
      NeedsReconciliation_def HasWritableMap_def NewCache_def Let_def time_sub_def)

theorem reconcile_cooldown_witness:
  "started (deviceKey sample_device) (reconciler_SetClient NewCapabilityReconciler) sample_calls ! 0 + reconcileCooldown
    \<le> started (deviceKey sample_device) (reconciler_SetClient NewCapabilityReconciler) sample_calls ! 2"
proof -
  have "sorted (map fst sample_calls)" by (simp add: sample_calls_def)
  from reconcile_cooldown [OF this, of 0 2 "deviceKey sample_device" "reconciler_SetClient NewCapabilityReconciler"]
  show ?thesis by (simp add: sample_started)
qed

definition refusing :: "16 word transport_ops" where
  "refusing = \<lparr>x_NextTID = (\<lambda>tid. (tid + 1, tid + 1)),
     x_Send = (\<lambda>addr req tid s.
       (Inr (frame_of tid (0x0E, 0xF0, 1) (0x05, 0xFF, 0x01) 0x52 [\<lparr>p_EPC = 0x9D, p_PDC = 0, p_EDT = []\<rparr>]), s)),
     x_FireAndForget = (\<lambda>addr req s. (None, s))\<rparr>"

text \<open>A cycle only adds knowledge: whatever the transport answers, a writable map, notification map
  or identity that was known is unchanged after it, nothing read for a device of another key
  changes, and for a device of which everything is known it sends nothing and does nothing.\<close>

theorem reconcile_only_adds:
  assumes "doReconcile v6 rs tr ctxErr dev eoj (c, s) = (c', s', st)"
  shows "(HasWritableMap dev c \<longrightarrow> GetWritableEPCs dev c' = GetWritableEPCs dev c)
    \<and> (HasNotificationMap dev c \<longrightarrow> ca_notifyEPCs c' (deviceKey dev) = ca_notifyEPCs c (deviceKey dev))
    \<and> (HasDeviceInfo dev c \<longrightarrow> GetInfo dev c' = GetInfo dev c)
    \<and> (deviceKey d \<noteq> deviceKey dev \<longrightarrow> GetInfo d c' = GetInfo d c \<and> GetWritableEPCs d c' = GetWritableEPCs d c)
    \<and> (\<not> NeedsReconciliation dev c \<longrightarrow> (c', s', st) = (c, s, None))"
proof -
  have "deviceKey d \<noteq> deviceKey dev \<longrightarrow> GetInfo d c' = GetInfo d c \<and> GetWritableEPCs d c' = GetWritableEPCs d c"
  proof
    assume ne: "deviceKey d \<noteq> deviceKey dev"
    from assms show "GetInfo d c' = GetInfo d c \<and> GetWritableEPCs d c' = GetWritableEPCs d c"
      by (rule doReconcile_steps) (use steps_other [OF ne] in metis)
  qed
  moreover have "\<not> NeedsReconciliation dev c \<longrightarrow> (c', s', st) = (c, s, None)"
    using assms by (auto simp: doReconcile_def NeedsReconciliation_def reconcile_writable_def
        reconcile_notify_def reconcile_info_def)
  ultimately show ?thesis using doReconcile_more [OF assms] unfolding knows_more_def by blast
qed

theorem reconcile_only_adds_witness:
  "GetInfo (sample_device\<lparr>dv_IP := ''10.0.0.8''\<rparr>) (fst (doReconcile (\<lambda>_. None) None refusing (\<lambda>_. False) sample_device (1, 0x30, 1) (NewCache, 7)))
    = GetInfo (sample_device\<lparr>dv_IP := ''10.0.0.8''\<rparr>) NewCache"
proof -
  let ?r = "doReconcile (\<lambda>_. None) None refusing (\<lambda>_. False) sample_device (1, 0x30, 1) (NewCache, 7)"
  have "?r = (fst ?r, fst (snd ?r), snd (snd ?r))" by simp
  from reconcile_only_adds [OF this, of "sample_device\<lparr>dv_IP := ''10.0.0.8''\<rparr>"] show ?thesis
    by (simp add: deviceKey_def)
qed

text \<open>C33: what a device does not support is never recorded: as long as it answers the request for its
  notification property map with a Get_SNA (or any other error), the map stays unknown after a
  cycle, so that the device never stops needing reconciliation. The branch that is meant to
  record an empty map for a Get_SNA is never taken.\<close>

theorem unsupported_map_stays_missing:
  assumes "doReconcile v6 rs tr ctxErr dev eoj (c, s) = (c', s', st)"
    and "\<And>s. \<exists>e s'. GetNotificationPropertyMap tr (dv_IP dev) eoj s = (Inl e, s')"
    and "\<not> HasNotificationMap dev c"
  shows "\<not> HasNotificationMap dev c' \<and> NeedsReconciliation dev c'"
proof -
  obtain c1 s1 u1 c2 s2 u2 u3 where w: "reconcile_writable tr ctxErr dev eoj (c, s, False) = (c1, s1, u1)"
    and n: "reconcile_notify tr ctxErr dev eoj (c1, s1, u1) = (c2, s2, u2)"
    and i: "reconcile_info v6 rs tr ctxErr dev eoj (c2, s2, u2) = (c', s', u3)"
    using assms(1) by (rule doReconcile_steps)
  have "\<not> HasNotificationMap dev c1"
    using w assms(3) by (auto simp: reconcile_writable_def HasNotificationMap_def SetWritableEPCs_def
        split: if_splits prod.splits sum.splits)
  moreover obtain e t where e: "GetNotificationPropertyMap tr (dv_IP dev) eoj s1 = (Inl e, t)" using assms(2) by blast
  have "c2 = c1"
    using n e property_map_error(2) [OF e] by (simp add: reconcile_notify_def split: if_splits)
  ultimately have "\<not> HasNotificationMap dev c'"
    using i by (auto simp: reconcile_info_def HasNotificationMap_def UpdateInfo_def Let_def
        split: if_splits prod.splits sum.splits)
  then show ?thesis by (simp add: NeedsReconciliation_def)
qed

lemma refusing_fails: "\<exists>e s'. GetNotificationPropertyMap refusing addr eoj s = (Inl e, s')"
proof -
  let ?p = "\<lparr>p_EPC = 0x9D, p_PDC = 0, p_EDT = []\<rparr>"
  have pf: "parseFrame (frame_of tid seoj deoj 0x52 [?p]) = Inr (tid, 0x52, [?p])" for tid seoj deoj
    by (rule parseFrame_frame_of) (simp_all add: prop_ok_def)
  show ?thesis
    unfolding GetNotificationPropertyMap_def GetProps_def getPropsAdaptive.simps [of refusing addr eoj "[0x9D]"]
    by (simp add: SendGet_def ParseGetRes_def refusing_def pf isGetSNA_def missingEPCs_def Let_def)
qed

theorem unsupported_map_stays_missing_witness:
  "NeedsReconciliation sample_device (fst (doReconcile (\<lambda>_. None) None refusing (\<lambda>_. False) sample_device (1, 0x30, 1) (NewCache, 7)))"
proof -
  let ?r = "doReconcile (\<lambda>_. None) None refusing (\<lambda>_. False) sample_device (1, 0x30, 1) (NewCache, 7)"
  have "?r = (fst ?r, fst (snd ?r), snd (snd ?r))" by simp
  from unsupported_map_stays_missing [OF this refusing_fails] show ?thesis
    by (simp add: HasNotificationMap_def NewCache_def)
qed

end
