(* ===== verification/GoTime.thy ===== *)
theory GoTime
  imports GoText GoFloat
begin

text \<open>
  Durations as text: \<open>time.ParseDuration\<close> and \<open>Duration.String\<close>, which the program uses for the
  scrape intervals of its configuration and for the names of scrape groups, and
  \<open>Duration.Seconds\<close>. The lemmas show that a printed duration
  is read back, so that different durations have different texts.
\<close>

section \<open>ParseDuration\<close>

fun leading_int :: "nat \<Rightarrow> string \<Rightarrow> (nat \<times> string) option" where
  "leading_int x [] = Some (x, [])"
| "leading_int x (c # cs) =
     (case digit_value c of
        None \<Rightarrow> Some (x, c # cs)
      | Some d \<Rightarrow>
          if x > 2 ^ 63 div 10 then None
          else if x * 10 + d > 2 ^ 63 then None
          else leading_int (x * 10 + d) cs)"

fun leading_fraction :: "nat \<Rightarrow> float64 \<Rightarrow> bool \<Rightarrow> string \<Rightarrow> nat \<times> float64 \<times> string" where
  "leading_fraction x scale overflow [] = (x, scale, [])"
| "leading_fraction x scale overflow (c # cs) =
     (case digit_value c of
        None \<Rightarrow> (x, scale, c # cs)
      | Some d \<Rightarrow>
          if overflow then leading_fraction x scale True cs
          else if x > (2 ^ 63 - 1) div 10 then leading_fraction x scale True cs
          else if x * 10 + d > 2 ^ 63 then leading_fraction x scale True cs
          else leading_fraction (x * 10 + d) (f_mul scale (Fin 10)) False cs)"

definition unit_map :: "(string \<times> nat) list" where
  "unit_map = [(''ns'', 1), (''us'', 1000), ([char_of (0xC2 :: nat), char_of (0xB5 :: nat), CHR ''s''], 1000),
     ([char_of (0xCE :: nat), char_of (0xBC :: nat), CHR ''s''], 1000), (''ms'', 1000000),
     (''s'', 1000000000), (''m'', 60000000000), (''h'', 3600000000000)]"

definition unit_part :: "string \<Rightarrow> string" where
  "unit_part s = takeWhile (\<lambda>c. c \<noteq> CHR ''.'' \<and> digit_value c = None) s"

lemma leading_int_length: "leading_int x s = Some (v, r) \<Longrightarrow> length r \<le> length s"
  by (induction x s rule: leading_int.induct) (auto split: option.splits if_splits)

lemma leading_fraction_length: "leading_fraction x sc ov s = (v, sc', r) \<Longrightarrow> length r \<le> length s"
  by (induction x sc ov s rule: leading_fraction.induct) (fastforce split: option.splits if_splits)+

lemma unit_part_length: "length (unit_part s) \<le> length s"
  by (simp add: unit_part_def length_takeWhile_le)

text \<open>One number with its unit: its value in nanoseconds and what follows.\<close>

definition duration_term :: "string \<Rightarrow> (nat \<times> string) option" where
  "duration_term s =
     (if s = [] \<or> \<not> (hd s = CHR ''.'' \<or> digit_value (hd s) \<noteq> None) then None
      else case leading_int 0 s of
        None \<Rightarrow> None
      | Some (v, s1) \<Rightarrow>
          let pre = (length s1 \<noteq> length s);
              (f, scale, s2) = (if s1 \<noteq> [] \<and> hd s1 = CHR ''.'' then leading_fraction 0 (Fin 1) False (tl s1)
                                else (0, Fin 1, s1));
              post = (s1 \<noteq> [] \<and> hd s1 = CHR ''.'' \<and> length s2 \<noteq> length (tl s1))
          in if \<not> pre \<and> \<not> post then None
             else let u = unit_part s2
               in if u = [] then None
                  else case map_of unit_map u of
                    None \<Rightarrow> None
                  | Some unit \<Rightarrow>
                      if v > 2 ^ 63 div unit then None
                      else let v1 = v * unit
                               + (if f > 0 then nat (f_to_int64 (\<lambda>_. 0)
                                    (f_mul (f_of_int (int f)) (f_div (f_of_int (int unit)) scale))) else 0)
                        in if v1 > 2 ^ 63 then None else Some (v1, drop (length u) s2))"

lemma duration_term_shorter:
  assumes "duration_term s = Some (v, r)"
  shows "length r < length s"
proof -
  obtain v0 s1 where li: "leading_int 0 s = Some (v0, s1)"
    using assms by (auto simp: duration_term_def split: if_splits option.splits)
  obtain f sc s2 where fr: "(if s1 \<noteq> [] \<and> hd s1 = CHR ''.'' then leading_fraction 0 (Fin 1) False (tl s1)
      else (0, Fin 1, s1)) = (f, sc, s2)" using prod_cases3 by blast
  have s2: "length s2 \<le> length s"
    using leading_int_length [OF li] leading_fraction_length [of 0 "Fin 1" False "tl s1" f sc s2] fr
    by (auto split: if_splits)
  have u: "unit_part s2 \<noteq> []" "r = drop (length (unit_part s2)) s2"
    using assms li fr by (auto simp: duration_term_def Let_def split: if_splits option.splits)
  then obtain c cs where c: "unit_part s2 = c # cs" by (cases "unit_part s2") auto
  with s2 u(2) unit_part_length [of s2] show ?thesis by simp
qed

function duration_terms :: "nat \<Rightarrow> string \<Rightarrow> nat option" where
  "duration_terms d s =
     (if s = [] then Some d
      else case duration_term s of
        None \<Rightarrow> None
      | Some (v, r) \<Rightarrow> if d + v > 2 ^ 63 then None else duration_terms (d + v) r)"
  by auto
termination by (relation "measure (\<lambda>(d, s). length s)") (auto dest: duration_term_shorter)

declare duration_terms.simps [simp del]

definition parse_duration :: "string \<Rightarrow> duration option" where
  "parse_duration orig =
     (let neg = (orig \<noteq> [] \<and> hd orig = CHR ''-'');
          s = (if orig \<noteq> [] \<and> (hd orig = CHR ''-'' \<or> hd orig = CHR ''+'') then tl orig else orig)
      in if s = ''0'' then Some 0
         else if s = [] then None
         else case duration_terms 0 s of
           None \<Rightarrow> None
         | Some d \<Rightarrow> if neg then Some (- int d) else if d > 2 ^ 63 - 1 then None else Some (int d))"

section \<open>String and Seconds\<close>

text \<open>\<open>fmtFrac\<close>: the \<open>prec\<close> lowest digits of \<open>v\<close> after a point, without trailing zeros, put before
  \<open>buf\<close>; and the rest of \<open>v\<close>.\<close>

fun fmt_frac :: "nat \<Rightarrow> nat \<Rightarrow> bool \<Rightarrow> string \<Rightarrow> string \<times> nat" where
  "fmt_frac 0 v pr buf = ((if pr then CHR ''.'' # buf else buf), v)"
| "fmt_frac (Suc prec) v pr buf =
     (let digit = v mod 10; pr1 = pr \<or> digit \<noteq> 0
      in fmt_frac prec (v div 10) pr1 (if pr1 then char_of (48 + digit) # buf else buf))"

definition duration_string :: "duration \<Rightarrow> string" where
  "duration_string d =
     (let u = nat \<bar>d\<bar>;
          s = (if u = 0 then ''0s''
               else if u < 1000 then (case fmt_frac 0 u False ''ns'' of (b, v) \<Rightarrow> dec_digits v @ b)
               else if u < 1000000 then
                 (case fmt_frac 3 u False [char_of (0xC2 :: nat), char_of (0xB5 :: nat), CHR ''s''] of (b, v) \<Rightarrow> dec_digits v @ b)
               else if u < 1000000000 then (case fmt_frac 6 u False ''ms'' of (b, v) \<Rightarrow> dec_digits v @ b)
               else
                 (case fmt_frac 9 u False ''s'' of
                    (b, secs) \<Rightarrow>
                      let mins = secs div 60; hours = mins div 60
                      in (if mins > 0 then
                            (if hours > 0 then dec_digits hours @ ''h'' else []) @ dec_digits (mins mod 60) @ ''m''
                          else []) @ dec_digits (secs mod 60) @ b))
      in if d < 0 then CHR ''-'' # s else s)"

definition duration_seconds :: "duration \<Rightarrow> float64" where
  "duration_seconds d =
     (let q = (if d < 0 then - ((- d) div second) else d div second)
      in f_add (f_of_int q) (f_div (f_of_int (d - q * second)) (Fin 1000000000)))"

section \<open>Lemmas: printing a duration and reading it back\<close>

abbreviation no_digit :: "string \<Rightarrow> bool" where
  "no_digit r \<equiv> r = [] \<or> digit_value (hd r) = None"

lemma digits_value_ge: "digits_value x ds = Some n \<Longrightarrow> x \<le> n"
proof (induction x ds rule: digits_value.induct)
  case (2 acc c cs)
  from 2(2) obtain d where d: "digit_value c = Some d" "digits_value (acc * 10 + d) cs = Some n"
    by (auto split: option.splits)
  from 2(1) [OF d] show ?case by simp
qed simp

lemma leading_int_digits:
  "digits_value x ds = Some n \<Longrightarrow> n \<le> 2 ^ 63 \<Longrightarrow> no_digit r \<Longrightarrow> leading_int x (ds @ r) = Some (n, r)"
proof (induction x ds rule: digits_value.induct)
  case (1 acc)
  then show ?case by (cases r) auto
next
  case (2 acc c cs)
  from 2(2) obtain d where d: "digit_value c = Some d" "digits_value (acc * 10 + d) cs = Some n"
    by (auto split: option.splits)
  have le: "acc * 10 + d \<le> 2 ^ 63" using digits_value_ge [OF d(2)] 2(3) by (rule le_trans)
  then have "acc \<le> 2 ^ 63 div 10" by simp
  with le d 2 show ?case by simp
qed

lemma scale_step: "j < 9 \<Longrightarrow> f_mul (Fin (10 ^ j)) (Fin 10) = Fin (10 ^ Suc j)"
proof -
  assume "j < 9"
  then have "(10 :: int) ^ Suc j \<le> 10 ^ 9" by (intro power_increasing) auto
  then have "\<bar>(10 :: int) ^ Suc j\<bar> \<le> 2 ^ 53" by simp
  from round64_of_int [OF _ this] show ?thesis by (simp add: f_mul_def fval_def is_neg_def mult.commute)
qed

lemma leading_fraction_digits:
  "digits_value x ds = Some n \<Longrightarrow> n < 10 ^ 9 \<Longrightarrow> j + length ds \<le> 9 \<Longrightarrow> no_digit r \<Longrightarrow>
    leading_fraction x (Fin (10 ^ j)) False (ds @ r) = (n, Fin (10 ^ (j + length ds)), r)"
proof (induction x ds arbitrary: j rule: digits_value.induct)
  case (1 acc)
  then show ?case by (cases r) auto
next
  case (2 acc c cs)
  from 2(2) obtain d where d: "digit_value c = Some d" "digits_value (acc * 10 + d) cs = Some n"
    by (auto split: option.splits)
  have le: "acc * 10 + d < 10 ^ 9" using digits_value_ge [OF d(2)] 2(3) by (rule le_less_trans)
  then have "\<not> (2 ^ 63 - 1) div 10 < acc" "\<not> 2 ^ 63 < acc * 10 + d" by simp_all
  moreover have "f_mul (Fin (10 ^ j)) (Fin 10) = Fin (10 ^ Suc j)" using 2(4) by (intro scale_step) simp
  ultimately show ?case using d 2(1) [OF d 2(3), of "Suc j"] 2(4,5) by simp
qed

lemma mod_pow_Suc: "v mod 10 ^ Suc n = 10 * (v div 10 mod 10 ^ n) + v mod (10 :: nat)"
  by (simp add: mod_mult2_eq)

lemma div_pow_Suc: "v div 10 ^ Suc n = v div 10 div (10 :: nat) ^ n"
  by (simp add: div_mult2_eq)

lemma fmt_frac_True:
  "\<exists>ds. fmt_frac n v True buf = (CHR ''.'' # ds @ buf, v div 10 ^ n) \<and> length ds = n
    \<and> digits_value 0 ds = Some (v mod 10 ^ n)"
proof (induction n arbitrary: v buf)
  case (Suc n)
  have digit: "v mod 10 < 10" by simp
  from Suc [of "v div 10" "char_of (48 + v mod 10) # buf"] obtain ds where
    ds: "fmt_frac n (v div 10) True (char_of (48 + v mod 10) # buf)
      = (CHR ''.'' # ds @ char_of (48 + v mod 10) # buf, v div 10 div 10 ^ n)" "length ds = n"
      "digits_value 0 ds = Some (v div 10 mod 10 ^ n)" by blast
  show ?case
    by (rule exI [of _ "ds @ [char_of (48 + v mod 10)]"])
      (use ds digit_value_char [OF digit] in \<open>simp add: Let_def digits_value_append mod_pow_Suc div_pow_Suc del: power_Suc\<close>)
qed simp

lemma fmt_frac_False:
  "(v mod 10 ^ n = 0 \<and> fmt_frac n v False buf = (buf, v div 10 ^ n))
   \<or> (\<exists>ds f. fmt_frac n v False buf = (CHR ''.'' # ds @ buf, v div 10 ^ n) \<and> ds \<noteq> [] \<and> length ds \<le> n
       \<and> digits_value 0 ds = Some f \<and> 0 < f \<and> f * 10 ^ (n - length ds) = v mod 10 ^ n)"
proof (induction n arbitrary: v buf)
  case (Suc n)
  show ?case
  proof (cases "v mod 10 = 0")
    case True
    then have step: "fmt_frac (Suc n) v False buf = fmt_frac n (v div 10) False buf" by (simp add: Let_def)
    from Suc [of "v div 10" buf] show ?thesis
    proof (elim disjE exE conjE)
      assume "v div 10 mod 10 ^ n = 0" "fmt_frac n (v div 10) False buf = (buf, v div 10 div 10 ^ n)"
      then show ?thesis using True step by (simp add: mod_pow_Suc div_pow_Suc del: power_Suc)
    next
      fix ds f
      assume "fmt_frac n (v div 10) False buf = (CHR ''.'' # ds @ buf, v div 10 div 10 ^ n)" "ds \<noteq> []" "length ds \<le> n"
        "digits_value 0 ds = Some f" "0 < f" and f: "f * 10 ^ (n - length ds) = v div 10 mod 10 ^ n"
      moreover have "f * 10 ^ (Suc n - length ds) = v mod 10 ^ Suc n"
        using True f \<open>length ds \<le> n\<close> by (simp add: mod_pow_Suc Suc_diff_le del: power_Suc) simp
      ultimately show ?thesis using step by (auto simp: div_pow_Suc simp del: power_Suc)
    qed
  next
    case False
    have digit: "v mod 10 < 10" by simp
    from fmt_frac_True [of n "v div 10" "char_of (48 + v mod 10) # buf"] obtain ds where
      ds: "fmt_frac n (v div 10) True (char_of (48 + v mod 10) # buf)
        = (CHR ''.'' # ds @ char_of (48 + v mod 10) # buf, v div 10 div 10 ^ n)" "length ds = n"
        "digits_value 0 ds = Some (v div 10 mod 10 ^ n)" by blast
    let ?ds = "ds @ [char_of (48 + v mod 10)]"
    have val: "digits_value 0 ?ds = Some (v mod 10 ^ Suc n)"
      using ds(3) digit_value_char [OF digit] by (simp add: digits_value_append mod_pow_Suc del: power_Suc)
    have "fmt_frac (Suc n) v False buf = (CHR ''.'' # ?ds @ buf, v div 10 ^ Suc n)"
      using ds(1) False by (simp add: Let_def div_pow_Suc del: power_Suc)
    moreover have "0 < v mod 10 ^ Suc n" using False by (simp add: mod_pow_Suc del: power_Suc)
    ultimately show ?thesis using val ds(2) by (intro disjI2 exI [of _ ?ds] exI [of _ "v mod 10 ^ Suc n"]) simp
  qed
qed simp

lemma not_point: "char_of (194 :: nat) \<noteq> CHR ''.''" "char_of (181 :: nat) \<noteq> CHR ''.''"
  "char_of (206 :: nat) \<noteq> CHR ''.''" "char_of (188 :: nat) \<noteq> CHR ''.''"
  by code_simp+

lemma unit_chars: "map_of unit_map u = Some k \<Longrightarrow> u \<noteq> [] \<and> k \<in> {1, 1000, 1000000, 1000000000, 60000000000, 3600000000000}
    \<and> (\<forall>c \<in> set u. c \<noteq> CHR ''.'' \<and> digit_value c = None)"
  by (auto simp: unit_map_def digit_value_def Let_def take_bit_eq_mod not_point not_point [symmetric] split: if_splits)

lemma unit_part_append:
  assumes "map_of unit_map u = Some k" "r = [] \<or> digit_value (hd r) \<noteq> None"
  shows "unit_part (u @ r) = u"
  using assms(2) unit_chars [OF assms(1)] unfolding unit_part_def by (cases r) (simp_all add: takeWhile_append)

lemma unit_hd:
  assumes "map_of unit_map u = Some k"
  shows "u \<noteq> []" "hd u \<noteq> CHR ''.''" "digit_value (hd u) = None" "hd (u @ r) = hd u"
  using unit_chars [OF assms] by (cases u; simp)+

lemma duration_term_int:
  assumes "map_of unit_map u = Some k" "r = [] \<or> digit_value (hd r) \<noteq> None" "v * k \<le> 2 ^ 63"
  shows "duration_term (dec_digits v @ u @ r) = Some (v * k, r)"
proof -
  have "k \<in> {1, 1000, 1000000, 1000000000, 60000000000, 3600000000000}" using unit_chars [OF assms(1)] by blast
  then have k: "0 < k" by auto
  then have "v \<le> v * k" by simp
  then have v: "v \<le> 2 ^ 63" using assms(3) by (rule le_trans)
  have nd: "no_digit (u @ r)" using unit_hd [OF assms(1)] by simp
  have "leading_int 0 (dec_digits v @ u @ r) = Some (v, u @ r)"
    using leading_int_digits [OF _ v nd, of 0 "dec_digits v"] digits_value_dec_digits [of 0 v] by simp
  moreover have "\<not> 2 ^ 63 div k < v" using assms(3) k by (simp add: not_less less_eq_div_iff_mult_less_eq)
  ultimately show ?thesis
    using assms unit_hd [OF assms(1)] unit_part_append [OF assms(1,2)] hd_dec_digits [of v]
    by (simp add: duration_term_def Let_def)
qed

lemma fraction_value:
  assumes "len \<le> p" "p \<le> 9" "0 < f" "f * 10 ^ (p - len) < 10 ^ 9"
  shows "nat (f_to_int64 (\<lambda>_. 0) (f_mul (f_of_int (int f)) (f_div (f_of_int (10 ^ p)) (Fin (10 ^ len))))) = f * 10 ^ (p - len)"
proof -
  have p10: "(10 :: int) ^ q \<le> 2 ^ 53" if "q \<le> 9" for q
  proof -
    have "(10 :: int) ^ q \<le> 10 ^ 9" using that by (intro power_increasing) auto
    then show ?thesis by simp
  qed
  have f: "f < 10 ^ 9" using assms(4) by (intro le_less_trans [of f "f * 10 ^ (p - len)"]) simp_all
  have val: "int f * 10 ^ (p - len) \<le> 2 ^ 53"
    using assms(4) of_nat_less_iff [of "f * 10 ^ (p - len)" "10 ^ 9", where ?'a = int] by simp
  have int64: "f_to_int64 (\<lambda>_. 0) (Fin (of_int m)) = m" if "int64_ok m" for m
    using that by (simp add: f_to_int64_def trunc_rat_def Let_def)
  have 1: "f_of_int (10 ^ p) = Fin (10 ^ p)" using p10 [of p] assms by (simp add: f_of_int_exact int_float_def)
  have 2: "f_of_int (int f) = Fin (of_nat f)" using f assms by (simp add: f_of_int_exact int_float_def)
  have "(10 :: rat) ^ p / 10 ^ len = of_int (10 ^ (p - len))" using power_diff [of "10 :: rat" len p] assms(1) by simp
  then have 3: "f_div (Fin (10 ^ p)) (Fin (10 ^ len)) = Fin (10 ^ (p - len))"
    using round64_of_int [of "10 ^ (p - len)"] p10 [of "p - len"] assms(1,2)
    by (simp add: f_div_def fval_def is_neg_def)
  have 4: "f_mul (Fin (of_nat f)) (Fin (10 ^ (p - len))) = Fin (of_int (int (f * 10 ^ (p - len))))"
    using round64_of_int [of "int (f * 10 ^ (p - len))"] assms(3) val by (simp add: f_mul_def fval_def is_neg_def)
  have small: "int64_ok m" if "0 \<le> m" "m \<le> 2 ^ 53" for m using that by (simp add: int64_ok_def)
  have "int64_ok (int (f * 10 ^ (p - len)))" using val by (intro small) simp_all
  from int64 [OF this] show ?thesis unfolding 1 2 3 4 by (simp only: nat_int)
qed

lemma duration_term_frac:
  assumes "map_of unit_map u = Some (10 ^ p)" "r = [] \<or> digit_value (hd r) \<noteq> None" "p \<le> 9"
    and "ds \<noteq> []" "length ds \<le> p" "digits_value 0 ds = Some f" "0 < f" "f * 10 ^ (p - length ds) < 10 ^ p"
    and "v * 10 ^ p + f * 10 ^ (p - length ds) \<le> 2 ^ 63"
  shows "duration_term (dec_digits v @ CHR ''.'' # ds @ u @ r) = Some (v * 10 ^ p + f * 10 ^ (p - length ds), r)"
proof -
  have "(10 :: nat) ^ p \<le> 10 ^ 9" using assms(3) by (intro power_increasing) auto
  with assms(8) have frac: "f * 10 ^ (p - length ds) < 10 ^ 9" by linarith
  then have f: "f < 10 ^ 9" by (intro le_less_trans [of f "f * 10 ^ (p - length ds)"]) simp_all
  have "v \<le> v * 10 ^ p" by simp
  with assms(9) have v: "v \<le> 2 ^ 63" by linarith
  have nd: "no_digit (u @ r)" using unit_hd [OF assms(1)] by simp
  have "digit_value CHR ''.'' = None" by (simp add: digit_value_def)
  then have li: "leading_int 0 (dec_digits v @ CHR ''.'' # ds @ u @ r) = Some (v, CHR ''.'' # ds @ u @ r)"
    using leading_int_digits [OF _ v, of 0 "dec_digits v" "CHR ''.'' # ds @ u @ r"] digits_value_dec_digits [of 0 v] by simp
  have lf: "leading_fraction 0 (Fin 1) False (ds @ u @ r) = (f, Fin (10 ^ length ds), u @ r)"
    using leading_fraction_digits [OF assms(6) f _ nd, of 0] assms(3,5) by simp
  have le: "\<not> 2 ^ 63 div 10 ^ p < v" using assms(9) by (simp add: not_less less_eq_div_iff_mult_less_eq)
  have fv: "nat (f_to_int64 (\<lambda>_. 0) (f_mul (f_of_int (int f)) (f_div (f_of_int (int (10 ^ p))) (Fin (10 ^ length ds)))))
      = f * 10 ^ (p - length ds)"
    using fraction_value [OF assms(5,3,7) frac] by simp
  show ?thesis
    unfolding duration_term_def
    using assms(1,2,4,7,9) li lf le fv unit_hd [OF assms(1)] unit_part_append [OF assms(1,2)] hd_dec_digits [of v]
    by (simp add: Let_def)
qed

text \<open>A number whose last \<open>p\<close> digits are printed by \<open>fmt_frac\<close>, then its unit.\<close>

lemma duration_term_fmt:
  assumes "map_of unit_map u = Some (10 ^ p)" "p \<le> 9" "v * 10 ^ p + x mod 10 ^ p \<le> 2 ^ 63"
  shows "duration_term (dec_digits v @ fst (fmt_frac p x False u)) = Some (v * 10 ^ p + x mod 10 ^ p, [])"
  using fmt_frac_False [of x p u]
proof (elim disjE exE conjE)
  assume "x mod 10 ^ p = 0" "fmt_frac p x False u = (u, x div 10 ^ p)"
  then show ?thesis using duration_term_int [OF assms(1), of "[]" v] assms(3) by simp
next
  fix ds f
  assume ds: "fmt_frac p x False u = (CHR ''.'' # ds @ u, x div 10 ^ p)" "ds \<noteq> []" "length ds \<le> p"
    "digits_value 0 ds = Some f" "0 < f" "f * 10 ^ (p - length ds) = x mod 10 ^ p"
  have "f * 10 ^ (p - length ds) < 10 ^ p" unfolding ds(6) by simp
  from duration_term_frac [OF assms(1) _ assms(2) ds(2-5) this, of "[]" v] show ?thesis
    using assms(3) ds(1,6) by simp
qed

lemma fmt_frac_snd: "snd (fmt_frac p x False u) = x div 10 ^ p"
  using fmt_frac_False [of x p u] by auto

lemma duration_terms_step:
  assumes "duration_term s = Some (v, r)" "d + v \<le> 2 ^ 63"
  shows "duration_terms d s = duration_terms (d + v) r"
proof -
  have "s \<noteq> []" using assms(1) by (auto simp: duration_term_def)
  then show ?thesis using assms by (subst duration_terms.simps) simp
qed

lemma duration_terms_Nil [simp]: "duration_terms d [] = Some d"
  by (simp add: duration_terms.simps)

lemma units [simp]:
  "map_of unit_map ''ns'' = Some (10 ^ 0)" "map_of unit_map ''ms'' = Some (10 ^ 6)" "map_of unit_map ''s'' = Some (10 ^ 9)"
  "map_of unit_map ''m'' = Some 60000000000" "map_of unit_map ''h'' = Some 3600000000000"
  "map_of unit_map [char_of (0xC2 :: nat), char_of (0xB5 :: nat), CHR ''s''] = Some (10 ^ 3)"
  by (simp_all add: unit_map_def)

text \<open>The part below a minute.\<close>

lemma seconds_term:
  assumes "d + u mod 60000000000 \<le> 2 ^ 63" "b = fst (fmt_frac 9 u False ''s'')"
  shows "duration_terms d (dec_digits (u div 1000000000 mod 60) @ b) = Some (d + u mod 60000000000)"
proof -
  have u: "u div 1000000000 mod 60 * 10 ^ 9 + u mod 10 ^ 9 = u mod 60000000000"
    using mod_mult2_eq [of u 1000000000 60] by simp
  have le: "u mod 60000000000 \<le> 2 ^ 63" using assms(1) by (rule add_leD2)
  have "duration_term (dec_digits (u div 1000000000 mod 60) @ b) = Some (u mod 60000000000, [])"
    using duration_term_fmt [OF units(3) _ le [folded u]] unfolding assms(2) u by simp
  from duration_terms_step [OF this assms(1)] show ?thesis by (simp only: duration_terms_Nil)
qed

lemma minutes_term:
  assumes "d + u mod 3600000000000 \<le> 2 ^ 63" "b = fst (fmt_frac 9 u False ''s'')"
  shows "duration_terms d (dec_digits (u div 60000000000 mod 60) @ ''m'' @ dec_digits (u div 1000000000 mod 60) @ b)
    = Some (d + u mod 3600000000000)"
proof -
  have u: "u div 60000000000 mod 60 * 60000000000 + u mod 60000000000 = u mod 3600000000000"
    using mod_mult2_eq [of u 60000000000 60] by simp
  let ?r = "dec_digits (u div 1000000000 mod 60) @ b"
  have r: "?r = [] \<or> digit_value (hd ?r) \<noteq> None" using hd_dec_digits by simp
  have le: "u div 60000000000 mod 60 * 60000000000 \<le> u mod 3600000000000" using u by simp
  have "duration_term (dec_digits (u div 60000000000 mod 60) @ ''m'' @ ?r) = Some (u div 60000000000 mod 60 * 60000000000, ?r)"
    by (rule duration_term_int [OF _ r]) (use le assms(1) in simp_all)
  from duration_terms_step [OF this, of d] seconds_term [of "d + u div 60000000000 mod 60 * 60000000000" u b] assms u le
  show ?thesis by simp
qed

lemma hours_term:
  assumes "u \<le> 2 ^ 63" "b = fst (fmt_frac 9 u False ''s'')"
  shows "duration_terms 0 (dec_digits (u div 3600000000000) @ ''h'' @ dec_digits (u div 60000000000 mod 60) @ ''m''
      @ dec_digits (u div 1000000000 mod 60) @ b) = Some u"
proof -
  have u: "u div 3600000000000 * 3600000000000 + u mod 3600000000000 = u" by simp
  let ?r = "dec_digits (u div 60000000000 mod 60) @ ''m'' @ dec_digits (u div 1000000000 mod 60) @ b"
  have r: "?r = [] \<or> digit_value (hd ?r) \<noteq> None" using hd_dec_digits by simp
  have le: "u div 3600000000000 * 3600000000000 \<le> u" using u by linarith
  have "duration_term (dec_digits (u div 3600000000000) @ ''h'' @ ?r) = Some (u div 3600000000000 * 3600000000000, ?r)"
    by (rule duration_term_int [OF _ r]) (use le assms(1) in simp_all)
  from duration_terms_step [OF this, of 0] minutes_term [of "u div 3600000000000 * 3600000000000" u b] assms u le
  show ?thesis by simp
qed

lemma nanos_terms:
  assumes "0 < u" "u \<le> 2 ^ 63"
  shows "duration_terms 0 (duration_string (int u)) = Some u"
proof -
  have frac: "duration_terms 0 (dec_digits (x div 10 ^ p) @ fst (fmt_frac p x False s)) = Some x"
    if "map_of unit_map s = Some (10 ^ p)" "p \<le> 9" "x \<le> 2 ^ 63" for x p s
  proof -
    have "x div 10 ^ p * 10 ^ p + x mod 10 ^ p = x" by (rule div_mult_mod_eq)
    with duration_term_fmt [OF that(1,2), of "x div 10 ^ p" x] that(3)
    have "duration_term (dec_digits (x div 10 ^ p) @ fst (fmt_frac p x False s)) = Some (x, [])" by simp
    from duration_terms_step [OF this, of 0] that(3) show ?thesis by simp
  qed
  consider "u < 1000" | "1000 \<le> u" "u < 1000000" | "1000000 \<le> u" "u < 1000000000" | "1000000000 \<le> u" by linarith
  then show ?thesis
  proof cases
    case 1
    then show ?thesis using frac [of "''ns''" 0 u] assms by (simp add: duration_string_def Let_def)
  next
    case 2
    then show ?thesis using frac [of "[char_of (0xC2 :: nat), char_of (0xB5 :: nat), CHR ''s'']" 3 u] assms
      by (simp add: duration_string_def Let_def case_prod_unfold fmt_frac_snd del: fmt_frac.simps)
  next
    case 3
    then show ?thesis using frac [of "''ms''" 6 u] assms
      by (simp add: duration_string_def Let_def case_prod_unfold fmt_frac_snd del: fmt_frac.simps)
  next
    case 4
    let ?b = "fst (fmt_frac 9 u False ''s'')"
    have div: "u div 1000000000 div 60 = u div 60000000000" "u div 60000000000 div 60 = u div 3600000000000"
      by (simp_all add: div_mult2_eq [symmetric])
    have str: "duration_string (int u) =
        (if u div 60000000000 > 0 then
           (if u div 3600000000000 > 0 then dec_digits (u div 3600000000000) @ ''h'' else [])
             @ dec_digits (u div 60000000000 mod 60) @ ''m'' else []) @ dec_digits (u div 1000000000 mod 60) @ ?b"
      using 4 by (simp add: duration_string_def Let_def case_prod_unfold fmt_frac_snd div del: fmt_frac.simps)
    show ?thesis
    proof (cases "u div 3600000000000 > 0")
      case True
      then have "u div 60000000000 > 0" by linarith
      with True str hours_term [OF assms(2) refl] show ?thesis by simp
    next
      case False
      then have m: "u mod 3600000000000 = u" by simp
      show ?thesis
      proof (cases "u div 60000000000 > 0")
        case True
        with False str minutes_term [of 0 u ?b] assms(2) m show ?thesis by simp
      next
        case f: False
        then have "u mod 60000000000 = u" by simp
        with False f str seconds_term [of 0 u ?b] assms(2) show ?thesis by simp
      qed
    qed
  qed
qed

lemma duration_terms_start:
  assumes "duration_terms 0 s = Some u" "s \<noteq> []"
  shows "s \<noteq> ''0''" "hd s \<noteq> CHR ''-''" "hd s \<noteq> CHR ''+''"
proof -
  have t: "duration_term s \<noteq> None"
    using assms by (subst (asm) duration_terms.simps) (auto split: option.splits)
  have "duration_term ''0'' = None" by (simp add: duration_term_def digit_value_def unit_part_def)
  with t show "s \<noteq> ''0''" by metis
  have "hd s = CHR ''.'' \<or> digit_value (hd s) \<noteq> None" using t unfolding duration_term_def by (metis (full_types))
  then show "hd s \<noteq> CHR ''-''" "hd s \<noteq> CHR ''+''" by (auto simp: digit_value_def)
qed

lemma parse_duration_string:
  assumes "int64_ok d"
  shows "parse_duration (duration_string d) = Some d"
proof (cases "d = 0")
  case True
  have "char_of (48 :: nat) = CHR ''0''" by code_simp
  then have "dec_digits 0 = ''0''" by (simp add: dec_digits.simps [of 0])
  then have "duration_term ''0s'' = Some (0, [])" using duration_term_int [OF units(3), of "[]" 0] by simp
  from duration_terms_step [OF this, of 0] True show ?thesis by (simp add: duration_string_def parse_duration_def)
next
  case False
  let ?u = "nat \<bar>d\<bar>"
  have u: "0 < ?u" "?u \<le> 2 ^ 63" using False assms by (auto simp: int64_ok_def)
  have terms: "duration_terms 0 (duration_string (int ?u)) = Some ?u" by (rule nanos_terms [OF u])
  have ne: "duration_string (int ?u) \<noteq> []" using terms u(1) by auto
  note st = duration_terms_start [OF terms ne]
  show ?thesis
  proof (cases "d < 0")
    case True
    then have "duration_string d = CHR ''-'' # duration_string (int ?u)" by (simp add: duration_string_def Let_def)
    with True terms ne st show ?thesis by (simp add: parse_duration_def)
  next
    case False
    then have "duration_string (int ?u) = duration_string d" by simp
    note terms = terms [unfolded this] and ne = ne [unfolded this] and st = st [unfolded this]
    have "\<not> 2 ^ 63 - 1 < ?u" using assms False by (auto simp: int64_ok_def)
    then show ?thesis using terms ne st False by (simp add: parse_duration_def)
  qed
qed

lemma duration_string_inj:
  assumes "duration_string d = duration_string d'" "int64_ok d" "int64_ok d'"
  shows "d = d'"
  using parse_duration_string [OF assms(2)] parse_duration_string [OF assms(3)] unfolding assms(1) by simp

end
