(* ===== verification/Scheduler.thy ===== *)
theory Scheduler
  imports Reconciler GoTime
begin

text \<open>
  \<open>internal/poller/scheduler.go\<close>: finding the object code of each device, reading its property
  maps, grouping its metrics by interval, and one scrape of a group. The transport is \<open>tr\<close> with
  its state \<open>'s\<close>; discovery also has the client with the short timeout, \<open>probe\<close>. What the program
  starts as goroutines with timers (the scrapers of a device, the refresher of a host) is the
  list of what is started; \<open>scrapeOnce\<close> and \<open>refreshDeviceInfo\<close> are what each tick does.
\<close>

section \<open>Errors as text\<close>

text \<open>\<open>err.Error()\<close>, without the addresses that the messages of sockets also hold.\<close>

definition frame_error_msg :: "frame_error \<Rightarrow> string" where
  "frame_error_msg e =
     (case e of
        TooShort n \<Rightarrow> ''response too short: '' @ dec_digits n
      | InvalidEHD a b \<Rightarrow> ''invalid EHD: '' @ hex2 a @ '' '' @ hex2 b)"

definition map_name :: "byte \<Rightarrow> string" where
  "map_name epc =
     (if epc = 0x9F then ''readable'' else if epc = 0x9E then ''writable'' else ''notification'')"

definition go_error_msg :: "go_error \<Rightarrow> string" where
  "go_error_msg err =
     (case err of
        FrameErr e \<Rightarrow> frame_error_msg e
      | ESVError esv \<Rightarrow> ''unexpected ESV: 0x'' @ hex2 esv
      | NetErr e \<Rightarrow> net_error_msg e
      | NoEPCs \<Rightarrow> ''no EPCs''
      | NoProperties \<Rightarrow> ''no properties returned for requested EPCs''
      | MapMissing epc \<Rightarrow> map_name epc @ '' property map (0x'' @ hex2_upper epc @ '') missing'')"

definition isProbeTimeout :: "go_error option \<Rightarrow> bool" where
  "isProbeTimeout err =
     (case err of
        None \<Rightarrow> False
      | Some e \<Rightarrow>
          let msg = ascii_lower (go_error_msg e)
          in string_contains msg ''i/o timeout'' \<or> string_contains msg ''timeout'')"

section \<open>The object code of a device\<close>

definition decodeInstanceList :: "bytes \<Rightarrow> eoj list" where
  "decodeInstanceList edt =
     (if length edt < 1 then []
      else
        let maxCount = (length edt - 1) div 3;
            count = (if maxCount < unat (edt ! 0) then maxCount else unat (edt ! 0))
        in map (\<lambda>i. let base = 1 + i * 3 in (edt ! base, edt ! (base + 1), edt ! (base + 2))) [0..<count])"

definition formatEOJList :: "eoj list \<Rightarrow> string" where
  "formatEOJList eojs =
     (if eojs = [] then ''[]''
      else ''['' @ join_with '', '' (map (\<lambda>(a, b, c). ''0x'' @ hex2 a @ hex2 b @ hex2 c) eojs) @ '']'')"

definition same_class :: "eoj \<Rightarrow> eoj \<Rightarrow> bool" where
  "same_class x y \<longleftrightarrow> fst x = fst y \<and> fst (snd x) = fst (snd y)"

definition with_instance :: "eoj \<Rightarrow> byte \<Rightarrow> eoj" where
  "with_instance x i = (fst x, fst (snd x), i)"

definition selectEOJFromInstances :: "eoj \<Rightarrow> eoj list \<Rightarrow> eoj \<times> bool" where
  "selectEOJFromInstances configured instances =
     (case find (\<lambda>x. same_class x configured) instances of
        Some x \<Rightarrow> (x, True)
      | None \<Rightarrow> (configured, False))"

definition probeEOJ :: "'s transport_ops \<Rightarrow> string \<Rightarrow> eoj \<Rightarrow> 's \<Rightarrow> (bool \<times> go_error option) \<times> 's" where
  "probeEOJ tr ip eoj s =
     (case GetProps tr ip eoj [0x80] s of
        (Inl e, s1) \<Rightarrow> ((False, Some e), s1)
      | (Inr props, s1) \<Rightarrow> ((0 < length props, None), s1))"

text \<open>The instance lists already read, per host (\<open>hostEOJCache\<close>).\<close>

type_synonym host_eojs = "string \<rightharpoonup> eoj list"

definition read_node_profile ::
  "'s transport_ops \<Rightarrow> string \<Rightarrow> eoj \<Rightarrow> host_eojs \<times> 's \<Rightarrow> (eoj \<times> bool) \<times> host_eojs \<times> 's" where
  "read_node_profile tr ip configured = (\<lambda>(hosts, s).
     (case GetProps tr ip nodeProfileEOJ [0xD6] s of
        (Inl e, s1) \<Rightarrow> ((configured, False), hosts, s1)
      | (Inr props, s1) \<Rightarrow>
          let instances = (case find (\<lambda>p. p_EPC p = 0xD6 \<and> length (p_EDT p) \<noteq> 0) props of
                             Some p \<Rightarrow> decodeInstanceList (p_EDT p) | None \<Rightarrow> [])
          in if instances = [] then ((configured, False), hosts, s1)
             else (selectEOJFromInstances configured instances, hosts(ip \<mapsto> instances), s1)))"

definition resolveEOJFromNodeProfile ::
  "'s transport_ops \<Rightarrow> string \<Rightarrow> eoj \<Rightarrow> host_eojs \<times> 's \<Rightarrow> (eoj \<times> bool) \<times> host_eojs \<times> 's" where
  "resolveEOJFromNodeProfile tr ip configured = (\<lambda>(hosts, s).
     (case hosts ip of
        Some instances \<Rightarrow>
          if 0 < length instances then (selectEOJFromInstances configured instances, hosts, s)
          else read_node_profile tr ip configured (hosts, s)
      | None \<Rightarrow> read_node_profile tr ip configured (hosts, s)))"

text \<open>The sweep over the instances 1 to 15.\<close>

fun sweep :: "'s transport_ops \<Rightarrow> string \<Rightarrow> eoj \<Rightarrow> bytes \<Rightarrow> 's \<Rightarrow> eoj \<times> 's" where
  "sweep tr ip configured [] s = (configured, s)"
| "sweep tr ip configured (inst # insts) s =
     (if inst = snd (snd configured) then sweep tr ip configured insts s
      else case probeEOJ tr ip (with_instance configured inst) s of
        ((ok, err), s1) \<Rightarrow>
          if \<not> ok then
            (if isProbeTimeout err then (configured, s1) else sweep tr ip configured insts s1)
          else (with_instance configured inst, s1))"

definition all_instances :: bytes where
  "all_instances = map word_of_nat [1..<16]"

definition resolveEOJInstance ::
  "'s transport_ops \<Rightarrow> string \<Rightarrow> eoj \<Rightarrow> host_eojs \<times> 's \<Rightarrow> eoj \<times> host_eojs \<times> 's" where
  "resolveEOJInstance tr ip configured hs =
     (case resolveEOJFromNodeProfile tr ip configured hs of
        ((eoj, ok), hosts, s1) \<Rightarrow>
          if ok then (eoj, hosts, s1)
          else (case probeEOJ tr ip configured s1 of
                  ((responsive, probeErr), s2) \<Rightarrow>
                    if responsive then (configured, hosts, s2)
                    else if isProbeTimeout probeErr then (configured, hosts, s2)
                    else (case sweep tr ip configured all_instances s2 of
                            (found, s3) \<Rightarrow> (found, hosts, s3))))"

section \<open>Discovery of a device\<close>

definition filterMetricsByReadableMap :: "MetricSpec list \<Rightarrow> byte set \<Rightarrow> MetricSpec list \<times> bytes" where
  "filterMetricsByReadableMap metrics readable =
     (filter (\<lambda>m. m_EPC m \<in> readable) metrics, map m_EPC (filter (\<lambda>m. m_EPC m \<notin> readable) metrics))"

text \<open>The identity, with the fallback to the manufacturer code alone, and the specification: the
  vendor's, if there is one.\<close>

definition discover_info ::
  "(string \<Rightarrow> (byte \<times> byte \<times> byte \<times> byte) option) \<Rightarrow> (string \<Rightarrow> string) option \<Rightarrow> 's transport_ops \<Rightarrow>
     Device \<Rightarrow> eoj \<Rightarrow> 's \<Rightarrow> DeviceInfo \<times> 's" where
  "discover_info v6 resolver tr dev eoj s =
     (case GetDeviceInfo v6 resolver tr (dv_IP dev) eoj (dv_Model dev) s of
        (Inr info, s1) \<Rightarrow> (info, s1)
      | (Inl e, s1) \<Rightarrow>
          (case GetManufacturerCode tr (dv_IP dev) eoj s1 of
             (Inl e', s2) \<Rightarrow> (zero_info, s2)
           | (Inr mfgCode, s2) \<Rightarrow>
               (if mfgCode \<noteq> [] then zero_info\<lparr>v_ManufacturerCode := mfgCode\<rparr> else zero_info, s2)))"

definition vendor_spec :: "(string \<rightharpoonup> DeviceSpec) \<Rightarrow> Device \<Rightarrow> DeviceInfo \<Rightarrow> DeviceSpec \<Rightarrow> DeviceSpec" where
  "vendor_spec deviceSpecs dev info defaultSpec =
     (if v_ManufacturerCode info \<noteq> [] then
        (case deviceSpecs (dv_Class dev @ ''_'' @ v_ManufacturerCode info) of
           Some vendorSpec \<Rightarrow> vendorSpec
         | None \<Rightarrow> defaultSpec)
      else defaultSpec)"

definition discover_readable ::
  "'s transport_ops \<Rightarrow> Device \<Rightarrow> eoj \<Rightarrow> DeviceSpec \<Rightarrow> 's \<Rightarrow> MetricSpec list \<times> 's" where
  "discover_readable tr dev eoj spec s =
     (case GetReadablePropertyMap tr (dv_IP dev) eoj s of
        (Inl e, s1) \<Rightarrow> (d_Metrics spec, s1)
      | (Inr readable, s1) \<Rightarrow> (fst (filterMetricsByReadableMap (d_Metrics spec) readable), s1))"

definition discover_writable :: "'s transport_ops \<Rightarrow> Device \<Rightarrow> eoj \<Rightarrow> Cache \<times> 's \<Rightarrow> Cache \<times> 's" where
  "discover_writable tr dev eoj = (\<lambda>(c, s).
     (case GetWritablePropertyMap tr (dv_IP dev) eoj s of
        (Inl e, s1) \<Rightarrow> (if isGetSNA (Some e) then SetWritableEPCs dev (Some {}) c else c, s1)
      | (Inr writable, s1) \<Rightarrow> (SetWritableEPCs dev (Some writable) c, s1)))"

definition discover_notify :: "'s transport_ops \<Rightarrow> Device \<Rightarrow> eoj \<Rightarrow> bool \<Rightarrow> Cache \<times> 's \<Rightarrow> Cache \<times> 's" where
  "discover_notify tr dev eoj notificationsEnabled = (\<lambda>(c, s).
     (if notificationsEnabled then
        (case GetNotificationPropertyMap tr (dv_IP dev) eoj s of
           (Inl e, s1) \<Rightarrow> (if isGetSNA (Some e) then SetNotificationEPCs dev {} c else c, s1)
         | (Inr notify, s1) \<Rightarrow> (SetNotificationEPCs dev notify c, s1))
      else (SetNotificationEPCs dev {} c, s)))"

definition discoverDeviceState ::
  "(string \<Rightarrow> (byte \<times> byte \<times> byte \<times> byte) option) \<Rightarrow> (string \<Rightarrow> string) option \<Rightarrow>
     's transport_ops \<Rightarrow> 's transport_ops \<Rightarrow> Device \<Rightarrow> DeviceSpec \<Rightarrow> (string \<rightharpoonup> DeviceSpec) \<Rightarrow> bool \<Rightarrow>
     host_eojs \<times> Cache \<times> 's \<Rightarrow> (eoj \<times> MetricSpec list \<times> DeviceSpec) \<times> host_eojs \<times> Cache \<times> 's" where
  "discoverDeviceState v6 resolver tr probe dev defaultSpec deviceSpecs notificationsEnabled = (\<lambda>(hosts, c, s).
     (case resolveEOJInstance probe (dv_IP dev) (d_EOJ defaultSpec) (hosts, s) of
        (eoj, hosts1, s1) \<Rightarrow>
     (case discover_info v6 resolver tr dev eoj s1 of
        (info, s2) \<Rightarrow>
          let c1 = SetDeviceEOJ dev eoj (UpdateInfo dev info c);
              spec = vendor_spec deviceSpecs dev info defaultSpec
          in (case discover_readable tr dev eoj spec s2 of
                (activeMetrics, s3) \<Rightarrow>
              (case discover_notify tr dev eoj notificationsEnabled
                      (discover_writable tr dev eoj (c1, s3)) of
                 (c2, s4) \<Rightarrow>
                   if activeMetrics = [] then ((eoj, [], spec), hosts1, c2, s4)
                   else ((eoj, activeMetrics, spec), hosts1,
                     SetDeviceLight dev (d_Light spec)
                       (SetDeviceClimate dev (d_Climate spec) (SetDeviceSpecs dev activeMetrics c2)), s4))))))"

section \<open>Starting\<close>

text \<open>The timeout of the probing client: that of the configuration, between one and three seconds.\<close>

definition probe_timeout :: "int \<Rightarrow> int" where
  "probe_timeout scrapeTimeoutSec =
     (let p = (if scrapeTimeoutSec > 3 then 3 else scrapeTimeoutSec) in if p < 1 then 1 else p)"

definition devices_by_ip :: "(string \<rightharpoonup> DeviceSpec) \<Rightarrow> Device list \<Rightarrow> (string, Device list) gomap" where
  "devices_by_ip deviceSpecs devices =
     fold (\<lambda>dev m. if deviceSpecs (dv_Class dev) = None then m
       else AList.update (dv_IP dev)
              ((case map_of m (dv_IP dev) of Some ds \<Rightarrow> ds | None \<Rightarrow> []) @ [dev]) m) devices []"

definition calculateInitialDelay :: "duration \<Rightarrow> int \<Rightarrow> int \<Rightarrow> duration" where
  "calculateInitialDelay interval groupIndex devIndex =
     (let deviceOffset = wrap64 (wrap64 (devIndex * 250) * millisecond);
          initialDelay = wrap64 (deviceOffset + wrap64 (wrap64 (groupIndex * 500) * millisecond));
          half = (if interval < 0 then - ((- interval) div 2) else interval div 2)
      in if half < initialDelay then half else initialDelay)"

text \<open>A scraper that is started: its device, object, metrics, group name, interval and first delay.\<close>

record scraper =
  sc_dev :: Device
  sc_eoj :: eoj
  sc_metrics :: "MetricSpec list"
  sc_group :: string
  sc_interval :: duration
  sc_delay :: duration

definition device_interval :: "Device \<Rightarrow> DeviceSpec \<Rightarrow> duration" where
  "device_interval dev spec =
     (if dv_ScrapeInterval dev \<noteq> [] then
        (case parse_duration (dv_ScrapeInterval dev) of
           None \<Rightarrow> d_DefaultScrapeInterval spec
         | Some d \<Rightarrow> if 0 < d then d else d_DefaultScrapeInterval spec)
      else d_DefaultScrapeInterval spec)"

definition metric_interval :: "duration \<Rightarrow> MetricSpec \<Rightarrow> duration" where
  "metric_interval devDefaultInterval m =
     (if m_ScrapeInterval m \<le> 0 then devDefaultInterval else m_ScrapeInterval m)"

definition by_interval :: "duration \<Rightarrow> MetricSpec list \<Rightarrow> (duration, MetricSpec list) gomap" where
  "by_interval dflt metrics =
     fold (\<lambda>m b. let iv = metric_interval dflt m
       in AList.update iv ((case map_of b iv of Some ms \<Rightarrow> ms | None \<Rightarrow> []) @ [m]) b) metrics []"

definition scheduleDeviceScrapers ::
  "Device \<Rightarrow> eoj \<Rightarrow> MetricSpec list \<Rightarrow> DeviceSpec \<Rightarrow> nat \<Rightarrow> scraper list" where
  "scheduleDeviceScrapers dev activeEOJ activeMetrics spec devIndex =
     (let byInterval = by_interval (device_interval dev spec) activeMetrics;
          intervals = sort (map fst byInterval)
      in map (\<lambda>(i, iv). \<lparr>sc_dev = dev, sc_eoj = activeEOJ, sc_metrics = the (map_of byInterval iv),
             sc_group = duration_string iv, sc_interval = iv,
             sc_delay = calculateInitialDelay iv (int i) (int devIndex)\<rparr>)
           (enumerate 0 intervals))"

text \<open>The goroutine of one host: discovery of its devices one after the other, then the scrapers of
  those that have metrics. A context that ends leaves nothing started. The result: the scrapers,
  and the devices for the refresher (\<open>None\<close> when the goroutine returned early).\<close>

type_synonym discovered = "Device \<times> eoj \<times> MetricSpec list \<times> DeviceSpec"

fun discover_host ::
  "('s \<Rightarrow> bool) \<Rightarrow> (string \<rightharpoonup> DeviceSpec) \<Rightarrow>
     (Device \<Rightarrow> DeviceSpec \<Rightarrow> host_eojs \<times> Cache \<times> 's \<Rightarrow> (eoj \<times> MetricSpec list \<times> DeviceSpec) \<times> host_eojs \<times> Cache \<times> 's) \<Rightarrow>
     Device list \<Rightarrow> host_eojs \<times> Cache \<times> 's \<Rightarrow> discovered list option \<times> host_eojs \<times> Cache \<times> 's" where
  "discover_host ctxErr deviceSpecs discover [] st = (Some [], st)"
| "discover_host ctxErr deviceSpecs discover (dev # devs) st =
     (if ctxErr (snd (snd st)) then (None, st)
      else case deviceSpecs (dv_Class dev) of
        None \<Rightarrow> discover_host ctxErr deviceSpecs discover devs st
      | Some spec \<Rightarrow>
          (case discover dev spec st of
             ((eoj, metrics, activeSpec), st1) \<Rightarrow>
               (case discover_host ctxErr deviceSpecs discover devs st1 of
                  (None, st2) \<Rightarrow> (None, st2)
                | (Some ds, st2) \<Rightarrow>
                    (Some (if metrics = [] then ds else (dev, eoj, metrics, activeSpec) # ds), st2))))"

definition init_host ::
  "(string \<Rightarrow> (byte \<times> byte \<times> byte \<times> byte) option) \<Rightarrow> (string \<Rightarrow> string) option \<Rightarrow>
     's transport_ops \<Rightarrow> 's transport_ops \<Rightarrow> ('s \<Rightarrow> bool) \<Rightarrow> (string \<rightharpoonup> DeviceSpec) \<Rightarrow> bool \<Rightarrow> Device list \<Rightarrow>
     host_eojs \<times> Cache \<times> 's \<Rightarrow> (scraper list \<times> (Device \<times> eoj) list) option \<times> host_eojs \<times> Cache \<times> 's" where
  "init_host v6 resolver tr probe ctxErr deviceSpecs notificationsEnabled devices st =
     (case discover_host ctxErr deviceSpecs
             (\<lambda>dev spec. discoverDeviceState v6 resolver tr probe dev spec deviceSpecs notificationsEnabled) devices st of
        (None, st1) \<Rightarrow> (None, st1)
      | (Some ds, st1) \<Rightarrow>
          if ctxErr (snd (snd st1)) then (None, st1)
          else (Some (concat (map (\<lambda>(devIdx, dev, eoj, metrics, spec).
                    scheduleDeviceScrapers dev eoj metrics spec devIdx) (enumerate 0 ds)),
                  map (\<lambda>(dev, eoj, _). (dev, eoj)) ds), st1))"

section \<open>One scrape\<close>

text \<open>The loop that chooses the codes to ask for: \<open>(seen, skippedEPCs, epcs, skipped)\<close>.\<close>

definition collect_step ::
  "(byte \<Rightarrow> bool) \<Rightarrow> MetricSpec \<Rightarrow> byte set \<times> byte set \<times> bytes \<times> bytes \<Rightarrow> byte set \<times> byte set \<times> bytes \<times> bytes" where
  "collect_step skip m = (\<lambda>(seen, skippedEPCs, epcs, skipped).
     (if m_EPC m \<notin> seen \<and> skip (m_EPC m) then
        (insert (m_EPC m) seen, insert (m_EPC m) skippedEPCs, epcs, skipped @ [m_EPC m])
      else
        let epcs1 = (if m_EPC m \<notin> seen then epcs @ [m_EPC m] else epcs);
            seen1 = insert (m_EPC m) seen
        in if m_MultiplierEPC m \<noteq> 0 \<and> m_MultiplierEPC m \<notin> seen1
           then (insert (m_MultiplierEPC m) seen1, skippedEPCs, epcs1 @ [m_MultiplierEPC m], skipped)
           else (seen1, skippedEPCs, epcs1, skipped)))"

definition collect_epcs :: "(byte \<Rightarrow> bool) \<Rightarrow> MetricSpec list \<Rightarrow> byte set \<times> byte set \<times> bytes \<times> bytes" where
  "collect_epcs skip metrics = fold (collect_step skip) metrics ({}, {}, [], [])"

definition missingMetricNames :: "MetricSpec list \<Rightarrow> (string, MetricValue) gomap \<Rightarrow> string list" where
  "missingMetricNames metrics out = map m_Name (filter (\<lambda>m. map_of out (m_Name m) = None) metrics)"

text \<open>The clock at the points where a scrape reads it: when it asks whether to skip a code (each code
  is asked about once), before and after the request, when the cache is updated and when the
  reconciler looks.\<close>

record scrape_times =
  at_skip :: "byte \<Rightarrow> time"
  at_start :: time
  at_end :: time
  at_update :: time
  at_reconcile :: time

definition scrapeOnce ::
  "(float64 \<Rightarrow> int) \<Rightarrow> (float64 \<Rightarrow> float64) \<Rightarrow> 's transport_ops \<Rightarrow> scrape_times \<Rightarrow> Device \<Rightarrow> eoj \<Rightarrow>
     MetricSpec list \<Rightarrow> string \<Rightarrow> duration \<Rightarrow> Cache \<times> CapabilityReconciler \<times> 's \<Rightarrow>
     (Cache \<times> CapabilityReconciler \<times> 's) \<times> DeviceState option \<times> bool" where
  "scrapeOnce oor log10f tr clk dev eoj metrics groupID interval = (\<lambda>(c, r, s).
     (let freshness = wrap64 (interval * 2)
      in case collect_epcs (\<lambda>epc. ShouldSkipPoll (at_skip clk epc) dev epc freshness c) metrics of
           (seen, skippedEPCs, epcs, skipped) \<Rightarrow>
             if epcs = [] then ((c, r, s), None, False)
             else
               let polledMetrics = filter (\<lambda>m. m_EPC m \<notin> skippedEPCs) metrics;
                   durationSec = duration_seconds (time_sub (at_end clk) (at_start clk))
               in (case GetProps tr (dv_IP dev) eoj epcs s of
                     (Inl err, s1) \<Rightarrow>
                       (case Update (at_update clk) dev groupID interval False durationSec [] (go_error_msg err) c of
                          (c1, state) \<Rightarrow> ((c1, r, s1), state, False))
                   | (Inr props, s1) \<Rightarrow>
                       (case Update (at_update clk) dev groupID interval True durationSec
                               (ParsePropsToMetrics oor log10f props polledMetrics) [] c of
                          (c1, state) \<Rightarrow>
                            if NeedsReconciliation dev c1 then
                              (case ReconcileDevice (at_reconcile clk) dev c1 r of
                                 (r1, cycle_started) \<Rightarrow> ((c1, r1, s1), state, cycle_started))
                            else ((c1, r, s1), state, False)))))"

text \<open>\<open>refreshDeviceInfo\<close>: the devices of a host in turn, until the context ends; \<open>now\<close> gives the
  time of each refresh.\<close>

fun refreshDeviceInfo ::
  "(string \<Rightarrow> (byte \<times> byte \<times> byte \<times> byte) option) \<Rightarrow> (string \<Rightarrow> string) option \<Rightarrow> 's transport_ops \<Rightarrow>
     ('s \<Rightarrow> bool) \<Rightarrow> ('s \<Rightarrow> time) \<Rightarrow> (Device \<times> eoj) list \<Rightarrow> CapabilityReconciler \<times> Cache \<times> 's \<Rightarrow>
     CapabilityReconciler \<times> Cache \<times> 's" where
  "refreshDeviceInfo v6 resolver tr ctxErr now [] st = st"
| "refreshDeviceInfo v6 resolver tr ctxErr now ((dev, eoj) # ds) (r, c, s) =
     (if ctxErr s then (r, c, s)
      else case RefreshDevice v6 resolver tr ctxErr (now s) dev eoj r (c, s) of
        (r1, c1, s1, _) \<Rightarrow> refreshDeviceInfo v6 resolver tr ctxErr now ds (r1, c1, s1))"

section \<open>A scraper\<close>

text \<open>\<open>runScraper\<close>: what happens to the goroutine - a timer or the ticker fires, at the times of the scrape
  that it then makes; other goroutines change the state; the context ends. The first timer is that of the
  initial delay, if there is one. \<open>time.NewTicker\<close> panics for an interval that is not positive, which
  ends the goroutine after its first scrape.\<close>

datatype 'w scraper_event = Timer scrape_times | Others "'w \<Rightarrow> 'w" | Cancelled

fun scrape_ticks ::
  "(scrape_times \<Rightarrow> 'w \<Rightarrow> 'w \<times> 'u) \<Rightarrow> 'w scraper_event list \<Rightarrow> 'w \<Rightarrow> 'w \<times> 'u list" where
  "scrape_ticks scrape [] w = (w, [])"
| "scrape_ticks scrape (Timer clk # evs) w =
     (case scrape clk w of (w1, u) \<Rightarrow> (case scrape_ticks scrape evs w1 of (w2, us) \<Rightarrow> (w2, u # us)))"
| "scrape_ticks scrape (Others f # evs) w = scrape_ticks scrape evs (f w)"
| "scrape_ticks scrape (Cancelled # evs) w = (w, [])"

definition first_scrape ::
  "(scrape_times \<Rightarrow> 'w \<Rightarrow> 'w \<times> 'u) \<Rightarrow> duration \<Rightarrow> scrape_times \<Rightarrow> 'w scraper_event list \<Rightarrow> 'w \<Rightarrow> 'w \<times> 'u list" where
  "first_scrape scrape interval clk evs w =
     (case scrape clk w of
        (w1, u) \<Rightarrow>
          if interval \<le> 0 then (w1, [u])
          else (case scrape_ticks scrape evs w1 of (w2, us) \<Rightarrow> (w2, u # us)))"

fun delayed_scrape ::
  "(scrape_times \<Rightarrow> 'w \<Rightarrow> 'w \<times> 'u) \<Rightarrow> duration \<Rightarrow> 'w scraper_event list \<Rightarrow> 'w \<Rightarrow> 'w \<times> 'u list" where
  "delayed_scrape scrape interval [] w = (w, [])"
| "delayed_scrape scrape interval (Timer clk # evs) w = first_scrape scrape interval clk evs w"
| "delayed_scrape scrape interval (Others f # evs) w = delayed_scrape scrape interval evs (f w)"
| "delayed_scrape scrape interval (Cancelled # evs) w = (w, [])"

definition runScraper ::
  "(scrape_times \<Rightarrow> 'w \<Rightarrow> 'w \<times> 'u) \<Rightarrow> duration \<Rightarrow> duration \<Rightarrow> scrape_times \<Rightarrow> 'w scraper_event list \<Rightarrow> 'w \<Rightarrow> 'w \<times> 'u list" where
  "runScraper scrape interval initialDelay start evs w =
     (if 0 < initialDelay then delayed_scrape scrape interval evs w else first_scrape scrape interval start evs w)"

text \<open>\<open>runDeviceInfoRefresher\<close>: a refresh per tick.\<close>

fun runDeviceInfoRefresher :: "(scrape_times \<Rightarrow> 'w \<Rightarrow> 'w) \<Rightarrow> 'w scraper_event list \<Rightarrow> 'w \<Rightarrow> 'w" where
  "runDeviceInfoRefresher refresh [] w = w"
| "runDeviceInfoRefresher refresh (Timer clk # evs) w = runDeviceInfoRefresher refresh evs (refresh clk w)"
| "runDeviceInfoRefresher refresh (Others f # evs) w = runDeviceInfoRefresher refresh evs (f w)"
| "runDeviceInfoRefresher refresh (Cancelled # evs) w = w"

section \<open>Lemmas: object codes\<close>

lemma find_SomeD: "find P xs = Some x \<Longrightarrow> x \<in> set xs \<and> P x"
  by (auto simp: find_Some_iff)

lemma select_class: "fst (selectEOJFromInstances configured instances) \<in> insert configured (set instances)
    \<and> same_class (fst (selectEOJFromInstances configured instances)) configured"
proof (cases "find (\<lambda>x. same_class x configured) instances")
  case None
  then show ?thesis by (simp add: selectEOJFromInstances_def same_class_def)
next
  case (Some x)
  then show ?thesis using find_SomeD [OF Some] by (simp add: selectEOJFromInstances_def)
qed

lemma resolve_node_class:
  "resolveEOJFromNodeProfile tr ip configured (hosts, s) = ((eoj, ok), hosts', s') \<Longrightarrow> same_class eoj configured"
  using select_class [of configured] unfolding resolveEOJFromNodeProfile_def read_node_profile_def
  by (auto simp: Let_def same_class_def split: option.splits if_splits prod.splits sum.splits)
    (metis fst_conv snd_conv)+

lemma sweep_class: "same_class (fst (sweep tr ip configured insts s)) configured"
  by (induction tr ip configured insts s rule: sweep.induct)
    (auto simp: same_class_def with_instance_def split: prod.splits)

lemma resolve_class:
  assumes "resolveEOJInstance tr ip configured hs = (eoj, hosts', s')"
  shows "same_class eoj configured"
proof -
  obtain e ok hosts1 s1 where n: "resolveEOJFromNodeProfile tr ip configured hs = ((e, ok), hosts1, s1)"
    by (metis surj_pair)
  obtain hosts s where hs: "hs = (hosts, s)" by force
  have "same_class e configured" using n unfolding hs by (rule resolve_node_class)
  moreover have "same_class configured configured" by (simp add: same_class_def)
  moreover obtain p1 p2 s2 where "probeEOJ tr ip configured s1 = ((p1, p2), s2)" by (metis surj_pair)
  moreover obtain f s3 where "sweep tr ip configured all_instances s2 = (f, s3)" by (metis surj_pair)
  moreover from this have "same_class f configured" using sweep_class [of tr ip configured all_instances s2] by simp
  ultimately show ?thesis using assms n unfolding resolveEOJInstance_def by (simp split: if_splits)
qed

section \<open>Lemmas: groups\<close>

lemma by_interval_fold:
  "map_of (fold (\<lambda>m b. let iv = metric_interval dflt m
       in AList.update iv ((case map_of b iv of Some ms \<Rightarrow> ms | None \<Rightarrow> []) @ [m]) b) metrics b0) iv
   = (let old = (case map_of b0 iv of Some ms \<Rightarrow> ms | None \<Rightarrow> []);
          new = filter (\<lambda>m. metric_interval dflt m = iv) metrics
      in if new = [] then map_of b0 iv else Some (old @ new))"
  by (induction metrics arbitrary: b0) (auto simp: Let_def split: option.splits)

lemma map_of_by_interval:
  "map_of (by_interval dflt metrics) iv =
     (let ms = filter (\<lambda>m. metric_interval dflt m = iv) metrics in if ms = [] then None else Some ms)"
  unfolding by_interval_def by_interval_fold by (simp add: Let_def)

lemma gomap_ok_by_interval: "gomap_ok (by_interval dflt metrics)"
proof -
  have "gomap_ok b0 \<Longrightarrow> gomap_ok (fold (\<lambda>m b. let iv = metric_interval dflt m
       in AList.update iv ((case map_of b iv of Some ms \<Rightarrow> ms | None \<Rightarrow> []) @ [m]) b) metrics b0)" for b0
    by (induction metrics arbitrary: b0) (auto simp: Let_def)
  then show ?thesis by (simp add: by_interval_def)
qed

lemma keys_by_interval: "gokeys (by_interval dflt metrics) = metric_interval dflt ` set metrics"
proof -
  have "gokeys (by_interval dflt metrics) = dom (map_of (by_interval dflt metrics))"
    by (simp add: dom_map_of_conv_image_fst)
  also have "\<dots> = metric_interval dflt ` set metrics"
    by (auto simp: domIff map_of_by_interval Let_def filter_empty_conv split: if_splits)
  finally show ?thesis .
qed

lemma initial_delay_le:
  "0 \<le> interval \<Longrightarrow> calculateInitialDelay interval gi di \<le> interval div 2"
  by (simp add: calculateInitialDelay_def Let_def)

lemma initial_delay_value:
  assumes "0 \<le> interval" "0 \<le> gi" "gi < 2 ^ 20" "0 \<le> di" "di < 2 ^ 20"
  shows "calculateInitialDelay interval gi di = min (interval div 2) ((di * 250 + gi * 500) * millisecond)"
proof -
  have "int64_ok (di * 250)" "int64_ok (di * 250 * millisecond)" "int64_ok (gi * 500)" "int64_ok (gi * 500 * millisecond)"
    "int64_ok (di * 250 * millisecond + gi * 500 * millisecond)"
    using assms by (simp_all add: int64_ok_def)
  then show ?thesis using assms(1) by (simp add: calculateInitialDelay_def Let_def min_def algebra_simps)
qed

section \<open>Lemmas: the codes of a scrape\<close>

definition collected_ok :: "(byte \<Rightarrow> bool) \<Rightarrow> byte set \<times> byte set \<times> bytes \<times> bytes \<Rightarrow> bool" where
  "collected_ok skip st = (case st of (seen, skippedEPCs, epcs, skipped) \<Rightarrow>
     seen = set epcs \<union> skippedEPCs \<and> set epcs \<inter> skippedEPCs = {} \<and> distinct epcs
     \<and> set skipped = skippedEPCs \<and> distinct skipped \<and> (\<forall>e \<in> skippedEPCs. skip e))"

lemma collect_step_ok: "collected_ok skip st \<Longrightarrow> collected_ok skip (collect_step skip m st)"
  by (auto simp: collected_ok_def collect_step_def Let_def split: prod.splits)

lemma collect_step_grows:
  assumes "collect_step skip m (seen, sk, epcs, l) = (seen', sk', epcs', l')"
  shows "set epcs \<subseteq> set epcs'" "sk \<subseteq> sk'" "seen \<subseteq> seen'" "m_EPC m \<in> seen'"
    "set epcs' \<subseteq> set epcs \<union> {m_EPC m, m_MultiplierEPC m}" "m_EPC m \<in> sk' \<or> m_MultiplierEPC m = 0 \<or> m_MultiplierEPC m \<in> seen'"
  using assms by (auto simp: collect_step_def Let_def split: if_splits)

lemma collect_fold:
  assumes "collected_ok skip st" "fold (collect_step skip) ms st = (seen', sk', epcs', l')" "st = (seen, sk, epcs, l)"
  shows "collected_ok skip (seen', sk', epcs', l') \<and> set epcs \<subseteq> set epcs' \<and> sk \<subseteq> sk' \<and> seen \<subseteq> seen'
    \<and> m_EPC ` set ms \<subseteq> seen' \<and> set epcs' \<subseteq> set epcs \<union> m_EPC ` set ms \<union> m_MultiplierEPC ` set ms
    \<and> (\<forall>m \<in> set ms. m_EPC m \<in> sk' \<or> m_MultiplierEPC m = 0 \<or> m_MultiplierEPC m \<in> seen')"
  using assms
proof (induction ms arbitrary: st seen sk epcs l)
  case (Cons m ms)
  obtain seen1 sk1 epcs1 l1 where st1: "collect_step skip m st = (seen1, sk1, epcs1, l1)" by (metis prod_cases4)
  note g = collect_step_grows [OF st1 [unfolded Cons.prems(3)]]
  have "collected_ok skip (seen1, sk1, epcs1, l1)" using collect_step_ok [OF Cons.prems(1), of m] by (simp add: st1)
  from Cons.IH [OF this _ refl] Cons.prems(2) st1
  have "collected_ok skip (seen', sk', epcs', l') \<and> set epcs1 \<subseteq> set epcs' \<and> sk1 \<subseteq> sk' \<and> seen1 \<subseteq> seen'
    \<and> m_EPC ` set ms \<subseteq> seen' \<and> set epcs' \<subseteq> set epcs1 \<union> m_EPC ` set ms \<union> m_MultiplierEPC ` set ms
    \<and> (\<forall>m \<in> set ms. m_EPC m \<in> sk' \<or> m_MultiplierEPC m = 0 \<or> m_MultiplierEPC m \<in> seen')" by simp
  with g show ?case by auto
qed auto

lemma collect_epcs_spec:
  assumes "collect_epcs skip metrics = (seen, sk, epcs, l)"
  shows "distinct epcs" "set epcs \<inter> sk = {}" "seen = set epcs \<union> sk" "e \<in> sk \<Longrightarrow> skip e"
    "m_EPC ` set metrics \<subseteq> set epcs \<union> sk" "set epcs \<subseteq> m_EPC ` set metrics \<union> m_MultiplierEPC ` set metrics"
    "m \<in> set metrics \<Longrightarrow> m_EPC m \<in> sk \<or> m_MultiplierEPC m = 0 \<or> m_MultiplierEPC m \<in> set epcs \<union> sk"
proof -
  have "collected_ok skip ({}, {}, [], [])" by (simp add: collected_ok_def)
  from collect_fold [OF this assms [unfolded collect_epcs_def] refl]
  show "distinct epcs" "set epcs \<inter> sk = {}" "seen = set epcs \<union> sk" "e \<in> sk \<Longrightarrow> skip e"
    "m_EPC ` set metrics \<subseteq> set epcs \<union> sk" "set epcs \<subseteq> m_EPC ` set metrics \<union> m_MultiplierEPC ` set metrics"
    "m \<in> set metrics \<Longrightarrow> m_EPC m \<in> sk \<or> m_MultiplierEPC m = 0 \<or> m_MultiplierEPC m \<in> set epcs \<union> sk"
    by (auto simp: collected_ok_def)
qed

section \<open>Lemmas: parts of the cache\<close>

lemma dc_of_Update:
  "dc_of (deviceKey dev) (fst (Update now dev gid interval success dur metrics err c)) =
     (let dc = dc_of (deviceKey dev) c
      in dc\<lparr>k_groups := AList.update gid (update_group now interval success dur err
             (case map_of (k_groups dc) gid of Some g \<Rightarrow> g | None \<Rightarrow> zero_group)) (k_groups dc),
           k_metrics := (if success then go_copy_into (k_metrics dc) metrics else k_metrics dc)\<rparr>)"
  by (simp add: Update_def Let_def dc_of_def)

section \<open>Lemmas: discovery\<close>

lemma discover_writable_keeps:
  "discover_writable tr dev eoj (c, s) = (c', s') \<Longrightarrow> ca_eojByDev c' = ca_eojByDev c"
  by (auto simp: discover_writable_def SetWritableEPCs_def split: prod.splits sum.splits if_splits)

lemma discover_notify_keeps:
  "discover_notify tr dev eoj b (c, s) = (c', s') \<Longrightarrow> ca_eojByDev c' = ca_eojByDev c \<and> (b \<or> HasNotificationMap dev c')"
  by (auto simp: discover_notify_def SetNotificationEPCs_def HasNotificationMap_def split: prod.splits sum.splits if_splits)

lemma discover_readable_subset:
  "discover_readable tr dev eoj spec s = (ms, s') \<Longrightarrow> set ms \<subseteq> set (d_Metrics spec)"
  by (auto simp: discover_readable_def filterMetricsByReadableMap_def split: prod.splits sum.splits)

lemma scrapers_intervals:
  "map sc_interval (scheduleDeviceScrapers dev eoj metrics spec k) = sort (map fst (by_interval (device_interval dev spec) metrics))"
  by (simp add: scheduleDeviceScrapers_def Let_def comp_def case_prod_unfold)

lemma scraper_of:
  assumes "sc \<in> set (scheduleDeviceScrapers dev eoj metrics spec k)"
  shows "sc_metrics sc = filter (\<lambda>m. metric_interval (device_interval dev spec) m = sc_interval sc) metrics"
    "sc_metrics sc \<noteq> []" "0 \<le> sc_interval sc \<longrightarrow> sc_delay sc \<le> sc_interval sc div 2"
proof -
  let ?dflt = "device_interval dev spec" let ?b = "by_interval ?dflt metrics"
  let ?ivs = "sort (map fst ?b)"
  obtain i iv where iv: "(i, iv) \<in> set (enumerate 0 ?ivs)" "sc_interval sc = iv" "sc_metrics sc = the (map_of ?b iv)"
    "sc_delay sc = calculateInitialDelay iv (int i) (int k)"
    using assms by (auto simp: scheduleDeviceScrapers_def Let_def)
  have "iv \<in> set ?ivs" using iv(1) nth_mem [of i ?ivs] by (simp add: in_set_enumerate_eq del: set_sort)
  then have "iv \<in> metric_interval ?dflt ` set metrics" by (simp flip: keys_by_interval)
  then have "filter (\<lambda>m. metric_interval ?dflt m = iv) metrics \<noteq> []" by (auto simp: filter_empty_conv)
  then show "sc_metrics sc = filter (\<lambda>m. metric_interval ?dflt m = sc_interval sc) metrics"
    "sc_metrics sc \<noteq> []" "0 \<le> sc_interval sc \<longrightarrow> sc_delay sc \<le> sc_interval sc div 2"
    using iv initial_delay_le by (simp_all add: map_of_by_interval Let_def)
qed

text \<open>The timers that fire before the context ends.\<close>

fun timers :: "'w scraper_event list \<Rightarrow> nat" where
  "timers [] = 0"
| "timers (Timer clk # evs) = Suc (timers evs)"
| "timers (Others f # evs) = timers evs"
| "timers (Cancelled # evs) = 0"

lemma scrape_ticks_length: "length (snd (scrape_ticks scrape evs w)) = timers evs"
proof (induction evs arbitrary: w)
  case (Cons e evs)
  then show ?case by (cases e) (simp_all add: case_prod_beta)
qed simp

lemma first_scrape_length: "0 < interval \<Longrightarrow> length (snd (first_scrape scrape interval clk evs w)) = Suc (timers evs)"
  by (simp add: first_scrape_def case_prod_beta scrape_ticks_length)

lemma runScraper_length:
  assumes "0 < interval"
  shows "length (snd (runScraper scrape interval delay start evs w)) = timers evs + (if 0 < delay then 0 else 1)"
proof -
  have "length (snd (delayed_scrape scrape interval evs w)) = timers evs"
  proof (induction evs arbitrary: w)
    case (Cons e evs)
    then show ?case using assms by (cases e) (simp_all add: first_scrape_length)
  qed simp
  with assms show ?thesis by (simp add: runScraper_def first_scrape_length)
qed

lemma scraper_interval_pos:
  assumes "sc \<in> set (scheduleDeviceScrapers dev eoj metrics spec k)" "0 < d_DefaultScrapeInterval spec"
  shows "0 < sc_interval sc"
proof -
  have "sc_interval sc \<in> metric_interval (device_interval dev spec) ` set metrics"
    using scraper_of(1,2) [OF assms(1)] by (force simp: filter_empty_conv)
  moreover have "0 < device_interval dev spec" using assms(2) by (simp add: device_interval_def split: option.splits)
  ultimately show ?thesis by (auto simp: metric_interval_def split: if_splits)
qed

section \<open>Properties\<close>

text \<open>The instance list of a node profile is read back as it was written: the count and the
  three bytes of each object give exactly the objects, whatever follows; and when the list is cut
  short, the objects that are complete.\<close>

theorem instance_list_roundtrip:
  assumes "length es < 256"
  shows "decodeInstanceList (word_of_nat (length es) # concat (map eoj_bytes es) @ rest) = es
    \<and> decodeInstanceList (take (1 + 3 * k) (word_of_nat (length es) # concat (map eoj_bytes es))) = take k es"
proof -
  have nth: "k < length es \<Longrightarrow> concat (map eoj_bytes es) ! (3 * k) = fst (es ! k)
      \<and> concat (map eoj_bytes es) ! (3 * k + 1) = fst (snd (es ! k))
      \<and> concat (map eoj_bytes es) ! (3 * k + 2) = snd (snd (es ! k))" for k and es :: "eoj list"
  proof (induction es arbitrary: k)
    case (Cons e es)
    then show ?case by (cases k; cases e) (simp_all add: eoj_bytes_def)
  qed simp
  have len: "length (concat (map eoj_bytes es)) = 3 * length es" for es :: "eoj list"
    by (induction es) (auto simp: eoj_bytes_def)
  have decode: "decodeInstanceList (word_of_nat n # concat (map eoj_bytes es) @ rest) = es"
    if "length es \<le> n" "n < 256" "n = length es \<or> rest = []" for n and es :: "eoj list" and rest
  proof -
    let ?b = "word_of_nat n # concat (map eoj_bytes es) @ rest"
    have count: "(if (length ?b - 1) div 3 < unat (?b ! 0) then (length ?b - 1) div 3 else unat (?b ! 0)) = length es"
      using that by (auto simp: len unsigned_of_nat take_bit_eq_mod)
    have "(let base = 1 + i * 3 in (?b ! base, ?b ! (base + 1), ?b ! (base + 2))) = es ! i" if "i < length es" for i
      using nth [OF that] that by (simp add: len nth_append Let_def mult.commute)
    then have "map (\<lambda>i. let base = 1 + i * 3 in (?b ! base, ?b ! (base + 1), ?b ! (base + 2))) [0..<length es]
        = map ((!) es) [0..<length es]"
      by (intro map_cong) simp_all
    then show ?thesis using count by (simp only: decodeInstanceList_def Let_def map_nth) simp
  qed
  have "take (3 * k) (concat (map eoj_bytes es)) = concat (map eoj_bytes (take k es))" for es :: "eoj list"
  proof (induction es arbitrary: k)
    case (Cons e es)
    then show ?case by (cases k; cases e) (simp_all add: eoj_bytes_def take_Cons')
  qed simp
  then have "decodeInstanceList (take (1 + 3 * k) (word_of_nat (length es) # concat (map eoj_bytes es))) = take k es"
    using decode [of "take k es" "length es" "[]"] assms by simp
  with decode [of es "length es" rest] assms show ?thesis by simp
qed

theorem instance_list_roundtrip_witness:
  "decodeInstanceList [2, 1, 0x30, 1, 2, 0x88, 1, 7] = [(1, 0x30, 1), (2, 0x88, 1)]"
  using instance_list_roundtrip [of "[(1, 0x30, 1), (2, 0x88, 1)]" "[7]"] by (simp add: eoj_bytes_def)

text \<open>Discovery never leaves the class of the specification: the object it settles on has the class
  of the configured one, whatever the node profile or the probes answer; it is recorded for the
  device; the metrics to poll are metrics of the specification chosen, and when there are any they
  are recorded for the device with the climate and light parts of that specification. With
  notifications off the notification map is known (and empty) at once.\<close>

theorem discovery_records:
  assumes "discoverDeviceState v6 resolver tr probe dev spec0 deviceSpecs notif (hosts, c, s)
    = ((eoj, metrics, spec), hosts', c', s')"
  shows "fst eoj = fst (d_EOJ spec0) \<and> fst (snd eoj) = fst (snd (d_EOJ spec0))
    \<and> GetDeviceEOJ dev c' = Some eoj \<and> set metrics \<subseteq> set (d_Metrics spec)
    \<and> (metrics \<noteq> [] \<longrightarrow> GetDeviceSpecs dev c' = Some metrics
         \<and> GetDeviceClimate dev c' = d_Climate spec \<and> GetDeviceLight dev c' = d_Light spec)
    \<and> (notif \<or> HasNotificationMap dev c')"
proof -
  obtain e hosts1 s1 where r: "resolveEOJInstance probe (dv_IP dev) (d_EOJ spec0) (hosts, s) = (e, hosts1, s1)"
    by (metis surj_pair)
  obtain info s2 where i: "discover_info v6 resolver tr dev e s1 = (info, s2)" by (metis surj_pair)
  let ?spec = "vendor_spec deviceSpecs dev info spec0" and ?c1 = "SetDeviceEOJ dev e (UpdateInfo dev info c)"
  obtain ms s3 where m: "discover_readable tr dev e ?spec s2 = (ms, s3)" by (metis surj_pair)
  obtain c2 s4 where w: "discover_writable tr dev e (?c1, s3) = (c2, s4)" by (metis surj_pair)
  obtain c3 s5 where n: "discover_notify tr dev e notif (c2, s4) = (c3, s5)" by (metis surj_pair)
  let ?c4 = "SetDeviceLight dev (d_Light ?spec) (SetDeviceClimate dev (d_Climate ?spec) (SetDeviceSpecs dev ms c3))"
  have res: "eoj = e" "spec = ?spec" "metrics = ms" "c' = (if ms = [] then c3 else ?c4)"
    using assms unfolding discoverDeviceState_def by (auto simp: r i m w n Let_def split: if_splits)
  have eojs: "GetDeviceEOJ dev c3 = Some e"
    using discover_writable_keeps [OF w] discover_notify_keeps [OF n] by (simp add: GetDeviceEOJ_def SetDeviceEOJ_def)
  have "GetDeviceEOJ dev ?c4 = Some e" "HasNotificationMap dev ?c4 = HasNotificationMap dev c3"
    "GetDeviceSpecs dev ?c4 = Some ms" "GetDeviceClimate dev ?c4 = d_Climate ?spec" "GetDeviceLight dev ?c4 = d_Light ?spec"
    using eojs by (simp_all add: GetDeviceEOJ_def HasNotificationMap_def GetDeviceSpecs_def GetDeviceClimate_def GetDeviceLight_def
        SetDeviceLight_def SetDeviceClimate_def SetDeviceSpecs_def split: option.splits)
  with eojs resolve_class [OF r] discover_readable_subset [OF m] discover_notify_keeps [OF n] show ?thesis
    unfolding res same_class_def by auto
qed

definition sample_spec :: DeviceSpec where
  "sample_spec = \<lparr>d_EOJ = (1, 0x30, 1), d_Description = [], d_DefaultScrapeInterval = minute,
     d_Metrics = [zero_metric\<lparr>m_EPC := 0x80, m_Name := ''on''\<rparr>, zero_metric\<lparr>m_EPC := 0xBB, m_ScrapeInterval := 5 * second\<rparr>],
     d_Climate = None, d_Light = None\<rparr>"

theorem discovery_records_witness:
  "let d = discoverDeviceState (\<lambda>_. None) None refusing refusing sample_device sample_spec Map.empty False
     (Map.empty, NewCache, 0)
   in GetDeviceEOJ sample_device (fst (snd (snd d))) = Some (fst (fst d)) \<and> HasNotificationMap sample_device (fst (snd (snd d)))"
proof -
  let ?d = "discoverDeviceState (\<lambda>_. None) None refusing refusing sample_device sample_spec Map.empty False (Map.empty, NewCache, 0)"
  have "?d = ((fst (fst ?d), fst (snd (fst ?d)), snd (snd (fst ?d))), fst (snd ?d), fst (snd (snd ?d)), snd (snd (snd ?d)))"
    by simp
  from discovery_records [OF this] show ?thesis by (simp add: Let_def)
qed

text \<open>C15: the scrapers of a device divide its metrics: their intervals are strictly increasing, each has
  the metrics whose own interval (or the device's, when they have none) is its interval, every
  metric is in exactly one of them, none waits longer than half its interval before its first
  scrape, and the names under which the cache keeps their status are different.\<close>

theorem scrapers_partition:
  fixes dev eoj metrics spec k
  defines "scs \<equiv> scheduleDeviceScrapers dev eoj metrics spec k"
  shows "sorted_wrt (<) (map sc_interval scs)
    \<and> (\<forall>sc \<in> set scs. sc_metrics sc = filter (\<lambda>m. metric_interval (device_interval dev spec) m = sc_interval sc) metrics
         \<and> sc_metrics sc \<noteq> [] \<and> (0 \<le> sc_interval sc \<longrightarrow> sc_delay sc \<le> sc_interval sc div 2))
    \<and> (\<forall>m \<in> set metrics. \<exists>!sc. sc \<in> set scs \<and> m \<in> set (sc_metrics sc))
    \<and> (int64_ok (device_interval dev spec) \<and> (\<forall>m \<in> set metrics. int64_ok (m_ScrapeInterval m)) \<longrightarrow>
         distinct (map sc_group scs))"
proof -
  let ?dflt = "device_interval dev spec" let ?b = "by_interval ?dflt metrics"
  let ?ivs = "sort (map fst ?b)"
  have "distinct ?ivs" using gomap_ok_by_interval [of ?dflt metrics] by (simp add: gomap_ok_def)
  then have strict: "sorted_wrt (<) ?ivs" using sorted_sort [of "map fst ?b"] by (simp add: strict_sorted_iff)
  have ivs: "map sc_interval scs = ?ivs" by (simp add: scs_def scrapers_intervals)
  note sc = scraper_of [where dev = dev and eoj = eoj and metrics = metrics and spec = spec and k = k, folded scs_def]
  have "\<exists>!sc. sc \<in> set scs \<and> m \<in> set (sc_metrics sc)" if "m \<in> set metrics" for m
  proof -
    have "metric_interval ?dflt m \<in> set (map sc_interval scs)"
      unfolding ivs using that by (simp add: keys_by_interval)
    then obtain sc0 where sc0: "sc0 \<in> set scs" "sc_interval sc0 = metric_interval ?dflt m" by auto
    have inj: "inj_on sc_interval (set scs)"
      using \<open>distinct ?ivs\<close> unfolding ivs [symmetric] distinct_map by blast
    show ?thesis
    proof (rule ex1I [of _ sc0])
      show "sc0 \<in> set scs \<and> m \<in> set (sc_metrics sc0)" using sc [OF sc0(1)] sc0 that by simp
      show "x = sc0" if "x \<in> set scs \<and> m \<in> set (sc_metrics x)" for x
        using that sc [of x] sc0(2) by (intro inj_onD [OF inj _ _ sc0(1)]) auto
    qed
  qed
  moreover have "distinct (map sc_group scs)"
    if "int64_ok ?dflt" "\<forall>m \<in> set metrics. int64_ok (m_ScrapeInterval m)"
  proof -
    have "int64_ok iv" if "iv \<in> set ?ivs" for iv
      using that \<open>int64_ok ?dflt\<close> \<open>\<forall>m \<in> set metrics. int64_ok (m_ScrapeInterval m)\<close>
      by (auto simp: keys_by_interval metric_interval_def)
    then have "inj_on duration_string (set ?ivs)" by (intro inj_onI duration_string_inj)
    moreover have "map sc_group scs = map duration_string (map snd (enumerate 0 ?ivs))"
      by (simp add: scs_def scheduleDeviceScrapers_def Let_def comp_def case_prod_unfold del: map_snd_enumerate)
    then have "map sc_group scs = map duration_string ?ivs" by (simp only: map_snd_enumerate)
    ultimately show ?thesis using \<open>distinct ?ivs\<close> by (simp add: distinct_map)
  qed
  ultimately show ?thesis using strict sc unfolding ivs by blast
qed

theorem scrapers_partition_witness:
  "sorted_wrt (<) (map sc_interval (scheduleDeviceScrapers sample_device (1, 0x30, 1) (d_Metrics sample_spec) sample_spec 0))"
  using scrapers_partition [of sample_device "(1, 0x30, 1)" "d_Metrics sample_spec" sample_spec 0] by blast

text \<open>C16: a scrape asks for each code once, for every metric of the group either its code is asked for or
  it is one whose poll may be skipped, and it asks for nothing else than codes and multipliers of
  the group. With polling forced, every code of the group is asked for.\<close>

theorem scrape_asks_for:
  assumes "collect_epcs (\<lambda>epc. ShouldSkipPoll (skip_time epc) dev epc freshness c) metrics = (seen, skippedEPCs, epcs, skipped)"
  shows "distinct epcs
    \<and> (\<forall>m \<in> set metrics. m_EPC m \<in> set epcs \<or> ShouldSkipPoll (skip_time (m_EPC m)) dev (m_EPC m) freshness c)
    \<and> set epcs \<subseteq> m_EPC ` set metrics \<union> m_MultiplierEPC ` set metrics
    \<and> (ca_forcePolling c \<longrightarrow> m_EPC ` set metrics \<subseteq> set epcs)"
proof -
  have "ca_forcePolling c \<Longrightarrow> skippedEPCs = {}"
    using collect_epcs_spec(4) [OF assms] by (auto simp: ShouldSkipPoll_def)
  moreover have "m_EPC m \<in> set epcs \<or> ShouldSkipPoll (skip_time (m_EPC m)) dev (m_EPC m) freshness c"
    if "m \<in> set metrics" for m
    using collect_epcs_spec(4,5) [OF assms] that by blast
  ultimately show ?thesis using collect_epcs_spec(1,5,6) [OF assms] by blast
qed

theorem scrape_asks_for_witness:
  "0x80 \<in> set (fst (snd (snd (collect_epcs (\<lambda>epc. ShouldSkipPoll 0 sample_device epc second (SetForcePolling True NewCache))
      [zero_metric\<lparr>m_EPC := 0x80\<rparr>]))))"
proof -
  obtain seen sk epcs l where c: "collect_epcs (\<lambda>epc. ShouldSkipPoll ((\<lambda>_. 0) epc) sample_device epc second (SetForcePolling True NewCache))
      [zero_metric\<lparr>m_EPC := 0x80\<rparr>] = (seen, sk, epcs, l)" by (metis prod_cases4)
  from scrape_asks_for [OF this] show ?thesis using c by (simp add: SetForcePolling_def)
qed

text \<open>C14: what a scrape does to the cache, on every path: with nothing to ask for, nothing; when the
  request fails, every value that was cached stays, and the group is marked as failed once more;
  when it succeeds, the cached values are overridden by those of the response and the group is
  marked as successful, at the time of the update.\<close>

theorem scrape_effect:
  assumes "scrapeOnce oor log10f tr clk dev eoj metrics gid interval (c, r, s) = ((c', r', s'), state, cyc)"
    and "cache_ok c"
    and "collect_epcs (\<lambda>epc. ShouldSkipPoll (at_skip clk epc) dev epc (wrap64 (interval * 2)) c) metrics = (seen, skippedEPCs, epcs, skipped)"
  defines "old \<equiv> dc_of (deviceKey dev) c" and "new \<equiv> dc_of (deviceKey dev) c'"
  shows "(epcs = [] \<longrightarrow> (c', r', s') = (c, r, s))
    \<and> (\<forall>err. epcs \<noteq> [] \<and> fst (GetProps tr (dv_IP dev) eoj epcs s) = Inl err \<longrightarrow>
         k_metrics new = k_metrics old \<and> r' = r
         \<and> (\<exists>g. map_of (k_groups new) gid = Some g \<and> \<not> g_success g \<and> g_lastAttempt g = at_update clk
              \<and> g_failures g = 1 + (case map_of (k_groups old) gid of Some g0 \<Rightarrow> g_failures g0 | None \<Rightarrow> 0)))
    \<and> (\<forall>props. epcs \<noteq> [] \<and> fst (GetProps tr (dv_IP dev) eoj epcs s) = Inr props \<longrightarrow>
         map_of (k_metrics new) = map_of (k_metrics old)
           ++ map_of (ParsePropsToMetrics oor log10f props (filter (\<lambda>m. m_EPC m \<notin> skippedEPCs) metrics))
         \<and> (\<exists>g. map_of (k_groups new) gid = Some g \<and> g_success g \<and> g_failures g = 0 \<and> g_lastSuccess g = at_update clk))"
proof -
  have one: "c' = c \<and> r' = r \<and> s' = s" if "epcs = []"
    using assms(1,3) that by (simp add: scrapeOnce_def Let_def)
  have two: "c' = fst (Update (at_update clk) dev gid interval False (duration_seconds (time_sub (at_end clk) (at_start clk))) [] (go_error_msg err) c)
      \<and> r' = r"
    if "epcs \<noteq> []" "fst (GetProps tr (dv_IP dev) eoj epcs s) = Inl err" for err
    using assms(1,3) that by (auto simp: scrapeOnce_def Let_def split: prod.splits)
  have three: "c' = fst (Update (at_update clk) dev gid interval True (duration_seconds (time_sub (at_end clk) (at_start clk)))
      (ParsePropsToMetrics oor log10f props (filter (\<lambda>m. m_EPC m \<notin> skippedEPCs) metrics)) [] c)"
    if "epcs \<noteq> []" "fst (GetProps tr (dv_IP dev) eoj epcs s) = Inr props" for props
    using assms(1,3) that by (auto simp: scrapeOnce_def Let_def split: prod.splits if_splits)
  have "gomap_ok (ParsePropsToMetrics oor log10f props ms)" for props ms by (rule ParsePropsToMetrics_ok)
  note parse = map_of_copy_into [OF this]
  have "\<exists>g. map_of (k_groups new) gid = Some g \<and> \<not> g_success g \<and> g_lastAttempt g = at_update clk
      \<and> g_failures g = 1 + (case map_of (k_groups old) gid of Some g0 \<Rightarrow> g_failures g0 | None \<Rightarrow> 0)"
    "k_metrics new = k_metrics old" "r' = r"
    if "epcs \<noteq> []" "fst (GetProps tr (dv_IP dev) eoj epcs s) = Inl err" for err
    using two [OF that] unfolding old_def new_def
    by (simp_all add: dc_of_Update Let_def update_group_def zero_group_def split: option.splits)
  moreover have "map_of (k_metrics new) = map_of (k_metrics old)
        ++ map_of (ParsePropsToMetrics oor log10f props (filter (\<lambda>m. m_EPC m \<notin> skippedEPCs) metrics))"
    "\<exists>g. map_of (k_groups new) gid = Some g \<and> g_success g \<and> g_failures g = 0 \<and> g_lastSuccess g = at_update clk"
    if "epcs \<noteq> []" "fst (GetProps tr (dv_IP dev) eoj epcs s) = Inr props" for props
    using three [OF that] unfolding old_def new_def
    by (simp_all add: dc_of_Update Let_def update_group_def parse)
  ultimately show ?thesis using one by blast
qed

definition sample_clock :: scrape_times where
  "sample_clock = \<lparr>at_skip = (\<lambda>_. 0), at_start = 1, at_end = 2, at_update = 3, at_reconcile = 4\<rparr>"

lemma refusing_empty: "fst (GetProps refusing addr eoj [0x80] s) = Inr []"
proof -
  let ?p = "\<lparr>p_EPC = 0x9D, p_PDC = 0, p_EDT = []\<rparr>"
  have pf: "parseFrame (frame_of tid seoj deoj 0x52 [?p]) = Inr (tid, 0x52, [?p])" for tid seoj deoj
    by (rule parseFrame_frame_of) (simp_all add: prop_ok_def)
  show ?thesis
    unfolding GetProps_def getPropsAdaptive.simps [of refusing addr eoj "[0x80]"]
    by (simp add: SendGet_def ParseGetRes_def refusing_def pf isGetSNA_def missingEPCs_def Let_def)
qed

theorem scrape_effect_witness:
  "\<exists>g. map_of (k_groups (dc_of (deviceKey sample_device) (fst (fst (scrapeOnce (\<lambda>_. 0) (\<lambda>x. x) refusing sample_clock
      sample_device (1, 0x30, 1) [zero_metric\<lparr>m_EPC := 0x80\<rparr>] ''1m0s'' minute (NewCache, NewCapabilityReconciler, 0))))))
      ''1m0s'' = Some g \<and> g_success g"
proof -
  let ?r = "scrapeOnce (\<lambda>_. 0) (\<lambda>x. x) refusing sample_clock
      sample_device (1, 0x30, 1) [zero_metric\<lparr>m_EPC := 0x80\<rparr>] ''1m0s'' minute (NewCache, NewCapabilityReconciler, 0)"
  have r: "?r = ((fst (fst ?r), fst (snd (fst ?r)), snd (snd (fst ?r))), fst (snd ?r), snd (snd ?r))" by simp
  have c: "collect_epcs (\<lambda>epc. ShouldSkipPoll (at_skip sample_clock epc) sample_device epc (wrap64 (minute * 2)) NewCache)
      [zero_metric\<lparr>m_EPC := 0x80\<rparr>] = ({0x80}, {}, [0x80], [])"
    by (simp add: collect_epcs_def collect_step_def ShouldSkipPoll_def NewCache_def Let_def zero_metric_def)
  from scrape_effect [OF r NewCache_ok c] refusing_empty [of "dv_IP sample_device" "(1, 0x30, 1)" 0]
  show ?thesis by (metis list.distinct(1))
qed

end
