(* ===== verification/Loader.thy ===== *)
theory Loader
  imports SpecTables GoTime Encoder
begin

text \<open>
  \<open>internal/specs/loader.go\<close>: from the decoded YAML of a device class to its specification. The
  YAML decoder and the reading of the directory are parameters; \<open>log10f\<close> and \<open>oor\<close> are those of
  the encoder. The lemmas show what every specification that loads satisfies, and that its
  enumerations can be sent to a device and read back.
\<close>

section \<open>The decoded YAML\<close>

record lightYAML =
  ly_BrightnessEPC :: int
  ly_ColorSettingEPC :: int
  ly_ColorSettings :: "(string, int) gomap"
  ly_SceneEPC :: int
  ly_MaxScenes :: int

record climateYAML =
  cy_ModeEPC :: int
  cy_TemperatureEPC :: int
  cy_CurrentTemperatureEPC :: int
  cy_FanModeEPC :: int
  cy_MinTemp :: float64
  cy_MaxTemp :: float64
  cy_TempStep :: float64
  cy_Modes :: "(string, int option) gomap"
  cy_FanModes :: "string list"

record preSetYAML =
  py_EPC :: int
  py_Value :: int

record metricYAML =
  y_EPC :: int
  y_Name :: string
  y_Help :: string
  y_Size :: int
  y_Offset :: int
  y_Scale :: float64
  y_Signed :: bool
  y_Invalid :: "int option"
  y_Type :: string
  y_Enum :: "(int, string) gomap"
  y_ScrapeInterval :: string
  y_HADeviceClass :: string
  y_HAStateClass :: string
  y_HAUnit :: string
  y_NumberMin :: "float64 option"
  y_NumberMax :: "float64 option"
  y_PreSet :: "preSetYAML option"
  y_ExcludeSet :: bool
  y_MultiplierEPC :: int
  y_MultiplierMap :: "(int, float64) gomap"
  y_SetMode :: string

record deviceYAML =
  dy_EOJ :: "int list"
  dy_Description :: string
  dy_DefaultScrapeInterval :: string
  dy_Metrics :: "metricYAML list"
  dy_Climate :: "climateYAML option"
  dy_Light :: "lightYAML option"

text \<open>The errors, one constructor per check; each names the metric, field or index at fault.\<close>

datatype spec_error =
    BadYAML string
  | ReadDirError string
  | ReadFileError string
  | EOJLength nat
  | EOJRange nat int
  | BadInterval string
  | IntervalNotPositive string
  | BadSize string
  | BadType string
  | BadCode string int
  | BadOffset string int
  | NoMultiplierMap string
  | BadNumberRange string
  | BadSetMode string
  | EnumScale string
  | EmptyLabel string int
  | EnumMisfit string int
  | BadScale string
  | BadTempRange
  | BadTempStep
  | NoModes
  | NoBrightness
  | NoColorSettings
  | BadMaxScenes

definition code_ok :: "int \<Rightarrow> bool" where
  "code_ok v \<longleftrightarrow> \<not> (v < 0 \<or> v > 0xFF)"

definition enumValueFits :: "int \<Rightarrow> int \<Rightarrow> bool \<Rightarrow> bool" where
  "enumValueFits v sz sgnd \<longleftrightarrow>
     (let bits = nat (sz * 8)
      in if sgnd then - (2 ^ (bits - 1)) \<le> v \<and> v \<le> 2 ^ (bits - 1) - 1
         else 0 \<le> v \<and> v \<le> 2 ^ bits - 1)"

section \<open>Home Assistant metadata\<close>

abbreviation degree_celsius :: string where
  "degree_celsius \<equiv> [char_of (0xC2 :: nat), char_of (0xB0 :: nat), CHR ''C'']"

abbreviation cubic_metre :: string where
  "cubic_metre \<equiv> [CHR ''m'', char_of (0xC2 :: nat), char_of (0xB3 :: nat)]"

definition inferHAMetadata :: "string \<Rightarrow> string \<Rightarrow> bool \<Rightarrow> string \<times> string \<times> string" where
  "inferHAMetadata name metricType hasEnum =
     (if hasEnum then (''enum'', [], [])
      else if has_suffix name ''_power_w'' \<or> has_suffix name ''_watts'' then (''power'', ''measurement'', ''W'')
      else if has_suffix name ''_kwh'' then
        (if metricType = ''counter'' then (''energy'', ''total_increasing'', ''kWh'') else (''energy'', ''measurement'', ''kWh''))
      else if has_suffix name ''_wh'' then
        (if metricType = ''counter'' then (''energy'', ''total_increasing'', ''Wh'') else (''energy'', ''measurement'', ''Wh''))
      else if has_suffix name ''_celsius'' then (''temperature'', ''measurement'', degree_celsius)
      else if has_suffix name ''_percent'' then ([], ''measurement'', ''%'')
      else if has_suffix name ''_m3'' then
        (if metricType = ''counter'' then (''volume'', ''total_increasing'', cubic_metre) else (''volume'', ''measurement'', cubic_metre))
      else if metricType = ''gauge'' then ([], ''measurement'', [])
      else if metricType = ''counter'' then ([], ''total_increasing'', [])
      else ([], [], []))"

definition ha_metadata :: "string \<Rightarrow> string \<Rightarrow> string \<Rightarrow> string \<Rightarrow> string \<Rightarrow> bool \<Rightarrow> string \<times> string \<times> string" where
  "ha_metadata dev state unit name metricType hasEnum =
     (if dev = [] then inferHAMetadata name metricType hasEnum else (dev, state, unit))"

section \<open>Metrics\<close>

text \<open>The checks of a metric before its scale, in order.\<close>

definition check_metric :: "metricYAML \<Rightarrow> spec_error option" where
  "check_metric m =
     (if y_Size m \<noteq> 0 \<and> y_Size m \<noteq> 1 \<and> y_Size m \<noteq> 2 \<and> y_Size m \<noteq> 4 then Some (BadSize (y_Name m))
      else if y_Type m \<noteq> ''gauge'' \<and> y_Type m \<noteq> ''counter'' then Some (BadType (y_Name m))
      else if \<not> code_ok (y_EPC m) then Some (BadCode (y_Name m) (y_EPC m))
      else if y_Offset m < 0 then Some (BadOffset (y_Name m) (y_Offset m))
      else if \<not> code_ok (y_MultiplierEPC m) then Some (BadCode (y_Name m) (y_MultiplierEPC m))
      else if y_MultiplierEPC m \<noteq> 0 \<and> y_MultiplierMap m = [] then Some (NoMultiplierMap (y_Name m))
      else if (case (y_NumberMin m, y_NumberMax m) of (Some lo, Some hi) \<Rightarrow> f_le hi lo | _ \<Rightarrow> False)
        then Some (BadNumberRange (y_Name m))
      else if y_SetMode m \<noteq> [] \<and> y_SetMode m \<noteq> ''setc'' \<and> y_SetMode m \<noteq> ''seti'' then Some (BadSetMode (y_Name m))
      else case y_PreSet m of
        Some p \<Rightarrow> if \<not> code_ok (py_EPC p) then Some (BadCode (y_Name m) (py_EPC p)) else None
      | None \<Rightarrow> None)"

fun check_enum :: "metricYAML \<Rightarrow> (int, string) gomap \<Rightarrow> spec_error option" where
  "check_enum m [] = None"
| "check_enum m ((rawValue, label) # rest) =
     (if label = [] then Some (EmptyLabel (y_Name m) rawValue)
      else if y_Size m \<noteq> 0 \<and> \<not> enumValueFits rawValue (y_Size m) (y_Signed m) then Some (EnumMisfit (y_Name m) rawValue)
      else check_enum m rest)"

text \<open>A scale below one has to be a negative power of ten; \<open>1e-12\<close> is the constant as a float.\<close>

abbreviation scale_tolerance :: float64 where "scale_tolerance \<equiv> round64 (1 / 10 ^ 12)"

definition power_of_ten_scale :: "(float64 \<Rightarrow> int) \<Rightarrow> (float64 \<Rightarrow> float64) \<Rightarrow> float64 \<Rightarrow> bool" where
  "power_of_ten_scale oor log10f scale \<longleftrightarrow>
     (let digits = f_to_int64 oor (f_ceil (f_neg (log10f scale)))
      in \<not> f_less scale_tolerance (f_abs (f_sub (pow10 (- digits)) scale)))"

definition check_scale :: "(float64 \<Rightarrow> int) \<Rightarrow> (float64 \<Rightarrow> float64) \<Rightarrow> metricYAML \<Rightarrow> float64 \<Rightarrow> spec_error option" where
  "check_scale oor log10f m scale =
     (if y_Enum m \<noteq> [] \<and> \<not> f_eq scale (Fin 1) then Some (EnumScale (y_Name m))
      else case (if y_Enum m \<noteq> [] then check_enum m (y_Enum m) else None) of
        Some e \<Rightarrow> Some e
      | None \<Rightarrow>
          if f_less (Zero False) scale \<and> f_less scale (Fin 1) \<and> \<not> power_of_ten_scale oor log10f scale
          then Some (BadScale (y_Name m)) else None)"

definition metric_scale :: "metricYAML \<Rightarrow> float64" where
  "metric_scale m = (if f_eq (y_Scale m) (Zero False) then Fin 1 else y_Scale m)"

definition metric_interval_yaml :: "metricYAML \<Rightarrow> duration \<Rightarrow> spec_error + duration" where
  "metric_interval_yaml m devInterval =
     (if y_ScrapeInterval m \<noteq> [] then
        (case parse_duration (y_ScrapeInterval m) of
           None \<Rightarrow> Inl (BadInterval (y_ScrapeInterval m))
         | Some d \<Rightarrow> if d \<le> 0 then Inl (IntervalNotPositive (y_ScrapeInterval m)) else Inr d)
      else Inr devInterval)"

text \<open>\<open>reverseEnum[label] = raw\<close> in the order of the iteration.\<close>

definition reverse_enum :: "(int, string) gomap \<Rightarrow> (string, int) gomap" where
  "reverse_enum enum = fold (\<lambda>(raw, label). AList.update label raw) enum []"

definition parseMetricSpec ::
  "(float64 \<Rightarrow> int) \<Rightarrow> (float64 \<Rightarrow> float64) \<Rightarrow> metricYAML \<Rightarrow> duration \<Rightarrow> eoj \<Rightarrow> spec_error + MetricSpec" where
  "parseMetricSpec oor log10f m devInterval eoj =
     (case check_metric m of
        Some e \<Rightarrow> Inl e
      | None \<Rightarrow>
          let scale = metric_scale m
          in case check_scale oor log10f m scale of
               Some e \<Rightarrow> Inl e
             | None \<Rightarrow>
                 (case metric_interval_yaml m devInterval of
                    Inl e \<Rightarrow> Inl e
                  | Inr interval \<Rightarrow>
                      (case ha_metadata (y_HADeviceClass m) (y_HAStateClass m) (y_HAUnit m) (y_Name m) (y_Type m) (y_Enum m \<noteq> []) of
                         (haDevice, haState, haUnit) \<Rightarrow>
                           Inr \<lparr>m_EPC = word_of_int (y_EPC m), m_Name = y_Name m,
                             m_Help = (if y_Help m = [] then LookupEPCName eoj (word_of_int (y_EPC m)) else y_Help m),
                             m_Size = y_Size m, m_Offset = y_Offset m, m_Scale = scale, m_Signed = y_Signed m,
                             m_Invalid = y_Invalid m, m_Type = y_Type m, m_Enum = y_Enum m,
                             m_ReverseEnum = reverse_enum (y_Enum m), m_ScrapeInterval = interval,
                             m_MultiplierEPC = word_of_int (y_MultiplierEPC m), m_MultiplierMap = y_MultiplierMap m,
                             m_HADeviceClass = haDevice, m_HAStateClass = haState, m_HAUnit = haUnit,
                             m_NumberMin = y_NumberMin m, m_NumberMax = y_NumberMax m,
                             m_PreSetEPC = (case y_PreSet m of Some p \<Rightarrow> word_of_int (py_EPC p) | None \<Rightarrow> 0),
                             m_PreSetValue = (case y_PreSet m of Some p \<Rightarrow> py_Value p | None \<Rightarrow> 0),
                             m_ExcludeSet = y_ExcludeSet m, m_SetMode = y_SetMode m\<rparr>)))"

section \<open>Climate and light\<close>

definition parseClimateYAML :: "climateYAML \<Rightarrow> spec_error + ClimateSpec" where
  "parseClimateYAML raw =
     (if \<not> code_ok (cy_ModeEPC raw) then Inl (BadCode ''climate.mode_epc'' (cy_ModeEPC raw))
      else if \<not> code_ok (cy_TemperatureEPC raw) then Inl (BadCode ''climate.temperature_epc'' (cy_TemperatureEPC raw))
      else if \<not> code_ok (cy_CurrentTemperatureEPC raw)
        then Inl (BadCode ''climate.current_temperature_epc'' (cy_CurrentTemperatureEPC raw))
      else if \<not> code_ok (cy_FanModeEPC raw) then Inl (BadCode ''climate.fan_mode_epc'' (cy_FanModeEPC raw))
      else if f_le (cy_MaxTemp raw) (cy_MinTemp raw) then Inl BadTempRange
      else if f_le (cy_TempStep raw) (Zero False) then Inl BadTempStep
      else if cy_Modes raw = [] then Inl NoModes
      else Inr \<lparr>c_ModeEPC = word_of_int (cy_ModeEPC raw), c_TemperatureEPC = word_of_int (cy_TemperatureEPC raw),
             c_CurrentTemperatureEPC = word_of_int (cy_CurrentTemperatureEPC raw),
             c_FanModeEPC = word_of_int (cy_FanModeEPC raw), c_MinTemp = cy_MinTemp raw, c_MaxTemp = cy_MaxTemp raw,
             c_TempStep = cy_TempStep raw, c_Modes = cy_Modes raw, c_FanModes = cy_FanModes raw\<rparr>)"

definition parseLightYAML :: "lightYAML \<Rightarrow> spec_error + LightSpec" where
  "parseLightYAML raw =
     (if \<not> code_ok (ly_BrightnessEPC raw) then Inl (BadCode ''light.brightness_epc'' (ly_BrightnessEPC raw))
      else if ly_BrightnessEPC raw = 0 then Inl NoBrightness
      else if \<not> code_ok (ly_ColorSettingEPC raw) then Inl (BadCode ''light.color_setting_epc'' (ly_ColorSettingEPC raw))
      else if ly_ColorSettingEPC raw \<noteq> 0 \<and> ly_ColorSettings raw = [] then Inl NoColorSettings
      else if \<not> code_ok (ly_SceneEPC raw) then Inl (BadCode ''light.scene_epc'' (ly_SceneEPC raw))
      else if ly_SceneEPC raw \<noteq> 0 \<and> ly_MaxScenes raw \<le> 0 then Inl BadMaxScenes
      else Inr \<lparr>l_BrightnessEPC = word_of_int (ly_BrightnessEPC raw),
             l_ColorSettingEPC = word_of_int (ly_ColorSettingEPC raw), l_ColorSettings = ly_ColorSettings raw,
             l_SceneEPC = word_of_int (ly_SceneEPC raw), l_MaxScenes = ly_MaxScenes raw\<rparr>)"

section \<open>A device class\<close>

abbreviation defaultScrapeInterval :: duration where "defaultScrapeInterval \<equiv> minute"

definition device_default_interval :: "deviceYAML \<Rightarrow> spec_error + duration" where
  "device_default_interval raw =
     (if dy_DefaultScrapeInterval raw \<noteq> [] then
        (case parse_duration (dy_DefaultScrapeInterval raw) of
           None \<Rightarrow> Inl (BadInterval (dy_DefaultScrapeInterval raw))
         | Some d \<Rightarrow> if d \<le> 0 then Inl (IntervalNotPositive (dy_DefaultScrapeInterval raw)) else Inr d)
      else Inr defaultScrapeInterval)"

fun check_eoj :: "nat \<Rightarrow> int list \<Rightarrow> spec_error option" where
  "check_eoj i [] = None"
| "check_eoj i (v # vs) = (if \<not> code_ok v then Some (EOJRange i v) else check_eoj (Suc i) vs)"

fun parse_metrics ::
  "(float64 \<Rightarrow> int) \<Rightarrow> (float64 \<Rightarrow> float64) \<Rightarrow> duration \<Rightarrow> eoj \<Rightarrow> metricYAML list \<Rightarrow> spec_error + MetricSpec list" where
  "parse_metrics oor log10f devInterval eoj [] = Inr []"
| "parse_metrics oor log10f devInterval eoj (m # ms) =
     (case parseMetricSpec oor log10f m devInterval eoj of
        Inl e \<Rightarrow> Inl e
      | Inr s \<Rightarrow> (case parse_metrics oor log10f devInterval eoj ms of Inl e \<Rightarrow> Inl e | Inr ss \<Rightarrow> Inr (s # ss)))"

definition parse_part :: "('a \<Rightarrow> spec_error + 'b) \<Rightarrow> 'a option \<Rightarrow> spec_error + 'b option" where
  "parse_part f part =
     (case part of None \<Rightarrow> Inr None | Some x \<Rightarrow> (case f x of Inl e \<Rightarrow> Inl e | Inr y \<Rightarrow> Inr (Some y)))"

definition parseDeviceYAML ::
  "(float64 \<Rightarrow> int) \<Rightarrow> (float64 \<Rightarrow> float64) \<Rightarrow> (string \<Rightarrow> string + deviceYAML) \<Rightarrow> string \<Rightarrow> spec_error + DeviceSpec" where
  "parseDeviceYAML oor log10f unmarshal data =
     (case unmarshal data of
        Inl e \<Rightarrow> Inl (BadYAML e)
      | Inr raw \<Rightarrow>
          if length (dy_EOJ raw) \<noteq> 3 then Inl (EOJLength (length (dy_EOJ raw)))
          else (case device_default_interval raw of
                  Inl e \<Rightarrow> Inl e
                | Inr devInterval \<Rightarrow>
                    (case check_eoj 0 (dy_EOJ raw) of
                       Some e \<Rightarrow> Inl e
                     | None \<Rightarrow>
                         let eoj = (word_of_int (dy_EOJ raw ! 0), word_of_int (dy_EOJ raw ! 1), word_of_int (dy_EOJ raw ! 2))
                         in (case parse_metrics oor log10f devInterval eoj (dy_Metrics raw) of
                               Inl e \<Rightarrow> Inl e
                             | Inr metrics \<Rightarrow>
                                 (case parse_part parseClimateYAML (dy_Climate raw) of
                                    Inl e \<Rightarrow> Inl e
                                  | Inr climate \<Rightarrow>
                                      (case parse_part parseLightYAML (dy_Light raw) of
                                         Inl e \<Rightarrow> Inl e
                                       | Inr light \<Rightarrow>
                                           Inr \<lparr>d_EOJ = eoj, d_Description = dy_Description raw,
                                             d_DefaultScrapeInterval = devInterval, d_Metrics = metrics,
                                             d_Climate = climate, d_Light = light\<rparr>))))))"

text \<open>The loop of \<open>mergeSuperClass\<close>: \<open>(have, metrics)\<close>.\<close>

definition merge_step :: "duration \<Rightarrow> MetricSpec \<Rightarrow> byte set \<times> MetricSpec list \<Rightarrow> byte set \<times> MetricSpec list" where
  "merge_step devInterval m = (\<lambda>(have, metrics).
     (if m_EPC m \<in> have then (have, metrics)
      else
        (case ha_metadata (m_HADeviceClass m) (m_HAStateClass m) (m_HAUnit m) (m_Name m) (m_Type m) (m_Enum m \<noteq> []) of
           (haDevice, haState, haUnit) \<Rightarrow>
             (insert (m_EPC m) have,
              metrics @ [m\<lparr>m_ScrapeInterval := (if m_ScrapeInterval m \<le> 0 then devInterval else m_ScrapeInterval m),
                           m_HADeviceClass := haDevice, m_HAStateClass := haState, m_HAUnit := haUnit\<rparr>]))))"

definition mergeSuperClass :: "DeviceSpec \<Rightarrow> DeviceSpec" where
  "mergeSuperClass spec =
     (let devInterval = (if d_DefaultScrapeInterval spec \<le> 0 then defaultScrapeInterval else d_DefaultScrapeInterval spec)
      in spec\<lparr>d_Metrics := snd (fold (merge_step devInterval) SuperClassMetrics
             (m_EPC ` set (d_Metrics spec), d_Metrics spec))\<rparr>)"

text \<open>A directory entry: its name, whether it is a directory, and its contents or the error of reading
  it.\<close>

type_synonym dir_entry = "string \<times> bool \<times> (string + string)"

fun load_entries ::
  "(string \<Rightarrow> spec_error + DeviceSpec) \<Rightarrow> dir_entry list \<Rightarrow> (string, DeviceSpec) gomap \<Rightarrow> spec_error + (string, DeviceSpec) gomap" where
  "load_entries parse [] out = Inr out"
| "load_entries parse ((name, isDir, contents) # es) out =
     (if isDir \<or> \<not> has_suffix name ''.yaml'' then load_entries parse es out
      else case contents of
        Inl e \<Rightarrow> Inl (ReadFileError e)
      | Inr data \<Rightarrow>
          (case parse data of
             Inl e \<Rightarrow> Inl e
           | Inr spec \<Rightarrow>
               load_entries parse es
                 (AList.update (take (length name - length ''.yaml'') name) (mergeSuperClass spec) out)))"

definition Load_specs ::
  "(float64 \<Rightarrow> int) \<Rightarrow> (float64 \<Rightarrow> float64) \<Rightarrow> (string \<Rightarrow> string + deviceYAML) \<Rightarrow> (string \<Rightarrow> string + dir_entry list) \<Rightarrow>
     string \<Rightarrow> spec_error + (string, DeviceSpec) gomap" where
  "Load_specs oor log10f unmarshal readDir specsDir =
     (case readDir (if specsDir = [] then ''etc/specs'' else specsDir) of
        Inl e \<Rightarrow> Inl (ReadDirError e)
      | Inr entries \<Rightarrow> load_entries (parseDeviceYAML oor log10f unmarshal) entries [])"

section \<open>Lemmas\<close>

text \<open>What the loader guarantees of a metric.\<close>

definition enum_entry_ok :: "MetricSpec \<Rightarrow> int \<times> string \<Rightarrow> bool" where
  "enum_entry_ok m e \<longleftrightarrow> snd e \<noteq> [] \<and> (m_Size m \<noteq> 0 \<longrightarrow> enumValueFits (fst e) (m_Size m) (m_Signed m))"

definition metric_ok :: "MetricSpec \<Rightarrow> bool" where
  "metric_ok m \<longleftrightarrow>
     m_Size m \<in> {0, 1, 2, 4} \<and> m_Type m \<in> {''gauge'', ''counter''} \<and> 0 \<le> m_Offset m \<and> 0 < m_ScrapeInterval m
     \<and> (m_MultiplierEPC m \<noteq> 0 \<longrightarrow> m_MultiplierMap m \<noteq> [])
     \<and> \<not> f_eq (m_Scale m) (Zero False)
     \<and> (m_Enum m \<noteq> [] \<longrightarrow> f_eq (m_Scale m) (Fin 1) \<and> (\<forall>e \<in> set (m_Enum m). enum_entry_ok m e))
     \<and> m_SetMode m \<in> {[], ''setc'', ''seti''}"

lemma check_enum_None:
  "check_enum m es = None \<longleftrightarrow>
     (\<forall>e \<in> set es. snd e \<noteq> [] \<and> (y_Size m \<noteq> 0 \<longrightarrow> enumValueFits (fst e) (y_Size m) (y_Signed m)))"
  by (induction m es rule: check_enum.induct) auto

lemma check_metric_None:
  assumes "check_metric m = None"
  shows "y_Size m \<in> {0, 1, 2, 4}" "y_Type m \<in> {''gauge'', ''counter''}" "code_ok (y_EPC m)" "0 \<le> y_Offset m"
    "y_MultiplierEPC m \<noteq> 0 \<longrightarrow> y_MultiplierMap m \<noteq> []" "y_SetMode m \<in> {[], ''setc'', ''seti''}"
  using assms unfolding check_metric_def by (auto split: if_splits)

lemma metric_scale_nonzero: "\<not> f_eq (metric_scale m) (Zero False)"
  by (simp add: metric_scale_def f_eq_def fval_def is_inf_def)

lemma parseMetricSpec_Inr:
  assumes "parseMetricSpec oor log10f y devInterval eoj = Inr m"
  shows "check_metric y = None" "check_scale oor log10f y (metric_scale y) = None"
    "metric_interval_yaml y devInterval = Inr (m_ScrapeInterval m)"
    "m_EPC m = word_of_int (y_EPC y)" "m_Size m = y_Size y" "m_Type m = y_Type y" "m_Offset m = y_Offset y"
    "m_MultiplierEPC m = word_of_int (y_MultiplierEPC y)" "m_MultiplierMap m = y_MultiplierMap y"
    "m_Scale m = metric_scale y" "m_Enum m = y_Enum y" "m_ReverseEnum m = reverse_enum (y_Enum y)"
    "m_Signed m = y_Signed y" "m_SetMode m = y_SetMode y"
  using assms unfolding parseMetricSpec_def
  by (auto simp: Let_def split: option.splits sum.splits prod.splits)

lemma parseMetricSpec_ok:
  assumes "parseMetricSpec oor log10f y devInterval eoj = Inr m" "0 < devInterval"
  shows "metric_ok m"
proof -
  note p = parseMetricSpec_Inr [OF assms(1)]
  note c = check_metric_None [OF p(1)]
  have "0 < m_ScrapeInterval m"
    using p(3) assms(2) by (auto simp: metric_interval_yaml_def split: if_splits option.splits)
  moreover have "f_eq (m_Scale m) (Fin 1) \<and> (\<forall>e \<in> set (m_Enum m). enum_entry_ok m e)" if "m_Enum m \<noteq> []"
    using p(2) that by (auto simp: check_scale_def p check_enum_None enum_entry_ok_def split: if_splits option.splits)
  moreover have "m_MultiplierEPC m \<noteq> 0 \<longrightarrow> m_MultiplierMap m \<noteq> []" using c(5) by (auto simp: p(8,9))
  ultimately show ?thesis using c metric_scale_nonzero [of y] by (simp add: metric_ok_def p(5-7,10,14))
qed

lemma parse_metrics_ok:
  "parse_metrics oor log10f iv eoj ys = Inr ms \<Longrightarrow> 0 < iv \<Longrightarrow> \<forall>m \<in> set ms. metric_ok m"
  by (induction oor log10f iv eoj ys arbitrary: ms rule: parse_metrics.induct)
    (auto split: sum.splits intro: parseMetricSpec_ok)

lemma default_interval_pos: "device_default_interval raw = Inr d \<Longrightarrow> 0 < d"
  by (auto simp: device_default_interval_def split: if_splits option.splits)

text \<open>What the loader guarantees of a specification.\<close>

definition spec_ok :: "DeviceSpec \<Rightarrow> bool" where
  "spec_ok spec \<longleftrightarrow> 0 < d_DefaultScrapeInterval spec \<and> (\<forall>m \<in> set (d_Metrics spec). metric_ok m)
     \<and> (\<forall>cl. d_Climate spec = Some cl \<longrightarrow> \<not> f_le (c_MaxTemp cl) (c_MinTemp cl) \<and> c_Modes cl \<noteq> [])
     \<and> (\<forall>l. d_Light spec = Some l \<longrightarrow> l_BrightnessEPC l \<noteq> 0)"

lemma climate_ok: "parseClimateYAML raw = Inr cl \<Longrightarrow> \<not> f_le (c_MaxTemp cl) (c_MinTemp cl) \<and> c_Modes cl \<noteq> []"
  by (auto simp: parseClimateYAML_def split: if_splits)

lemma byte_code_nonzero: "code_ok v \<Longrightarrow> v \<noteq> 0 \<Longrightarrow> (word_of_int v :: byte) \<noteq> 0"
  by (auto simp: code_ok_def word_of_int_eq_0_iff zdvd_not_zless)

lemma light_ok: "parseLightYAML raw = Inr l \<Longrightarrow> l_BrightnessEPC l \<noteq> 0"
  by (auto simp: parseLightYAML_def byte_code_nonzero split: if_splits)

lemma parseDeviceYAML_ok:
  assumes "parseDeviceYAML oor log10f unmarshal data = Inr spec"
  shows "spec_ok spec"
proof -
  obtain raw d where raw: "unmarshal data = Inr raw" and d: "device_default_interval raw = Inr d"
    using assms unfolding parseDeviceYAML_def by (auto split: sum.splits if_splits)
  then obtain eoj ms cl l where m: "parse_metrics oor log10f d eoj (dy_Metrics raw) = Inr ms"
    and cl: "parse_part parseClimateYAML (dy_Climate raw) = Inr cl"
    and l: "parse_part parseLightYAML (dy_Light raw) = Inr l"
    and spec: "spec = \<lparr>d_EOJ = eoj, d_Description = dy_Description raw, d_DefaultScrapeInterval = d, d_Metrics = ms,
        d_Climate = cl, d_Light = l\<rparr>"
    using assms unfolding parseDeviceYAML_def by (auto simp: Let_def split: sum.splits if_splits option.splits)
  have pos: "0 < d" using default_interval_pos [OF d] .
  have "\<not> f_le (c_MaxTemp c) (c_MinTemp c) \<and> c_Modes c \<noteq> []" if "cl = Some c" for c
    using cl that by (auto simp: parse_part_def split: option.splits sum.splits dest!: climate_ok)
  moreover have "l_BrightnessEPC x \<noteq> 0" if "l = Some x" for x
    using l that by (auto simp: parse_part_def split: option.splits sum.splits dest!: light_ok)
  ultimately show ?thesis using pos parse_metrics_ok [OF m pos] by (simp add: spec_ok_def spec)
qed

lemma superclass_ok: "m \<in> set SuperClassMetrics \<Longrightarrow> 0 < iv \<Longrightarrow>
    metric_ok (m\<lparr>m_ScrapeInterval := iv, m_HADeviceClass := a, m_HAStateClass := b, m_HAUnit := c\<rparr>)"
  by (auto simp: SuperClassMetrics_def metric_ok_def enum_entry_ok_def enumValueFits_def opEnum_def locationEnum_def
      faultEnum_def f_eq_def fval_def is_inf_def)

text \<open>The metrics that are added: those of the super class whose codes are new.\<close>

definition merged_from :: "duration \<Rightarrow> MetricSpec \<Rightarrow> MetricSpec \<Rightarrow> bool" where
  "merged_from iv m0 m \<longleftrightarrow> (\<exists>a b c. m = m0\<lparr>m_ScrapeInterval := (if m_ScrapeInterval m0 \<le> 0 then iv else m_ScrapeInterval m0),
     m_HADeviceClass := a, m_HAStateClass := b, m_HAUnit := c\<rparr>)"

lemma merge_step_new:
  "m_EPC m \<notin> have \<Longrightarrow> \<exists>m'. merge_step iv m (have, ms) = (insert (m_EPC m) have, ms @ [m']) \<and> merged_from iv m m' \<and> m_EPC m' = m_EPC m"
  by (auto simp: merge_step_def merged_from_def split: prod.splits)

lemma merge_fold:
  assumes "distinct (map m_EPC sps)"
  shows "\<exists>added. fold (merge_step iv) sps (have, ms) = (have \<union> m_EPC ` set sps, ms @ added)
    \<and> map m_EPC added = filter (\<lambda>e. e \<notin> have) (map m_EPC sps)
    \<and> (\<forall>m \<in> set added. \<exists>m0 \<in> set sps. merged_from iv m0 m)"
  using assms
proof (induction sps arbitrary: "have" ms)
  case (Cons m sps)
  show ?case
  proof (cases "m_EPC m \<in> have")
    case True
    then have step: "merge_step iv m (have, ms) = (have, ms)" by (simp add: merge_step_def)
    from Cons.prems Cons.IH [of "have" ms] obtain added where
      "fold (merge_step iv) sps (have, ms) = (have \<union> m_EPC ` set sps, ms @ added)"
      "map m_EPC added = filter (\<lambda>e. e \<notin> have) (map m_EPC sps)" "\<forall>m \<in> set added. \<exists>m0 \<in> set sps. merged_from iv m0 m" by auto
    with True step show ?thesis by (intro exI [of _ added]) (simp add: insert_absorb)
  next
    case False
    from merge_step_new [OF this, of iv ms] obtain m' where
      step: "merge_step iv m (have, ms) = (insert (m_EPC m) have, ms @ [m'])" "merged_from iv m m'" "m_EPC m' = m_EPC m" by blast
    from Cons.prems Cons.IH [of "insert (m_EPC m) have" "ms @ [m']"] obtain added where
      a: "fold (merge_step iv) sps (insert (m_EPC m) have, ms @ [m']) = (insert (m_EPC m) have \<union> m_EPC ` set sps, (ms @ [m']) @ added)"
        "map m_EPC added = filter (\<lambda>e. e \<notin> insert (m_EPC m) have) (map m_EPC sps)"
        "\<forall>m \<in> set added. \<exists>m0 \<in> set sps. merged_from iv m0 m" by auto
    have "filter (\<lambda>e. e \<notin> insert (m_EPC m) have) (map m_EPC sps) = filter (\<lambda>e. e \<notin> have) (map m_EPC sps)"
    proof (intro filter_cong refl)
      fix x
      assume "x \<in> set (map m_EPC sps)"
      moreover have "m_EPC m \<notin> set (map m_EPC sps)" using Cons.prems by simp
      ultimately show "(x \<notin> insert (m_EPC m) have) = (x \<notin> have)" by blast
    qed
    with a False step show ?thesis by (intro exI [of _ "m' # added"]) auto
  qed
qed simp

lemma superclass_codes: "map m_EPC SuperClassMetrics = [0x80, 0x81, 0x88]"
  by (simp add: SuperClassMetrics_def)

lemma merge_metrics:
  "\<exists>added. d_Metrics (mergeSuperClass spec) = d_Metrics spec @ added
    \<and> map m_EPC added = filter (\<lambda>e. e \<notin> m_EPC ` set (d_Metrics spec)) [0x80, 0x81, 0x88]
    \<and> (\<forall>m \<in> set added. metric_ok m)"
proof -
  define iv where "iv = (if d_DefaultScrapeInterval spec \<le> 0 then defaultScrapeInterval else d_DefaultScrapeInterval spec)"
  have "distinct (map m_EPC SuperClassMetrics)" by (simp add: superclass_codes)
  from merge_fold [OF this, of iv "m_EPC ` set (d_Metrics spec)" "d_Metrics spec"] obtain added where
    f: "fold (merge_step iv) SuperClassMetrics (m_EPC ` set (d_Metrics spec), d_Metrics spec)
      = (m_EPC ` set (d_Metrics spec) \<union> m_EPC ` set SuperClassMetrics, d_Metrics spec @ added)"
    and codes: "map m_EPC added = filter (\<lambda>e. e \<notin> m_EPC ` set (d_Metrics spec)) [0x80, 0x81, 0x88]"
    and from_sup: "\<forall>m \<in> set added. \<exists>m0 \<in> set SuperClassMetrics. merged_from iv m0 m"
    unfolding superclass_codes by blast
  have "metric_ok m" if mem: "m \<in> set added" for m
  proof -
    obtain m0 where m0: "m0 \<in> set SuperClassMetrics" "merged_from iv m0 m"
      by (rule bexE [OF bspec [OF from_sup mem]])
    from m0(2) obtain x y z where m: "m = m0\<lparr>m_ScrapeInterval := (if m_ScrapeInterval m0 \<le> 0 then iv else m_ScrapeInterval m0),
        m_HADeviceClass := x, m_HAStateClass := y, m_HAUnit := z\<rparr>" unfolding merged_from_def by (elim exE)
    show ?thesis unfolding m by (rule superclass_ok [OF m0(1)]) (simp add: iv_def)
  qed
  moreover have "d_Metrics (mergeSuperClass spec) = d_Metrics spec @ added"
    by (simp add: mergeSuperClass_def Let_def f flip: iv_def)
  ultimately show ?thesis using codes by blast
qed

lemma merge_ok: "spec_ok spec \<Longrightarrow> spec_ok (mergeSuperClass spec)"
  using merge_metrics [of spec] by (auto simp: spec_ok_def mergeSuperClass_def Let_def)

lemma load_entries_all:
  assumes parse: "\<And>data spec. parse data = Inr spec \<Longrightarrow> P (mergeSuperClass spec)"
  shows "load_entries parse es out = Inr m \<Longrightarrow> (\<And>c spec. map_of out c = Some spec \<Longrightarrow> P spec) \<Longrightarrow>
    map_of m c = Some spec \<Longrightarrow> P spec"
proof (induction es arbitrary: out)
  case (Cons e es)
  obtain name isDir contents where e: "e = (name, isDir, contents)" using prod_cases3 by blast
  show ?case
  proof (cases "isDir \<or> \<not> has_suffix name ''.yaml''")
    case True
    then have "load_entries parse es out = Inr m" using Cons.prems(1) unfolding e load_entries.simps if_P [OF True] by simp
    with Cons show ?thesis by blast
  next
    case False
    then obtain data s where d: "contents = Inr data" "parse data = Inr s"
      and m: "load_entries parse es (AList.update (take (length name - length ''.yaml'') name) (mergeSuperClass s) out) = Inr m"
      using Cons.prems(1) unfolding e load_entries.simps if_not_P [OF False] by (auto split: sum.splits)
    show ?thesis
    proof (rule Cons.IH [OF m _ Cons.prems(3)])
      fix c' sp
      assume "map_of (AList.update (take (length name - length ''.yaml'') name) (mergeSuperClass s) out) c' = Some sp"
      then have "sp = mergeSuperClass s \<or> map_of out c' = Some sp" by (simp split: if_splits)
      then show "P sp" using parse [OF d(2)] Cons.prems(2) by blast
    qed
  qed
qed simp

text \<open>The reverse of an enumeration.\<close>

lemma reverse_enum_fold:
  "l \<in> snd ` set e \<or> l \<in> dom (map_of r) \<Longrightarrow> \<exists>v. map_of (fold (\<lambda>(raw, label). AList.update label raw) e r) l = Some v
    \<and> ((v, l) \<in> set e \<or> map_of r l = Some v)"
proof (induction e arbitrary: r)
  case (Cons p e)
  obtain a b where p: "p = (a, b)" by force
  have "l \<in> snd ` set e \<or> l \<in> dom (map_of (AList.update b a r))" using Cons.prems by (auto simp: p)
  from Cons.IH [OF this] show ?case by (auto simp: p split: if_splits)
qed auto

lemma reverse_enum_label: "l \<in> snd ` set e \<Longrightarrow> \<exists>v. map_of (reverse_enum e) l = Some v \<and> (v, l) \<in> set e"
  using reverse_enum_fold [of l e "[]"] by (simp add: reverse_enum_def)

lemma f_eq_one: "f_eq a (Fin 1) \<Longrightarrow> a = Fin 1"
  by (cases a) (auto simp: f_eq_def fval_def is_inf_def split: if_splits)

lemma loaded_spec_ok:
  assumes "Load_specs oor log10f unmarshal readDir specsDir = Inr specs" "map_of specs cls = Some spec"
  shows "spec_ok spec"
proof -
  obtain entries where e: "load_entries (parseDeviceYAML oor log10f unmarshal) entries [] = Inr specs"
    using assms(1) by (auto simp: Load_specs_def split: sum.splits)
  show ?thesis by (rule load_entries_all [OF _ e _ assms(2)]) (use parseDeviceYAML_ok merge_ok in auto)
qed

section \<open>Properties\<close>

text \<open>C34: every class specification that loads is sound: its interval is positive; each metric has a
  size of 0, 1, 2 or 4 bytes, a known type and set mode, a non-negative offset, a positive interval,
  a scale that is not zero (one, for an enumeration, whose labels are not empty and whose values fit
  the size), and a unit table if it names a unit property; a climate part has a minimum that is not
  above its maximum and some mode; and the three super class properties are there.\<close>

theorem loaded_specs_ok:
  assumes "Load_specs oor log10f unmarshal readDir specsDir = Inr specs" "map_of specs cls = Some spec"
  shows "spec_ok spec \<and> {0x80, 0x81, 0x88} \<subseteq> m_EPC ` set (d_Metrics spec)"
proof -
  obtain entries where e: "load_entries (parseDeviceYAML oor log10f unmarshal) entries [] = Inr specs"
    using assms(1) by (auto simp: Load_specs_def split: sum.splits)
  have merged: "{0x80, 0x81, 0x88} \<subseteq> m_EPC ` set (d_Metrics (mergeSuperClass s))" for s
  proof -
    obtain added where a: "d_Metrics (mergeSuperClass s) = d_Metrics s @ added"
      "map m_EPC added = filter (\<lambda>e. e \<notin> m_EPC ` set (d_Metrics s)) [0x80, 0x81, 0x88]" using merge_metrics [of s] by blast
    have "set (map m_EPC added) = {e \<in> {0x80, 0x81, 0x88}. e \<notin> m_EPC ` set (d_Metrics s)}" unfolding a(2) by auto
    then show ?thesis unfolding a(1) by auto
  qed
  have "{0x80, 0x81, 0x88} \<subseteq> m_EPC ` set (d_Metrics spec)"
    by (rule load_entries_all [OF _ e _ assms(2)]) (use merged in auto)
  with loaded_spec_ok [OF assms] show ?thesis ..
qed

definition sample_metricYAML :: metricYAML where
  "sample_metricYAML = \<lparr>y_EPC = 0xB0, y_Name = ''mode'', y_Help = ''Mode.'', y_Size = 1, y_Offset = 0, y_Scale = Zero False,
     y_Signed = False, y_Invalid = None, y_Type = ''gauge'', y_Enum = [(0x41, ''auto''), (0x42, ''cool'')],
     y_ScrapeInterval = [], y_HADeviceClass = [], y_HAStateClass = [], y_HAUnit = [], y_NumberMin = None,
     y_NumberMax = None, y_PreSet = None, y_ExcludeSet = False, y_MultiplierEPC = 0, y_MultiplierMap = [], y_SetMode = []\<rparr>"

definition sample_deviceYAML :: deviceYAML where
  "sample_deviceYAML = \<lparr>dy_EOJ = [0x01, 0x30, 0x01], dy_Description = ''Air conditioner'', dy_DefaultScrapeInterval = [],
     dy_Metrics = [sample_metricYAML], dy_Climate = None, dy_Light = None\<rparr>"

lemma sample_metric_parses:
  "\<exists>s. parseMetricSpec oor log10f sample_metricYAML minute eoj = Inr s"
  by (simp add: parseMetricSpec_def sample_metricYAML_def check_metric_def code_ok_def check_scale_def metric_scale_def
      metric_interval_yaml_def ha_metadata_def inferHAMetadata_def enumValueFits_def f_eq_def fval_def is_inf_def f_less_def Let_def)

definition sample_dir :: "string \<Rightarrow> string + dir_entry list" where
  "sample_dir _ = Inr [(''ac.yaml'', False, Inr ''eoj: [1, 48, 1]''), (''README'', False, Inl ''unread'')]"

lemma sample_loads:
  "\<exists>specs spec. Load_specs (\<lambda>_. 0) (\<lambda>x. x) (\<lambda>_. Inr sample_deviceYAML) sample_dir [] = Inr specs
     \<and> map_of specs ''ac'' = Some spec"
proof -
  obtain s where s: "parseMetricSpec (\<lambda>_. 0) (\<lambda>x. x) sample_metricYAML minute (0x01, 0x30, 0x01) = Inr s"
    using sample_metric_parses by blast
  show ?thesis
    by (simp add: Load_specs_def sample_dir_def parseDeviceYAML_def sample_deviceYAML_def device_default_interval_def code_ok_def
        parse_part_def s has_suffix_def)
qed

theorem loaded_specs_ok_witness:
  "\<exists>specs spec. Load_specs (\<lambda>_. 0) (\<lambda>x. x) (\<lambda>_. Inr sample_deviceYAML) sample_dir [] = Inr specs
     \<and> map_of specs ''ac'' = Some spec \<and> spec_ok spec \<and> {0x80, 0x81, 0x88} \<subseteq> m_EPC ` set (d_Metrics spec)"
  using sample_loads loaded_specs_ok by metis

end
