(* ===== verification/GoNumber.thy ===== *)
theory GoNumber
  imports GoFloat GoText
begin

text \<open>
  Numbers as text, as the packages \<open>strconv\<close> and \<open>fmt\<close> read and write them: \<open>ParseFloat\<close> at 64
  bits, \<open>FormatFloat(v, 'f', -1, 64)\<close>, the verb \<open>%.0f\<close>, \<open>ParseInt\<close> behind the verb \<open>%d\<close> of
  \<open>Sscanf\<close>, and the case mappings of \<open>strings\<close>. A decimal is converted by one correct rounding of its
  exact value; the shortest decimal is searched digit by digit as the package does. The lemmas show
  that the shortest decimal of a float is read back as that float.
\<close>

section \<open>ParseFloat\<close>

definition is_letter :: "char \<Rightarrow> char \<Rightarrow> bool" where
  "is_letter l c \<longleftrightarrow> ascii_lower [c] = [l]"

text \<open>\<open>inf\<close>, \<open>infinity\<close> with an optional sign, and \<open>nan\<close>, in any case.\<close>

definition special_float :: "string \<Rightarrow> float64 option" where
  "special_float s =
     (if s = [] then None
      else
        let sgn = (hd s = CHR ''+'' \<or> hd s = CHR ''-'');
            t = ascii_lower (if sgn then tl s else s)
        in if t = ''inf'' \<or> t = ''infinity'' then Some (Inf (hd s = CHR ''-''))
           else if \<not> sgn \<and> t = ''nan'' then Some NaN else None)"

definition base_digit :: "bool \<Rightarrow> char \<Rightarrow> nat option" where
  "base_digit hex c =
     (case digit_value c of
        Some d \<Rightarrow> Some d
      | None \<Rightarrow>
          let n = of_char (hd (ascii_lower [c])) :: nat
          in if hex \<and> 97 \<le> n \<and> n \<le> 102 then Some (n - 87) else None)"

text \<open>The digits of the mantissa: \<open>(underscores, sawdot, sawdigits)\<close>, the digits read as one number and
  how many of them follow the point. What is left starts at the first character that is none of them.\<close>

type_synonym scanned = "(bool \<times> bool \<times> bool) \<times> nat \<times> nat"

fun scan_mantissa :: "bool \<Rightarrow> string \<Rightarrow> scanned \<Rightarrow> scanned \<times> string" where
  "scan_mantissa hex [] acc = (acc, [])"
| "scan_mantissa hex (c # cs) ((us, dot, dig), m, f) =
     (if c = CHR ''_'' then scan_mantissa hex cs ((True, dot, dig), m, f)
      else if c = CHR ''.'' then
        (if dot then (((us, dot, dig), m, f), c # cs) else scan_mantissa hex cs ((us, True, dig), m, f))
      else case base_digit hex c of
        Some d \<Rightarrow> scan_mantissa hex cs
          ((us, dot, True), m * (if hex then 16 else 10) + d, if dot then Suc f else f)
      | None \<Rightarrow> (((us, dot, dig), m, f), c # cs))"

text \<open>The digits of the exponent stop counting from 10000 on.\<close>

fun scan_exponent :: "bool \<Rightarrow> string \<Rightarrow> nat \<Rightarrow> (bool \<times> nat) \<times> string" where
  "scan_exponent us [] e = ((us, e), [])"
| "scan_exponent us (c # cs) e =
     (if c = CHR ''_'' then scan_exponent True cs e
      else case digit_value c of
        Some d \<Rightarrow> scan_exponent us cs (if e < 10000 then e * 10 + d else e)
      | None \<Rightarrow> ((us, e), c # cs))"

definition float_exponent :: "bool \<Rightarrow> string \<Rightarrow> ((bool \<times> int) \<times> string) option" where
  "float_exponent hex s =
     (if s \<noteq> [] \<and> is_letter (if hex then CHR ''p'' else CHR ''e'') (hd s) then
        let t = tl s;
            u = (if t \<noteq> [] \<and> (hd t = CHR ''+'' \<or> hd t = CHR ''-'') then tl t else t)
        in if u = [] \<or> digit_value (hd u) = None then None
           else (case scan_exponent False u 0 of
                   ((us, e), rest) \<Rightarrow> Some ((us, if hd t = CHR ''-'' then - int e else int e), rest))
      else if hex then None else Some ((False, 0), s))"

text \<open>\<open>underscoreOK\<close>: each underscore follows a digit (or the base prefix) and precedes one; \<open>saw\<close> is the
  last character's kind.\<close>

fun underscores_from :: "bool \<Rightarrow> char \<Rightarrow> string \<Rightarrow> bool" where
  "underscores_from hex saw [] \<longleftrightarrow> saw \<noteq> CHR ''_''"
| "underscores_from hex saw (c # cs) \<longleftrightarrow>
     (if base_digit hex c \<noteq> None then underscores_from hex (CHR ''0'') cs
      else if c = CHR ''_'' then saw = CHR ''0'' \<and> underscores_from hex (CHR ''_'') cs
      else saw \<noteq> CHR ''_'' \<and> underscores_from hex (CHR ''!'') cs)"

definition underscore_ok :: "string \<Rightarrow> bool" where
  "underscore_ok s \<longleftrightarrow>
     (let t = (if s \<noteq> [] \<and> (hd s = CHR ''-'' \<or> hd s = CHR ''+'') then tl s else s);
          pre = (2 \<le> length t \<and> hd t = CHR ''0'' \<and> ascii_lower [t ! 1] \<in> {''b'', ''o'', ''x''})
      in if pre then underscores_from (is_letter (CHR ''x'') (t ! 1)) (CHR ''0'') (drop 2 t)
         else underscores_from False (CHR ''^'') t)"

definition scaled_float :: "bool \<Rightarrow> bool \<Rightarrow> nat \<Rightarrow> nat \<Rightarrow> int \<Rightarrow> float64 option" where
  "scaled_float hex neg m f e =
     (if m = 0 then Some (Zero neg)
      else
        let v = rat_of_nat m * (if hex then 2 powi (e - 4 * int f) else 10 powi (e - int f));
            r = round64 (if neg then - v else v)
        in if is_inf r then None else Some r)"

text \<open>\<open>strconv.ParseFloat(s, 64)\<close>; \<open>None\<close> for a syntax error and for a value out of range.\<close>

definition parse_float :: "string \<Rightarrow> float64 option" where
  "parse_float s =
     (case special_float s of
        Some v \<Rightarrow> Some v
      | None \<Rightarrow>
          let sgn = (s \<noteq> [] \<and> (hd s = CHR ''+'' \<or> hd s = CHR ''-''));
              t = (if sgn then tl s else s);
              hex = (3 \<le> length t \<and> hd t = CHR ''0'' \<and> is_letter (CHR ''x'') (t ! 1))
          in (case scan_mantissa hex (if hex then drop 2 t else t) ((False, False, False), 0, 0) of
                (((us, dot, dig), m, f), rest) \<Rightarrow>
                  if \<not> dig then None
                  else (case float_exponent hex rest of
                          None \<Rightarrow> None
                        | Some ((us', e), rest') \<Rightarrow>
                            if rest' \<noteq> [] then None
                            else if (us \<or> us') \<and> \<not> underscore_ok s then None
                            else scaled_float hex (s \<noteq> [] \<and> hd s = CHR ''-'') m f e)))"

section \<open>FormatFloat\<close>

text \<open>The decimal exponent of a positive number: \<open>10 ^ (k - 1) \<le> x < 10 ^ k\<close>.\<close>

definition dec_expo :: "rat \<Rightarrow> int" where
  "dec_expo x =
     (let (p, q) = quotient_of x; k = int (length (dec_digits (nat p))) - int (length (dec_digits (nat q)))
      in if 10 powi k \<le> x then k + 1 else k)"

text \<open>The search for the shortest decimal: with \<open>n\<close> digits, is the truncated one or the next one above
  read as \<open>x\<close>? If both, the nearer is taken (the even one if equally near). It stops at the latest
  at 1074 digits behind the point, where every float is exact. The result is a number \<open>d\<close> and an
  exponent of ten.\<close>

definition reads_as :: "rat \<Rightarrow> int \<Rightarrow> int \<Rightarrow> bool" where
  "reads_as x d e \<longleftrightarrow> round64 (of_int d * 10 powi e) = Fin x"

function shortest_decimal :: "rat \<Rightarrow> int \<Rightarrow> nat \<Rightarrow> int \<times> int" where
  "shortest_decimal x k n =
     (let q = x * 10 powi (int n - k); e = k - int n; down = \<lfloor>q\<rfloor>
      in if nat (k + 1074) \<le> n then (down, e)
         else if reads_as x down e \<and> reads_as x (down + 1) e then (rne q, e)
         else if reads_as x down e then (down, e)
         else if reads_as x (down + 1) e then (down + 1, e)
         else shortest_decimal x k (Suc n))"
  by pat_completeness auto
termination
  by (relation "measure (\<lambda>(x, k, n). nat (k + 1074) - n)") auto

declare shortest_decimal.simps [simp del]

text \<open>The digits of a decimal do not end with zeros behind the point.\<close>

function trim_zeros :: "nat \<Rightarrow> nat \<Rightarrow> nat \<times> nat" where
  "trim_zeros d f = (if f \<noteq> 0 \<and> d mod 10 = 0 then trim_zeros (d div 10) (f - 1) else (d, f))"
  by pat_completeness auto
termination by (relation "measure snd") auto

declare trim_zeros.simps [simp del]

definition pad_zeros :: "nat \<Rightarrow> string \<Rightarrow> string" where
  "pad_zeros n s = replicate (n - length s) (CHR ''0'') @ s"

definition fixed_text :: "nat \<Rightarrow> nat \<Rightarrow> string" where
  "fixed_text d f =
     (if f = 0 then dec_digits d
      else dec_digits (d div 10 ^ f) @ ''.'' @ pad_zeros f (dec_digits (d mod 10 ^ f)))"

definition decimal_text :: "int \<Rightarrow> int \<Rightarrow> string" where
  "decimal_text d e =
     (if 0 \<le> e then dec_digits (nat d * 10 ^ nat e)
      else case trim_zeros (nat d) (nat (- e)) of (d', f) \<Rightarrow> fixed_text d' f)"

text \<open>\<open>strconv.FormatFloat(v, 'f', -1, 64)\<close>.\<close>

definition format_float :: "float64 \<Rightarrow> string" where
  "format_float v =
     (case v of
        NaN \<Rightarrow> ''NaN''
      | Inf s \<Rightarrow> if s then ''-Inf'' else ''+Inf''
      | Zero s \<Rightarrow> if s then ''-0'' else ''0''
      | Fin r \<Rightarrow>
          let x = \<bar>r\<bar>
          in (if r < 0 then ''-'' else []) @
             (case shortest_decimal x (dec_expo x) 0 of (d, e) \<Rightarrow> decimal_text d e))"

text \<open>\<open>fmt.Sprintf("%.0f", v)\<close>: the nearest integer, ties to even, and the sign also for a zero.\<close>

definition format_float0 :: "float64 \<Rightarrow> string" where
  "format_float0 v =
     (case v of
        NaN \<Rightarrow> ''NaN''
      | Inf s \<Rightarrow> if s then ''-Inf'' else ''+Inf''
      | Zero s \<Rightarrow> if s then ''-0'' else ''0''
      | Fin r \<Rightarrow> (if r < 0 then ''-'' else []) @ dec_digits (nat (rne \<bar>r\<bar>)))"

section \<open>Sscanf and the case of letters\<close>

text \<open>The verb \<open>%d\<close>: white space other than a newline is skipped, then a sign and digits are read; what
  follows them is not looked at.\<close>

definition scan_int :: "string \<Rightarrow> int option" where
  "scan_int s =
     (let t = strip_left (filter (\<lambda>e. e \<noteq> [char_of (10 :: nat)]) utf8_spaces) s;
          sgn = (t \<noteq> [] \<and> (hd t = CHR ''+'' \<or> hd t = CHR ''-''));
          ds = takeWhile (\<lambda>c. digit_value c \<noteq> None) (if sgn then tl t else t)
      in if ds = [] then None
         else case digits_value 0 ds of
                None \<Rightarrow> None
              | Some n \<Rightarrow>
                  let v = (if hd t = CHR ''-'' then - int n else int n) in if int64_ok v then Some v else None)"

text \<open>
  \<open>strings.ToUpper\<close> and \<open>strings.ToLower\<close>: the ASCII letters, the four other characters whose image is an
  ASCII letter (dotless i, long s; I with a dot, the Kelvin sign), and the replacement of an invalid
  byte. Letters outside ASCII are left as they are.
\<close>

definition replacement_char :: string where
  "replacement_char = map (\<lambda>n. char_of (n :: nat)) [0xEF, 0xBF, 0xBD]"

definition go_upper :: "string \<Rightarrow> string" where
  "go_upper s = concat (map (\<lambda>(r, cs).
     if r = 0x131 then ''I'' else if r = 0x17F then ''S''
     else if r = rune_error \<and> length cs = 1 then replacement_char else ascii_upper cs) (runes s))"

definition go_lower :: "string \<Rightarrow> string" where
  "go_lower s = concat (map (\<lambda>(r, cs).
     if r = 0x130 then ''i'' else if r = 0x212A then ''k''
     else if r = rune_error \<and> length cs = 1 then replacement_char else ascii_lower cs) (runes s))"

section \<open>Lemmas: a shortest decimal is read back\<close>

lemma float_scaled_int:
  assumes "round64 x = Fin x"
  obtains n where "x * 2 ^ 1074 = of_int n"
proof -
  define e where "e = max (expo x - 52) (- 1074)"
  have "x = of_int (rne (x / 2 powi e)) * 2 powi e"
    using assms unfolding round64_def Let_def e_def [symmetric] by (simp split: if_splits)
  moreover have "(2 :: rat) powi e * 2 ^ 1074 = of_int (2 ^ nat (e + 1074))"
  proof -
    have "(2 :: rat) powi e * 2 ^ 1074 = 2 powi e * 2 powi 1074" by simp
    also have "\<dots> = 2 powi (e + 1074)" by (simp only: two_powi_add)
    also have "\<dots> = 2 ^ nat (e + 1074)" by (simp add: e_def power_int_def)
    finally show ?thesis by simp
  qed
  ultimately have "x * 2 ^ 1074 = of_int (rne (x / 2 powi e) * 2 ^ nat (e + 1074))"
    by (metis (no_types) mult.assoc of_int_mult)
  then show thesis by (rule that)
qed

lemma ten_power_split: "(10 :: rat) ^ (N + i) = 2 ^ N * (5 ^ N * 10 ^ i)"
proof -
  have "(10 :: rat) ^ N = (2 * 5) ^ N" by simp
  then show ?thesis by (simp only: power_add power_mult_distrib mult.assoc)
qed

lemma shortest_exact:
  assumes "round64 x = Fin x" "nat (k + 1074) \<le> n"
  shows "of_int \<lfloor>x * 10 powi (int n - k)\<rfloor> * 10 powi (k - int n) = x"
proof -
  obtain a where a: "x * 2 ^ 1074 = of_int a" by (rule float_scaled_int [OF assms(1)])
  define j where "j = nat (int n - k)"
  have j: "int n - k = int j" "1074 \<le> j" using assms(2) by (auto simp: j_def)
  obtain i where i: "j = 1074 + i" using j(2) le_Suc_ex by blast
  have "x * 10 ^ j = of_int (a * (5 ^ 1074 * 10 ^ i))"
    unfolding i ten_power_split of_int_mult a [symmetric] by (simp only: mult.assoc of_int_power of_int_numeral)
  then have fl: "of_int \<lfloor>x * 10 ^ j\<rfloor> = x * 10 ^ j" by (metis floor_of_int of_int_mult)
  have kn: "k - int n = - int j" using j(1) by simp
  have inv: "(10 :: rat) powi (- int j) = inverse (10 ^ j)" by (simp add: power_int_minus)
  show ?thesis unfolding j(1) kn inv power_int_of_nat fl by simp
qed

lemma rne_cases: "rne q = \<lfloor>q\<rfloor> \<or> rne q = \<lfloor>q\<rfloor> + 1"
  by (simp add: rne_def Let_def)

lemma shortest_decimal_reads:
  assumes "round64 x = Fin x" "0 < x"
  shows "shortest_decimal x k n = (d, e) \<Longrightarrow> 0 \<le> d \<and> round64 (of_int d * 10 powi e) = Fin x"
proof (induction x\<equiv>x k n rule: shortest_decimal.induct)
  case (1 k n)
  define q where "q = x * 10 powi (int n - k)"
  have "0 \<le> q" unfolding q_def using assms(2) by (intro mult_nonneg_nonneg zero_le_power_int) auto
  then have nn: "0 \<le> \<lfloor>q\<rfloor>" by simp
  show ?case
  proof (cases "nat (k + 1074) \<le> n")
    case True
    then have "d = \<lfloor>q\<rfloor>" "e = k - int n"
      using "1.prems" by (subst (asm) shortest_decimal.simps; simp add: q_def)+
    with shortest_exact [OF assms(1) True] nn assms(1) show ?thesis by (simp add: q_def)
  next
    case False
    show ?thesis
    proof (cases "reads_as x \<lfloor>q\<rfloor> (k - int n) \<or> reads_as x (\<lfloor>q\<rfloor> + 1) (k - int n)")
      case True
      have "shortest_decimal x k n = (if reads_as x \<lfloor>q\<rfloor> (k - int n) \<and> reads_as x (\<lfloor>q\<rfloor> + 1) (k - int n) then (rne q, k - int n)
          else if reads_as x \<lfloor>q\<rfloor> (k - int n) then (\<lfloor>q\<rfloor>, k - int n) else (\<lfloor>q\<rfloor> + 1, k - int n))"
        by (subst shortest_decimal.simps) (use True False in \<open>auto simp: q_def Let_def\<close>)
      with "1.prems" nn rne_cases [of q] True show ?thesis by (auto simp: reads_as_def split: if_splits)
    next
      case no: False
      have "shortest_decimal x k n = shortest_decimal x k (Suc n)"
        by (subst shortest_decimal.simps) (use no False in \<open>auto simp: q_def Let_def\<close>)
      with "1.hyps" [OF refl refl refl] "1.prems" no False show ?thesis by (auto simp: q_def)
    qed
  qed
qed

text \<open>Texts of digits, with at most one point.\<close>

lemma base_digit_char: "digit_value c = Some d \<Longrightarrow> base_digit hex c = Some d"
  by (simp add: base_digit_def)

lemma digit_not_mark: "digit_value c = Some d \<Longrightarrow> c \<noteq> CHR ''_'' \<and> c \<noteq> CHR ''.''"
  by (auto simp: digit_value_def Let_def split: if_splits)

lemma scan_digits:
  "digits_value m ds = Some v \<Longrightarrow>
    scan_mantissa False (ds @ rest) ((us, dot, dig), m, f)
      = scan_mantissa False rest ((us, dot, dig \<or> ds \<noteq> []), v, if dot then f + length ds else f)"
proof (induction ds arbitrary: m f dig)
  case (Cons c ds)
  then obtain d where d: "digit_value c = Some d" by (auto split: option.splits)
  have "digits_value (m * 10 + d) ds = Some v" using Cons.prems d by simp
  from Cons.IH [OF this] digit_not_mark [OF d] base_digit_char [OF d] show ?case by simp
qed simp

lemma digits_value_zeros: "digits_value 0 (replicate n (CHR ''0'') @ ds) = digits_value 0 ds"
  by (induction n) (simp_all add: digit_value_def)

lemma digits_value_shift: "digits_value a ds = map_option (\<lambda>v. a * 10 ^ length ds + v) (digits_value 0 ds)"
proof (induction ds arbitrary: a)
  case (Cons c ds)
  show ?case
  proof (cases "digit_value c")
    case (Some d)
    then show ?thesis
      using Cons.IH [of "a * 10 + d"] Cons.IH [of d] by (simp add: option.map_comp o_def algebra_simps)
  qed simp
qed simp

lemma length_dec_digits: "n < 10 ^ k \<Longrightarrow> 0 < k \<Longrightarrow> length (dec_digits n) \<le> k"
proof (induction n arbitrary: k rule: dec_digits.induct)
  case (1 n)
  show ?case
  proof (cases "n < 10")
    case True
    with "1.prems" show ?thesis by (simp add: dec_digits.simps [of n])
  next
    case False
    then obtain j where k: "k = Suc j" "0 < j" using "1.prems" by (cases k; cases "k - 1") auto
    have "n div 10 < 10 ^ j" using "1.prems" by (simp add: k less_mult_imp_div_less mult.commute)
    from "1.IH" [OF False this k(2)] False show ?thesis by (subst dec_digits.simps) (simp add: k)
  qed
qed

lemma digits_value_dec: "digits_value a (dec_digits n) = Some (a * 10 ^ length (dec_digits n) + n)"
  by (rule digits_value_dec_digits)

lemma pad_zeros_value:
  assumes "n < 10 ^ f" "0 < f"
  shows "length (pad_zeros f (dec_digits n)) = f" "digits_value a (pad_zeros f (dec_digits n)) = Some (a * 10 ^ f + n)"
proof -
  show len: "length (pad_zeros f (dec_digits n)) = f"
    using length_dec_digits [OF assms] by (simp add: pad_zeros_def)
  have "digits_value 0 (pad_zeros f (dec_digits n)) = Some n"
    by (simp add: pad_zeros_def digits_value_zeros digits_value_dec_digits)
  then show "digits_value a (pad_zeros f (dec_digits n)) = Some (a * 10 ^ f + n)"
    by (simp add: digits_value_shift [of a] len)
qed

lemma trim_zeros_value: "trim_zeros d f = (d', f') \<Longrightarrow> f' \<le> f \<and> d = d' * 10 ^ (f - f')"
proof (induction d f rule: trim_zeros.induct)
  case (1 d f)
  show ?case
  proof (cases "f \<noteq> 0 \<and> d mod 10 = 0")
    case True
    then have "trim_zeros (d div 10) (f - 1) = (d', f')" using "1.prems" by (subst (asm) trim_zeros.simps) simp
    with "1.IH" [OF True] have "f' \<le> f - 1" "d div 10 = d' * 10 ^ (f - 1 - f')" by auto
    moreover have "d = d div 10 * 10" using True by (metis div_mult_mod_eq add_0_right)
    moreover have "f - f' = Suc (f - 1 - f')" using True \<open>f' \<le> f - 1\<close> by auto
    ultimately show ?thesis by (simp add: mult.assoc)
  next
    case False
    then show ?thesis using "1.prems" by (subst (asm) trim_zeros.simps) auto
  qed
qed

text \<open>The texts that \<open>decimal_text\<close> gives.\<close>

inductive number_text :: "string \<Rightarrow> nat \<Rightarrow> nat \<Rightarrow> bool" where
  whole: "number_text (dec_digits m) m 0"
| point: "0 < f \<Longrightarrow> number_text (dec_digits (m div 10 ^ f) @ ''.'' @ pad_zeros f (dec_digits (m mod 10 ^ f))) m f"

lemma fixed_text_number: "number_text (fixed_text m f) m f"
  using number_text.whole [of m] number_text.point [of f m] by (cases "f = 0") (simp_all add: fixed_text_def)

lemma scan_number_text:
  assumes "number_text t m f"
  shows "\<exists>dot. scan_mantissa False t ((False, False, False), 0, 0) = (((False, dot, True), m, f), [])"
  using assms
proof cases
  case whole
  then show ?thesis using scan_digits [of 0 "dec_digits m" m "[]"] digits_value_dec_digits [of 0 m]
    by (intro exI [of _ False]) simp
next
  case point
  let ?i = "dec_digits (m div 10 ^ f)" and ?r = "pad_zeros f (dec_digits (m mod 10 ^ f))"
  have lt: "m mod 10 ^ f < 10 ^ f" by simp
  note p = pad_zeros_value [OF lt point(2)]
  have i: "digits_value 0 ?i = Some (m div 10 ^ f)" using digits_value_dec_digits [of 0 "m div 10 ^ f"] by simp
  have r: "digits_value (m div 10 ^ f) ?r = Some m" unfolding p(2) by (simp only: div_mult_mod_eq)
  have "scan_mantissa False (?r @ []) ((False, True, True), m div 10 ^ f, 0) = scan_mantissa False [] ((False, True, True), m, f)"
    unfolding scan_digits [OF r] by (simp add: p(1))
  then show ?thesis unfolding point(1) append.simps scan_digits [OF i]
    by (intro exI [of _ True]) simp
qed

lemma number_text_chars:
  assumes "number_text t m f"
  shows "t \<noteq> []" "digit_value (hd t) \<noteq> None" "set t \<subseteq> insert (CHR ''.'') {c. digit_value c \<noteq> None}"
proof -
  have digs: "digits_value a ds = Some v \<Longrightarrow> set ds \<subseteq> {c. digit_value c \<noteq> None}" for a v ds
    by (induction ds arbitrary: a) (auto split: option.splits)
  have ok: "set (dec_digits n) \<subseteq> {c. digit_value c \<noteq> None}" for n
    by (rule digs [OF digits_value_dec_digits [of 0]])
  have "set (pad_zeros f (dec_digits n)) \<subseteq> {c. digit_value c \<noteq> None}" for n
    using ok [of n] by (auto simp: pad_zeros_def digit_value_def)
  note pads = this
  have "t \<noteq> [] \<and> digit_value (hd t) \<noteq> None \<and> set t \<subseteq> insert (CHR ''.'') {c. digit_value c \<noteq> None}"
    using assms
  proof cases
    case whole
    with ok [of m] show ?thesis using hd_dec_digits by auto
  next
    case point
    with ok [of "m div 10 ^ f"] pads [of "m mod 10 ^ f"] show ?thesis using hd_dec_digits by auto
  qed
  then show "t \<noteq> []" "digit_value (hd t) \<noteq> None" "set t \<subseteq> insert (CHR ''.'') {c. digit_value c \<noteq> None}" by auto
qed

lemma digit_lower: "digit_value c \<noteq> None \<Longrightarrow> ascii_lower [c] = [c]"
  by (auto simp: ascii_lower_def digit_value_def Let_def split: if_splits)

lemma parse_number_text:
  assumes "number_text t m f" "0 < m"
  shows "parse_float ((if neg then ''-'' else []) @ t) = scaled_float False neg m f 0"
proof -
  let ?s = "(if neg then ''-'' else []) @ t"
  note c = number_text_chars [OF assms(1)]
  obtain a t' where t: "t = a # t'" using c(1) by (cases t) auto
  have a: "digit_value a \<noteq> None" using c(2) t by simp
  then have na: "a \<noteq> CHR ''+''" "a \<noteq> CHR ''-''" "ascii_lower [a] = [a]" "a \<noteq> CHR ''i''" "a \<noteq> CHR ''n''"
    using digit_lower [OF a] by (auto simp: digit_value_def)
  have low: "ascii_lower t = a # ascii_lower t'" using na(3) by (simp add: t ascii_lower_def)
  have special: "special_float ?s = None" using na low by (auto simp: special_float_def t Let_def)
  have nox: "\<not> is_letter (CHR ''x'') b" if "b \<in> set t" for b
  proof -
    have "b = CHR ''.'' \<or> digit_value b \<noteq> None" using c(3) that by blast
    then have "ascii_lower [b] = [b]" using digit_lower [of b] by (auto simp: ascii_lower_def)
    moreover have "b \<noteq> CHR ''x''" using \<open>b = CHR ''.'' \<or> digit_value b \<noteq> None\<close> by (auto simp: digit_value_def)
    ultimately show ?thesis by (simp add: is_letter_def)
  qed
  have hex: "(3 \<le> length t \<and> hd t = CHR ''0'' \<and> is_letter (CHR ''x'') (t ! 1)) = False"
    using nox [of "t ! 1"] by auto
  obtain dot where sc: "scan_mantissa False t ((False, False, False), 0, 0) = (((False, dot, True), m, f), [])"
    using scan_number_text [OF assms(1)] by blast
  have sg: "(?s \<noteq> [] \<and> (hd ?s = CHR ''+'' \<or> hd ?s = CHR ''-'')) = neg" "(?s \<noteq> [] \<and> hd ?s = CHR ''-'') = neg"
    "(if neg then tl ?s else ?s) = t" using na t by auto
  show ?thesis
    unfolding parse_float_def special Let_def sg option.case hex if_False sc
    by (simp add: float_exponent_def)
qed

text \<open>Every float is printed so that it is read back: \<open>valid64\<close> holds of every value that arithmetic on
  floats gives.\<close>

definition valid64 :: "float64 \<Rightarrow> bool" where
  "valid64 v \<longleftrightarrow> (case v of Fin r \<Rightarrow> round64 r = Fin r | _ \<Rightarrow> True)"

lemma rne_minus: "rne (- x) = - rne x"
proof (cases "x = of_int \<lfloor>x\<rfloor>")
  case True
  then show ?thesis by (metis of_int_minus rne_of_int)
next
  case False
  then have "of_int \<lfloor>x\<rfloor> < x" "x < of_int \<lfloor>x\<rfloor> + 1" by linarith+
  then have fl: "\<lfloor>- x\<rfloor> = - \<lfloor>x\<rfloor> - 1" by (intro floor_unique) auto
  show ?thesis by (auto simp: rne_def fl Let_def algebra_simps)
qed

lemma expo_minus [simp]: "expo (- x) = expo x"
  by (simp add: expo_def)

lemma round64_minus: "x \<noteq> 0 \<Longrightarrow> round64 (- x) = f_neg (round64 x)"
  by (auto simp: round64_def Let_def rne_minus f_neg_def)

lemma round64_zero_int: "round64 (of_int d * 10 powi e) = Fin x \<Longrightarrow> d \<noteq> 0"
  by (auto simp: round64_def rne_def Let_def)

lemma decimal_text_number:
  assumes "0 < d"
  obtains m f where "number_text (decimal_text d e) m f" "0 < m" "rat_of_nat m * 10 powi (- int f) = of_int d * 10 powi e"
proof (cases "0 \<le> e")
  case True
  then have "number_text (decimal_text d e) (nat d * 10 ^ nat e) 0"
    by (simp add: decimal_text_def number_text.whole)
  moreover have "rat_of_nat (nat d * 10 ^ nat e) * 10 powi (- int 0) = of_int d * 10 powi e"
    using True assms by (simp add: power_int_def)
  ultimately show thesis using assms by (intro that) auto
next
  case False
  obtain m f where t: "trim_zeros (nat d) (nat (- e)) = (m, f)" by force
  note v = trim_zeros_value [OF t]
  have "number_text (decimal_text d e) m f" using False by (simp add: decimal_text_def t fixed_text_number)
  moreover have "0 < m" using v assms by (cases m) auto
  moreover have "rat_of_nat m * 10 powi (- int f) = of_int d * 10 powi e"
  proof -
    have "int (nat (- e) - f) + e = - int f" using v False by auto
    then have "rat_of_nat m * 10 powi (- int f) = rat_of_nat m * (10 powi int (nat (- e) - f) * 10 powi e)"
      by (metis power_int_add rel_simps(28) zero_neq_numeral)
    also have "\<dots> = rat_of_nat (m * 10 ^ (nat (- e) - f)) * 10 powi e" by simp
    also have "m * 10 ^ (nat (- e) - f) = nat d" using v by simp
    finally show ?thesis using assms by simp
  qed
  ultimately show thesis by (rule that)
qed

lemma parse_format_pos:
  assumes "round64 x = Fin x" "0 < x" "shortest_decimal x k n = (d, e)"
  shows "parse_float ((if neg then ''-'' else []) @ decimal_text d e) = Some (Fin (if neg then - x else x))"
proof -
  have d: "0 \<le> d" "round64 (of_int d * 10 powi e) = Fin x"
    using shortest_decimal_reads [OF assms] by auto
  with round64_zero_int have d0: "0 < d" by (metis order_le_less)
  obtain m f where m: "number_text (decimal_text d e) m f" "0 < m"
    and val: "rat_of_nat m * 10 powi (- int f) = of_int d * 10 powi e"
    by (rule decimal_text_number [OF d0])
  have "rat_of_nat m * 10 powi (- int f) \<noteq> 0" using m(2) by simp
  then have "round64 (- (rat_of_nat m * 10 powi (- int f))) = Fin (- x)" "round64 (rat_of_nat m * 10 powi (- int f)) = Fin x"
    using d(2) round64_minus unfolding val [symmetric] by (auto simp: f_neg_def)
  then show ?thesis
    unfolding parse_number_text [OF m(1,2)] using m(2) by (simp add: scaled_float_def)
qed

lemma parse_format:
  assumes "valid64 v"
  shows "parse_float (format_float v) = Some v"
proof (cases v)
  case (Fin r)
  obtain d e where de: "shortest_decimal \<bar>r\<bar> (dec_expo \<bar>r\<bar>) 0 = (d, e)" by force
  have r: "round64 r = Fin r" using assms Fin by (simp add: valid64_def)
  then have "r \<noteq> 0" by (auto simp: round64_def Let_def split: if_splits)
  with r round64_minus [of r] have "round64 \<bar>r\<bar> = Fin \<bar>r\<bar>" "0 < \<bar>r\<bar>" by (auto simp: f_neg_def abs_if)
  from parse_format_pos [OF this de, of "r < 0"] show ?thesis
    by (simp add: Fin format_float_def Let_def de split: if_splits)
next
  case (Inf s)
  have "parse_float ''+Inf'' = Some (Inf False)" "parse_float ''-Inf'' = Some (Inf True)" by code_simp+
  with Inf show ?thesis by (cases s) (simp_all add: format_float_def)
next
  case (Zero s)
  have "parse_float ''0'' = Some (Zero False)" "parse_float ''-0'' = Some (Zero True)"
    by code_simp+
  with Zero show ?thesis by (cases s) (simp_all add: format_float_def)
next
  case NaN
  have "parse_float ''NaN'' = Some NaN" by code_simp
  with NaN show ?thesis by (simp add: format_float_def)
qed

text \<open>A number's text has no white space, so trimming keeps it.\<close>

definition visible :: "string \<Rightarrow> bool" where
  "visible s \<longleftrightarrow> s \<noteq> [] \<and> list_all (\<lambda>c. 32 < (of_char c :: nat) \<and> of_char c < (128 :: nat)) s"

lemma trim_visible: "visible s \<Longrightarrow> trim_space s = s"
  by (rule trim_space_plain) (auto simp: visible_def list_all_iff)

lemma visible_append: "visible s \<Longrightarrow> visible t \<Longrightarrow> visible (s @ t)"
  by (auto simp: visible_def)

lemma visible_dec_digits: "visible (dec_digits n)"
proof (induction n rule: dec_digits.induct)
  case (1 n)
  have d: "visible [char_of (48 + k :: nat)]" if "k < 10" for k using that by (simp add: visible_def take_bit_eq_mod)
  show ?case
  proof (cases "n < 10")
    case True
    with d [of n] show ?thesis by (simp add: dec_digits.simps [of n])
  next
    case False
    with d [of "n mod 10"] visible_append [OF 1] show ?thesis by (simp add: dec_digits.simps [of n])
  qed
qed

lemma visible_number_text: "number_text s m f \<Longrightarrow> visible s"
proof (induction rule: number_text.induct)
  case (point f m)
  have "list_all (\<lambda>c. 32 < (of_char c :: nat) \<and> of_char c < (128 :: nat)) (pad_zeros f (dec_digits (m mod 10 ^ f)))"
    using visible_dec_digits [of "m mod 10 ^ f"] by (auto simp: pad_zeros_def visible_def list_all_iff)
  then show ?case using visible_dec_digits [of "m div 10 ^ f"] by (simp add: visible_def)
qed (rule visible_dec_digits)

lemma visible_decimal_text: "visible (decimal_text d e)"
  using visible_number_text [OF fixed_text_number] visible_dec_digits by (simp add: decimal_text_def split: prod.split)

lemma visible_format_float: "visible (format_float v)"
proof (cases v)
  case (Fin r)
  have "visible (decimal_text d e)" "visible (CHR ''-'' # decimal_text d e)" for d e
    using visible_decimal_text [of d e] by (auto simp: visible_def)
  then show ?thesis by (simp add: Fin format_float_def Let_def split: prod.split)
qed (auto simp: format_float_def visible_def)

text \<open>Arithmetic gives valid floats.\<close>

lemma valid_round64 [simp]: "valid64 (round64 x)"
  using round64_idem by (auto simp: valid64_def split: float64.splits)

lemma valid_arith [simp]: "valid64 (f_mul a b)" "valid64 (f_div a b)" "valid64 (f_of_int n)"
  by (simp_all add: f_mul_def f_div_def f_of_int_def Let_def) (simp_all add: valid64_def)

text \<open>On ASCII texts only the ASCII letters change.\<close>

definition is_ascii :: "string \<Rightarrow> bool" where
  "is_ascii s \<longleftrightarrow> list_all (\<lambda>c. of_char c < (128 :: nat)) s"

lemma runes_is_ascii: "is_ascii s \<Longrightarrow> runes s = map (\<lambda>c. (of_char c, [c])) s"
  by (rule runes_of_ascii) (simp add: is_ascii_def list_all_iff)

lemma go_case_ascii: "is_ascii s \<Longrightarrow> go_lower s = ascii_lower s" "is_ascii s \<Longrightarrow> go_upper s = ascii_upper s"
proof -
  assume a: "is_ascii s"
  have "go_lower s = concat (map (\<lambda>c. ascii_lower [c]) s)" "go_upper s = concat (map (\<lambda>c. ascii_upper [c]) s)"
    unfolding go_lower_def go_upper_def runes_is_ascii [OF a] map_map
    by (rule arg_cong [where f = concat], rule map_cong, use a in \<open>auto simp: is_ascii_def list_all_iff\<close>)+
  then show "go_lower s = ascii_lower s" "go_upper s = ascii_upper s"
    by (simp_all add: ascii_lower_def ascii_upper_def)
qed

end
