(* ===== verification/Commander.thy ===== *)
theory Commander
  imports Reconciler GoNumber
begin

text \<open>
  \<open>internal/mqtt/commander.go\<close>: from a message on a command topic to the SET requests of a device. A
  handler reads the cache and threads a state: the transport's, the reconciler's (absent when none is
  set), and the goroutines it starts, in order. The clock is a function \<open>now\<close> of the transport's
  state. The two goroutines that read a device back are \<open>verifyStateUpdate\<close> and
  \<open>triggerStateUpdate\<close>; \<open>wait\<close> is the pause before a read, which ends early when the program
  stops. Topics and payloads are strings; connecting and subscribing is the MQTT library's.
\<close>

record pendingUpdate =
  pu_epc :: byte
  pu_edt :: bytes

datatype task =
    StartReconcile Device eoj
  | VerifyUpdate Device eoj "pendingUpdate list"
  | ReadBack Device eoj bytes

record 's command =
  k_tr :: 's
  k_rec :: "CapabilityReconciler option"
  k_tasks :: "task list"

abbreviation operationStatusEPC :: byte where "operationStatusEPC \<equiv> 0x80"
abbreviation onStatus :: byte where "onStatus \<equiv> 0x30"
abbreviation offStatus :: byte where "offStatus \<equiv> 0x31"

definition start_task :: "task \<Rightarrow> 's command \<Rightarrow> 's command" where
  "start_task task st = st\<lparr>k_tasks := k_tasks st @ [task]\<rparr>"

section \<open>Subscriptions and topics\<close>

definition command_prefix :: "string \<Rightarrow> string" where
  "command_prefix topicPrefix = (if topicPrefix = [] then ''echonetgo'' else topicPrefix)"

definition subscriptions :: "string \<Rightarrow> string list" where
  "subscriptions prefix =
     [prefix @ ''/+/climate/#'', prefix @ ''/+/light/#'']
     @ map (\<lambda>entityType. prefix @ ''/+/'' @ entityType @ ''/+/set'') [''switch'', ''select'', ''number'']"

text \<open>The device, the kind and the attribute that a climate or light topic addresses; \<open>None\<close> where the
  handler returns without looking further.\<close>

definition attr_topic :: "string \<Rightarrow> string \<Rightarrow> (string \<times> string) option" where
  "attr_topic kind topic =
     (let parts = split_on (CHR ''/'') topic
      in if length parts < 4 then None
         else if parts ! 2 \<noteq> kind then None
         else if \<not> (4 < length parts \<and> parts ! 4 = ''set'') then None
         else Some (parts ! 1, parts ! 3))"

definition entity_topic :: "string \<Rightarrow> (string \<times> string \<times> string) option" where
  "entity_topic topic =
     (let parts = split_on (CHR ''/'') topic
      in if length parts \<noteq> 5 \<or> parts ! 4 \<noteq> ''set'' then None
         else if parts ! 2 \<noteq> ''switch'' \<and> parts ! 2 \<noteq> ''select'' \<and> parts ! 2 \<noteq> ''number'' then None
         else Some (parts ! 1, parts ! 2, parts ! 3))"

definition deviceByName :: "Device list \<Rightarrow> string \<Rightarrow> Device option" where
  "deviceByName devices name = find (\<lambda>d. dv_Name d = name) devices"

section \<open>Guards and requests\<close>

text \<open>\<open>writable\<close> is the result of \<open>GetWritableEPCs\<close>: \<open>None\<close> when no map is known.\<close>

definition checkWritable ::
  "('s \<Rightarrow> time) \<Rightarrow> Cache \<Rightarrow> Device \<Rightarrow> eoj \<Rightarrow> byte \<Rightarrow> byte set option option \<Rightarrow> 's command \<Rightarrow> bool \<times> 's command" where
  "checkWritable now c dev eoj epc writable st =
     (case writable of
        Some w \<Rightarrow> (case w of Some es \<Rightarrow> epc \<in> es | None \<Rightarrow> False, st)
      | None \<Rightarrow>
          (case k_rec st of
             None \<Rightarrow> (True, st)
           | Some r \<Rightarrow>
               (case ReconcileDevice (now (k_tr st)) dev c r of
                  (r', cycle) \<Rightarrow>
                    let st1 = st\<lparr>k_rec := Some r'\<rparr>
                    in (True, if cycle then start_task (StartReconcile dev eoj) st1 else st1))))"

text \<open>A SET request; when it fails the properties \<open>onError\<close> are read back.\<close>

definition send_set ::
  "'s transport_ops \<Rightarrow> string \<Rightarrow> Device \<Rightarrow> eoj \<Rightarrow> byte \<Rightarrow> bytes \<Rightarrow> bytes \<Rightarrow> 's command \<Rightarrow> bool \<times> 's command" where
  "send_set tr addr dev eoj epc edt onError st =
     (case SendSet tr addr eoj epc edt (k_tr st) of
        ((_, Some err), s1) \<Rightarrow> (False, start_task (ReadBack dev eoj onError) (st\<lparr>k_tr := s1\<rparr>))
      | ((_, None), s1) \<Rightarrow> (True, st\<lparr>k_tr := s1\<rparr>))"

definition set_and_verify ::
  "'s transport_ops \<Rightarrow> string \<Rightarrow> Device \<Rightarrow> eoj \<Rightarrow> byte \<Rightarrow> bytes \<Rightarrow> bytes \<Rightarrow> pendingUpdate list \<Rightarrow> 's command \<Rightarrow> 's command" where
  "set_and_verify tr addr dev eoj epc edt onError updates st =
     (case send_set tr addr dev eoj epc edt onError st of
        (ok, st1) \<Rightarrow> if ok then start_task (VerifyUpdate dev eoj updates) st1 else st1)"

text \<open>Encoding a value for a metric and setting it.\<close>

definition set_value ::
  "(float64 \<Rightarrow> int) \<Rightarrow> 's transport_ops \<Rightarrow> string \<Rightarrow> Device \<Rightarrow> eoj \<Rightarrow> byte \<Rightarrow> float64 \<Rightarrow> MetricSpec \<Rightarrow> 's command \<Rightarrow> 's command" where
  "set_value oor tr addr dev eoj epc value ms st =
     (case EncodeValueToEDT oor value ms of
        Inl err \<Rightarrow> st
      | Inr edt \<Rightarrow> set_and_verify tr addr dev eoj epc edt [epc] [\<lparr>pu_epc = epc, pu_edt = edt\<rparr>] st)"

definition on_off :: "string \<Rightarrow> bool option" where
  "on_off payload =
     (let p = go_upper payload
      in if p \<in> {''ON'', ''1'', ''TRUE''} then Some True
         else if p \<in> {''OFF'', ''0'', ''FALSE''} then Some False else None)"

section \<open>Climate\<close>

definition handleClimatePower ::
  "'s transport_ops \<Rightarrow> ('s \<Rightarrow> time) \<Rightarrow> Cache \<Rightarrow> string \<Rightarrow> eoj \<Rightarrow> Device \<Rightarrow> string \<Rightarrow> byte set option option \<Rightarrow>
     's command \<Rightarrow> 's command" where
  "handleClimatePower tr now c addr eoj dev payload writable st =
     (case checkWritable now c dev eoj operationStatusEPC writable st of
        (ok, st1) \<Rightarrow>
          if \<not> ok then st1
          else case on_off payload of
            None \<Rightarrow> st1
          | Some on \<Rightarrow>
              let edt = (if on then [onStatus] else [offStatus])
              in set_and_verify tr addr dev eoj operationStatusEPC edt [operationStatusEPC]
                   [\<lparr>pu_epc = operationStatusEPC, pu_edt = edt\<rparr>] st1)"

definition climate_mode_off ::
  "'s transport_ops \<Rightarrow> ('s \<Rightarrow> time) \<Rightarrow> Cache \<Rightarrow> string \<Rightarrow> eoj \<Rightarrow> Device \<Rightarrow> byte set option option \<Rightarrow> 's command \<Rightarrow> 's command" where
  "climate_mode_off tr now c addr eoj dev writable st =
     (case checkWritable now c dev eoj operationStatusEPC writable st of
        (ok, st1) \<Rightarrow>
          if \<not> ok then st1
          else set_and_verify tr addr dev eoj operationStatusEPC [offStatus] [operationStatusEPC]
                 [\<lparr>pu_epc = operationStatusEPC, pu_edt = [offStatus]\<rparr>] st1)"

text \<open>The part after the device has been turned on.\<close>

definition climate_mode_set ::
  "(float64 \<Rightarrow> int) \<Rightarrow> 's transport_ops \<Rightarrow> string \<Rightarrow> eoj \<Rightarrow> Device \<Rightarrow> string \<Rightarrow> ClimateSpec \<Rightarrow> MetricSpec list \<Rightarrow>
     's command \<Rightarrow> 's command" where
  "climate_mode_set oor tr addr eoj dev mode climateSpec metricSpecs st =
     (case map_of (c_Modes climateSpec) mode of
        Some (Some raw) \<Rightarrow>
          (case FindMetricSpecByEPC metricSpecs (c_ModeEPC climateSpec) of
             None \<Rightarrow> st
           | Some ms \<Rightarrow>
               (case EncodeValueToEDT oor (f_of_int raw) ms of
                  Inl err \<Rightarrow> st
                | Inr edt \<Rightarrow>
                    set_and_verify tr addr dev eoj (c_ModeEPC climateSpec) edt
                      [operationStatusEPC, c_ModeEPC climateSpec]
                      [\<lparr>pu_epc = operationStatusEPC, pu_edt = [onStatus]\<rparr>,
                       \<lparr>pu_epc = c_ModeEPC climateSpec, pu_edt = edt\<rparr>] st))
      | _ \<Rightarrow> st)"

definition handleClimateMode ::
  "(float64 \<Rightarrow> int) \<Rightarrow> 's transport_ops \<Rightarrow> ('s \<Rightarrow> time) \<Rightarrow> Cache \<Rightarrow> string \<Rightarrow> eoj \<Rightarrow> Device \<Rightarrow> string \<Rightarrow>
     ClimateSpec option \<Rightarrow> MetricSpec list \<Rightarrow> byte set option option \<Rightarrow> 's command \<Rightarrow> 's command" where
  "handleClimateMode oor tr now c addr eoj dev payload climateSpec metricSpecs writable st =
     (case climateSpec of
        None \<Rightarrow> st
      | Some cl \<Rightarrow>
          let mode = go_lower payload
          in if mode = ''off'' then climate_mode_off tr now c addr eoj dev writable st
             else (case checkWritable now c dev eoj operationStatusEPC writable st of
                     (ok, st1) \<Rightarrow>
                       if \<not> ok then st1
                       else (case checkWritable now c dev eoj (c_ModeEPC cl) writable st1 of
                               (ok2, st2) \<Rightarrow>
                                 if \<not> ok2 then st2
                                 else (case send_set tr addr dev eoj operationStatusEPC [onStatus] [operationStatusEPC] st2 of
                                         (sent, st3) \<Rightarrow>
                                           if \<not> sent then st3
                                           else climate_mode_set oor tr addr eoj dev mode cl metricSpecs st3))))"

text \<open>The constant \<open>1e-9\<close> as a float.\<close>

definition normalizeClimateSetpoint :: "float64 \<Rightarrow> float64 \<Rightarrow> bool \<Rightarrow> MetricSpec \<Rightarrow> float64" where
  "normalizeClimateSetpoint req prev hasPrev ms =
     (let scale = (if f_eq (m_Scale ms) (Zero False) then Fin 1 else m_Scale ms)
      in if \<not> f_eq scale (Fin 1) then req
         else if f_eq req (f_trunc req) then req
         else
           let frac = f_sub req (f_floor req)
           in if f_less (f_abs (f_sub frac (Fin (1 / 2)))) (round64 (1 / 10 ^ 9)) \<and> hasPrev
              then (if f_le prev req then f_ceil req else f_floor req)
              else f_round req)"

definition cached_value :: "time \<Rightarrow> Device \<Rightarrow> Cache \<Rightarrow> string \<Rightarrow> float64 \<times> bool" where
  "cached_value t dev c name =
     (case Get t dev c of
        (_, _, _, Some cached) \<Rightarrow>
          (case map_of cached name of Some mv \<Rightarrow> (mv_Value mv, True) | None \<Rightarrow> (Zero False, False))
      | (_, _, _, None) \<Rightarrow> (Zero False, False))"

definition handleClimateTemperature ::
  "(float64 \<Rightarrow> int) \<Rightarrow> 's transport_ops \<Rightarrow> ('s \<Rightarrow> time) \<Rightarrow> Cache \<Rightarrow> string \<Rightarrow> eoj \<Rightarrow> Device \<Rightarrow> string \<Rightarrow>
     ClimateSpec option \<Rightarrow> MetricSpec list \<Rightarrow> byte set option option \<Rightarrow> 's command \<Rightarrow> 's command" where
  "handleClimateTemperature oor tr now c addr eoj dev payload climateSpec metricSpecs writable st =
     (case climateSpec of
        None \<Rightarrow> st
      | Some cl \<Rightarrow>
          let epc = c_TemperatureEPC cl
          in (case checkWritable now c dev eoj epc writable st of
                (ok, st1) \<Rightarrow>
                  if \<not> ok then st1
                  else (case parse_float payload of
                          None \<Rightarrow> st1
                        | Some temp \<Rightarrow>
                            (case FindMetricSpecByEPC metricSpecs epc of
                               None \<Rightarrow> st1
                             | Some ms \<Rightarrow>
                                 (case cached_value (now (k_tr st1)) dev c (m_Name ms) of
                                    (prev, hasPrev) \<Rightarrow>
                                      set_value oor tr addr dev eoj epc
                                        (normalizeClimateSetpoint temp prev hasPrev ms) ms st1)))))"

definition handleClimateFanMode ::
  "(float64 \<Rightarrow> int) \<Rightarrow> 's transport_ops \<Rightarrow> ('s \<Rightarrow> time) \<Rightarrow> Cache \<Rightarrow> string \<Rightarrow> eoj \<Rightarrow> Device \<Rightarrow> string \<Rightarrow>
     ClimateSpec option \<Rightarrow> MetricSpec list \<Rightarrow> byte set option option \<Rightarrow> 's command \<Rightarrow> 's command" where
  "handleClimateFanMode oor tr now c addr eoj dev payload climateSpec metricSpecs writable st =
     (case climateSpec of
        None \<Rightarrow> st
      | Some cl \<Rightarrow>
          if c_FanModeEPC cl = 0 then st
          else (case checkWritable now c dev eoj (c_FanModeEPC cl) writable st of
                  (ok, st1) \<Rightarrow>
                    if \<not> ok then st1
                    else (case FindMetricSpecByEPC metricSpecs (c_FanModeEPC cl) of
                            None \<Rightarrow> st1
                          | Some ms \<Rightarrow>
                              if m_ReverseEnum ms = [] then st1
                              else (case map_of (m_ReverseEnum ms) payload of
                                      None \<Rightarrow> st1
                                    | Some raw \<Rightarrow>
                                        set_value oor tr addr dev eoj (c_FanModeEPC cl) (f_of_int raw) ms st1))))"

text \<open>The parts that the handlers of climate and light messages share: the payload, the topic, the device
  and its object code.\<close>

definition addressed_attr ::
  "string \<Rightarrow> Device list \<Rightarrow> Cache \<Rightarrow> string \<Rightarrow> string \<Rightarrow> (Device \<times> eoj \<times> string \<times> string) option" where
  "addressed_attr kind devices c topic rawPayload =
     (let payload = trim_space rawPayload
      in if payload = [] then None
         else case attr_topic kind topic of
           None \<Rightarrow> None
         | Some (deviceName, attr) \<Rightarrow>
             (case deviceByName devices deviceName of
                None \<Rightarrow> None
              | Some dev \<Rightarrow>
                  (case GetDeviceEOJ dev c of None \<Rightarrow> None | Some eoj \<Rightarrow> Some (dev, eoj, attr, payload))))"

definition specs_of :: "Device \<Rightarrow> Cache \<Rightarrow> MetricSpec list" where
  "specs_of dev c = (case GetDeviceSpecs dev c of Some ms \<Rightarrow> ms | None \<Rightarrow> [])"

abbreviation device_addr :: "Device \<Rightarrow> string" where "device_addr dev \<equiv> dv_IP dev @ '':3610''"

definition handleClimateMessage ::
  "(float64 \<Rightarrow> int) \<Rightarrow> 's transport_ops \<Rightarrow> ('s \<Rightarrow> time) \<Rightarrow> Device list \<Rightarrow> Cache \<Rightarrow> string \<Rightarrow> string \<Rightarrow>
     's command \<Rightarrow> 's command" where
  "handleClimateMessage oor tr now devices c topic rawPayload st =
     (case addressed_attr ''climate'' devices c topic rawPayload of
        None \<Rightarrow> st
      | Some (dev, eoj, attr, payload) \<Rightarrow>
          let metricSpecs = specs_of dev c;
              climateSpec = GetDeviceClimate dev c;
              writable = GetWritableEPCs dev c
          in if attr = ''mode'' then
               handleClimateMode oor tr now c (device_addr dev) eoj dev payload climateSpec metricSpecs writable st
             else if attr = ''temperature'' then
               handleClimateTemperature oor tr now c (device_addr dev) eoj dev payload climateSpec metricSpecs writable st
             else if attr = ''fan_mode'' then
               handleClimateFanMode oor tr now c (device_addr dev) eoj dev payload climateSpec metricSpecs writable st
             else if attr = ''power'' then
               handleClimatePower tr now c (device_addr dev) eoj dev payload writable st
             else st)"

section \<open>Light\<close>

definition handleLightPower ::
  "'s transport_ops \<Rightarrow> ('s \<Rightarrow> time) \<Rightarrow> Cache \<Rightarrow> string \<Rightarrow> eoj \<Rightarrow> Device \<Rightarrow> string \<Rightarrow> byte set option option \<Rightarrow>
     's command \<Rightarrow> 's command" where
  "handleLightPower tr now c addr eoj dev payload writable st =
     (case checkWritable now c dev eoj operationStatusEPC writable st of
        (ok, st1) \<Rightarrow>
          if \<not> ok then st1
          else case on_off payload of
            None \<Rightarrow> st1
          | Some on \<Rightarrow>
              let edt = (if on then [onStatus] else [offStatus])
              in set_and_verify tr addr dev eoj operationStatusEPC edt [operationStatusEPC]
                   [\<lparr>pu_epc = operationStatusEPC, pu_edt = edt\<rparr>] st1)"

definition handleLightBrightness ::
  "(float64 \<Rightarrow> int) \<Rightarrow> 's transport_ops \<Rightarrow> ('s \<Rightarrow> time) \<Rightarrow> Cache \<Rightarrow> string \<Rightarrow> eoj \<Rightarrow> Device \<Rightarrow> string \<Rightarrow>
     LightSpec option \<Rightarrow> MetricSpec list \<Rightarrow> byte set option option \<Rightarrow> 's command \<Rightarrow> 's command" where
  "handleLightBrightness oor tr now c addr eoj dev payload lightSpec metricSpecs writable st =
     (case lightSpec of
        None \<Rightarrow> st
      | Some lt \<Rightarrow>
          if l_BrightnessEPC lt = 0 then st
          else (case checkWritable now c dev eoj (l_BrightnessEPC lt) writable st of
                  (ok, st1) \<Rightarrow>
                    if \<not> ok then st1
                    else (case parse_float payload of
                            None \<Rightarrow> st1
                          | Some brightness \<Rightarrow>
                              (case FindMetricSpecByEPC metricSpecs (l_BrightnessEPC lt) of
                                 None \<Rightarrow> st1
                               | Some ms \<Rightarrow> set_value oor tr addr dev eoj (l_BrightnessEPC lt) brightness ms st1))))"

text \<open>The property and the value of an effect: a colour by its name, or a scene by its number.\<close>

definition scene_number :: "string \<Rightarrow> int option" where
  "scene_number payload = (if has_prefix payload ''scene_'' then scan_int (drop 6 payload) else None)"

definition light_effect :: "LightSpec \<Rightarrow> string \<Rightarrow> (byte \<times> float64) option" where
  "light_effect lt payload =
     (if l_ColorSettingEPC lt \<noteq> 0 then
        (case map_of (l_ColorSettings lt) payload of
           None \<Rightarrow> None
         | Some raw \<Rightarrow> Some (l_ColorSettingEPC lt, f_of_int raw))
      else if l_SceneEPC lt \<noteq> 0 then
        (case scene_number payload of
           None \<Rightarrow> None
         | Some sceneNum \<Rightarrow>
             if sceneNum < 1 \<or> (0 < l_MaxScenes lt \<and> l_MaxScenes lt < sceneNum) then None
             else Some (l_SceneEPC lt, f_of_int sceneNum))
      else None)"

definition handleLightEffect ::
  "(float64 \<Rightarrow> int) \<Rightarrow> 's transport_ops \<Rightarrow> ('s \<Rightarrow> time) \<Rightarrow> Cache \<Rightarrow> string \<Rightarrow> eoj \<Rightarrow> Device \<Rightarrow> string \<Rightarrow>
     LightSpec option \<Rightarrow> MetricSpec list \<Rightarrow> byte set option option \<Rightarrow> 's command \<Rightarrow> 's command" where
  "handleLightEffect oor tr now c addr eoj dev payload lightSpec metricSpecs writable st =
     (case lightSpec of
        None \<Rightarrow> st
      | Some lt \<Rightarrow>
          (case light_effect lt payload of
             None \<Rightarrow> st
           | Some (epc, value) \<Rightarrow>
               (case checkWritable now c dev eoj epc writable st of
                  (ok, st1) \<Rightarrow>
                    if \<not> ok then st1
                    else (case FindMetricSpecByEPC metricSpecs epc of
                            None \<Rightarrow> st1
                          | Some ms \<Rightarrow> set_value oor tr addr dev eoj epc value ms st1))))"

definition handleLightMessage ::
  "(float64 \<Rightarrow> int) \<Rightarrow> 's transport_ops \<Rightarrow> ('s \<Rightarrow> time) \<Rightarrow> Device list \<Rightarrow> Cache \<Rightarrow> string \<Rightarrow> string \<Rightarrow>
     's command \<Rightarrow> 's command" where
  "handleLightMessage oor tr now devices c topic rawPayload st =
     (case addressed_attr ''light'' devices c topic rawPayload of
        None \<Rightarrow> st
      | Some (dev, eoj, attr, payload) \<Rightarrow>
          let metricSpecs = specs_of dev c;
              lightSpec = GetDeviceLight dev c;
              writable = GetWritableEPCs dev c
          in if attr = ''power'' then handleLightPower tr now c (device_addr dev) eoj dev payload writable st
             else if attr = ''brightness'' then
               handleLightBrightness oor tr now c (device_addr dev) eoj dev payload lightSpec metricSpecs writable st
             else if attr = ''effect'' then
               handleLightEffect oor tr now c (device_addr dev) eoj dev payload lightSpec metricSpecs writable st
             else st)"

section \<open>Switches, selects and numbers\<close>

text \<open>The value of a payload for the kind of entity; \<open>None\<close> for an invalid payload.\<close>

definition entity_value :: "MetricSpec \<Rightarrow> string \<Rightarrow> string \<Rightarrow> float64 option" where
  "entity_value ms entityType payload =
     (if entityType = ''switch'' then
        (case on_off payload of
           None \<Rightarrow> None
         | Some True \<Rightarrow> (case map_of (m_ReverseEnum ms) ''on'' of Some raw \<Rightarrow> Some (f_of_int raw) | None \<Rightarrow> Some (Fin 1))
         | Some False \<Rightarrow> (case map_of (m_ReverseEnum ms) ''off'' of Some raw \<Rightarrow> Some (f_of_int raw) | None \<Rightarrow> Some (Zero False)))
      else if entityType = ''select'' then map_option f_of_int (map_of (m_ReverseEnum ms) payload)
      else if entityType = ''number'' then parse_float payload
      else None)"

text \<open>The pre-set: another property that is set first. The result: \<open>None\<close> when the command is given up,
  else the data sent (if the metric has a pre-set); that it failed does not matter.\<close>

definition pre_set ::
  "(float64 \<Rightarrow> int) \<Rightarrow> 's transport_ops \<Rightarrow> string \<Rightarrow> eoj \<Rightarrow> MetricSpec \<Rightarrow> MetricSpec list \<Rightarrow> 's command \<Rightarrow>
     bytes option \<times> 's command" where
  "pre_set oor tr addr eoj ms metricSpecs st =
     (if m_PreSetEPC ms = 0 then (Some [], st)
      else case FindMetricSpecByEPC metricSpecs (m_PreSetEPC ms) of
        None \<Rightarrow> (None, st)
      | Some preMs \<Rightarrow>
          (case EncodeValueToEDT oor (f_of_int (m_PreSetValue ms)) preMs of
             Inl err \<Rightarrow> (None, st)
           | Inr preEDT \<Rightarrow>
               (case SendSet tr addr eoj (m_PreSetEPC ms) preEDT (k_tr st) of
                  (_, s1) \<Rightarrow> (Some preEDT, st\<lparr>k_tr := s1\<rparr>))))"

definition executeWritableSet ::
  "(float64 \<Rightarrow> int) \<Rightarrow> 's transport_ops \<Rightarrow> string \<Rightarrow> eoj \<Rightarrow> Device \<Rightarrow> MetricSpec \<Rightarrow> MetricSpec list \<Rightarrow> string \<Rightarrow> string \<Rightarrow>
     's command \<Rightarrow> 's command" where
  "executeWritableSet oor tr addr eoj dev ms metricSpecs entityType payload st =
     (case pre_set oor tr addr eoj ms metricSpecs st of
        (None, st1) \<Rightarrow> st1
      | (Some preEDT, st1) \<Rightarrow>
          (case entity_value ms entityType payload of
             None \<Rightarrow> st1
           | Some value \<Rightarrow>
               (case EncodeValueToEDT oor value ms of
                  Inl err \<Rightarrow> st1
                | Inr edt \<Rightarrow>
                    if m_SetMode ms = ''seti'' then
                      (case SendSetI tr addr eoj (m_EPC ms) edt (k_tr st1) of (_, s2) \<Rightarrow> st1\<lparr>k_tr := s2\<rparr>)
                    else
                      set_and_verify tr addr dev eoj (m_EPC ms) edt [m_EPC ms]
                        (\<lparr>pu_epc = m_EPC ms, pu_edt = edt\<rparr>
                         # (if m_PreSetEPC ms \<noteq> 0 then [\<lparr>pu_epc = m_PreSetEPC ms, pu_edt = preEDT\<rparr>] else [])) st1)))"

definition handleWritableMessage ::
  "(float64 \<Rightarrow> int) \<Rightarrow> 's transport_ops \<Rightarrow> ('s \<Rightarrow> time) \<Rightarrow> Device list \<Rightarrow> Cache \<Rightarrow> string \<Rightarrow> string \<Rightarrow>
     's command \<Rightarrow> 's command" where
  "handleWritableMessage oor tr now devices c topic rawPayload st =
     (let payload = trim_space rawPayload
      in if payload = [] then st
         else case entity_topic topic of
           None \<Rightarrow> st
         | Some (deviceName, entityType, metricName) \<Rightarrow>
             (case deviceByName devices deviceName of
                None \<Rightarrow> st
              | Some dev \<Rightarrow>
                  (case GetDeviceEOJ dev c of
                     None \<Rightarrow> st
                   | Some eoj \<Rightarrow>
                       (case GetDeviceSpecs dev c of
                          None \<Rightarrow> st
                        | Some metricSpecs \<Rightarrow>
                            (case FindMetricSpecByName metricSpecs metricName of
                               None \<Rightarrow> st
                             | Some ms \<Rightarrow>
                                 (case checkWritable now c dev eoj (m_EPC ms) (GetWritableEPCs dev c) st of
                                    (ok, st1) \<Rightarrow>
                                      if \<not> ok then st1
                                      else if climate_HandlesEPC (GetDeviceClimate dev c) (m_EPC ms) then st1
                                      else if light_HandlesEPC (GetDeviceLight dev c) (m_EPC ms) then st1
                                      else if m_ExcludeSet ms then st1
                                      else executeWritableSet oor tr (device_addr dev) eoj dev ms metricSpecs
                                             entityType payload st1))))))"

section \<open>Reading a device back\<close>

definition mergePropsToCache ::
  "(float64 \<Rightarrow> int) \<Rightarrow> (float64 \<Rightarrow> float64) \<Rightarrow> Device \<Rightarrow> Property list \<Rightarrow> bytes \<Rightarrow> Cache \<Rightarrow> Cache \<times> DeviceState option" where
  "mergePropsToCache oor log10f dev props epcs c =
     (case GetDeviceSpecs dev c of
        None \<Rightarrow> (c, None)
      | Some deviceSpecs \<Rightarrow>
          let metrics = ParsePropsToMetrics oor log10f props (filter (\<lambda>ms. m_EPC ms \<in> set epcs) deviceSpecs)
          in if metrics \<noteq> [] then MergeMetrics dev metrics c else (c, None))"

text \<open>The state of a read: the cache, the transport and the snapshot passed to the update callback.\<close>

type_synonym 's read_state = "Cache \<times> 's \<times> DeviceState option"

definition all_matched :: "pendingUpdate list \<Rightarrow> Property list \<Rightarrow> bool" where
  "all_matched updates props \<longleftrightarrow>
     list_all (\<lambda>u. case find (\<lambda>p. p_EPC p = pu_epc u) props of Some p \<Rightarrow> p_EDT p = pu_edt u | None \<Rightarrow> False) updates"

fun verify_attempts ::
  "(float64 \<Rightarrow> int) \<Rightarrow> (float64 \<Rightarrow> float64) \<Rightarrow> 's transport_ops \<Rightarrow> (duration \<Rightarrow> 's \<Rightarrow> bool \<times> 's) \<Rightarrow> Device \<Rightarrow> eoj \<Rightarrow>
     pendingUpdate list \<Rightarrow> duration list \<Rightarrow> Cache \<times> 's \<Rightarrow> 's read_state" where
  "verify_attempts oor log10f tr wait dev eoj updates [] (c, s) = (c, s, None)"
| "verify_attempts oor log10f tr wait dev eoj updates (delay # delays) (c, s) =
     (case wait delay s of
        (cancelled, s1) \<Rightarrow>
          if cancelled then (c, s1, None)
          else (case GetProps tr (dv_IP dev) eoj (map pu_epc updates) s1 of
                  (Inl err, s2) \<Rightarrow> verify_attempts oor log10f tr wait dev eoj updates delays (c, s2)
                | (Inr props, s2) \<Rightarrow>
                    if all_matched updates props \<or> delays = [] then
                      (case mergePropsToCache oor log10f dev props (map pu_epc updates) c of (c1, snap) \<Rightarrow> (c1, s2, snap))
                    else verify_attempts oor log10f tr wait dev eoj updates delays (c, s2)))"

definition verify_delays :: "duration list" where
  "verify_delays = [1 * second, 3 * second, 3 * second]"

definition verifyStateUpdate ::
  "(float64 \<Rightarrow> int) \<Rightarrow> (float64 \<Rightarrow> float64) \<Rightarrow> 's transport_ops \<Rightarrow> (duration \<Rightarrow> 's \<Rightarrow> bool \<times> 's) \<Rightarrow> Device \<Rightarrow> eoj \<Rightarrow>
     pendingUpdate list \<Rightarrow> Cache \<times> 's \<Rightarrow> 's read_state" where
  "verifyStateUpdate oor log10f tr wait dev eoj updates cs =
     verify_attempts oor log10f tr wait dev eoj updates verify_delays cs"

definition readAndMergeProps ::
  "(float64 \<Rightarrow> int) \<Rightarrow> (float64 \<Rightarrow> float64) \<Rightarrow> 's transport_ops \<Rightarrow> Device \<Rightarrow> eoj \<Rightarrow> bytes \<Rightarrow> Cache \<times> 's \<Rightarrow> 's read_state" where
  "readAndMergeProps oor log10f tr dev eoj epcs = (\<lambda>(c, s).
     (case GetProps tr (dv_IP dev) eoj epcs s of
        (Inl err, s1) \<Rightarrow> (c, s1, None)
      | (Inr props, s1) \<Rightarrow> (case mergePropsToCache oor log10f dev props epcs c of (c1, snap) \<Rightarrow> (c1, s1, snap))))"

definition triggerStateUpdate ::
  "(float64 \<Rightarrow> int) \<Rightarrow> (float64 \<Rightarrow> float64) \<Rightarrow> 's transport_ops \<Rightarrow> ('s \<Rightarrow> bool) \<Rightarrow> (duration \<Rightarrow> 's \<Rightarrow> bool \<times> 's) \<Rightarrow>
     Device \<Rightarrow> duration \<Rightarrow> eoj \<Rightarrow> bytes \<Rightarrow> Cache \<times> 's \<Rightarrow> 's read_state" where
  "triggerStateUpdate oor log10f tr ctxErr wait dev delay eoj epcs = (\<lambda>(c, s).
     (case (if 0 < delay then wait delay s else (ctxErr s, s)) of
        (cancelled, s1) \<Rightarrow>
          if cancelled then (c, s1, None) else readAndMergeProps oor log10f tr dev eoj epcs (c, s1)))"

text \<open>What a started goroutine does, whichever it is.\<close>

definition run_task ::
  "(string \<Rightarrow> (byte \<times> byte \<times> byte \<times> byte) option) \<Rightarrow> (string \<Rightarrow> string) option \<Rightarrow>
     (float64 \<Rightarrow> int) \<Rightarrow> (float64 \<Rightarrow> float64) \<Rightarrow> 's transport_ops \<Rightarrow> ('s \<Rightarrow> bool) \<Rightarrow> (duration \<Rightarrow> 's \<Rightarrow> bool \<times> 's) \<Rightarrow>
     task \<Rightarrow> Cache \<times> 's \<Rightarrow> 's read_state" where
  "run_task v6 resolver oor log10f tr ctxErr wait task cs =
     (case task of
        StartReconcile dev eoj \<Rightarrow> doReconcile v6 resolver tr ctxErr dev eoj cs
      | VerifyUpdate dev eoj updates \<Rightarrow> verifyStateUpdate oor log10f tr wait dev eoj updates cs
      | ReadBack dev eoj epcs \<Rightarrow> triggerStateUpdate oor log10f tr ctxErr wait dev 0 eoj epcs cs)"

section \<open>Lemmas: what a handler may send\<close>

text \<open>What the map of writable properties allows: everything, when it is not known.\<close>

definition can_set :: "byte set option option \<Rightarrow> byte \<Rightarrow> bool" where
  "can_set writable epc \<longleftrightarrow> (case writable of None \<Rightarrow> True | Some None \<Rightarrow> False | Some (Some es) \<Rightarrow> epc \<in> es)"

lemma start_task_tr [simp]: "k_tr (start_task task st) = k_tr st"
  by (simp add: start_task_def)

lemma checkWritable_spec:
  "checkWritable now c dev eoj epc w st = (b, st') \<Longrightarrow> k_tr st' = k_tr st \<and> b = can_set w epc"
  by (auto simp: checkWritable_def can_set_def Let_def split: option.splits prod.splits if_splits)

text \<open>A service that keeps a condition \<open>ok\<close> as long as only allowed properties of one object are set.\<close>

locale set_service =
  fixes tr :: "'s transport_ops" and addr :: string and eoj :: eoj and allowed :: "byte \<Rightarrow> bool" and ok :: "'s \<Rightarrow> bool"
  assumes set_keeps: "allowed epc \<Longrightarrow> ok s \<Longrightarrow> SendSet tr addr eoj epc edt s = (r, s') \<Longrightarrow> ok s'"
    and seti_keeps: "allowed epc \<Longrightarrow> ok s \<Longrightarrow> SendSetI tr addr eoj epc edt s = (e, s') \<Longrightarrow> ok s'"
begin

lemma send_set_keeps:
  "allowed epc \<Longrightarrow> ok (k_tr st) \<Longrightarrow> send_set tr addr dev eoj epc edt onErr st = (b, st') \<Longrightarrow> ok (k_tr st')"
  by (auto simp: send_set_def intro: set_keeps split: prod.splits option.splits)

lemma set_and_verify_keeps:
  "allowed epc \<Longrightarrow> ok (k_tr st) \<Longrightarrow> ok (k_tr (set_and_verify tr addr dev eoj epc edt onErr us st))"
  using send_set_keeps by (auto simp: set_and_verify_def split: prod.splits)

lemma set_value_keeps: "allowed epc \<Longrightarrow> ok (k_tr st) \<Longrightarrow> ok (k_tr (set_value oor tr addr dev eoj epc v ms st))"
  by (auto simp: set_value_def intro: set_and_verify_keeps split: sum.splits)

lemma pre_set_keeps:
  "(m_PreSetEPC ms \<noteq> 0 \<Longrightarrow> allowed (m_PreSetEPC ms)) \<Longrightarrow> ok (k_tr st) \<Longrightarrow>
    pre_set oor tr addr eoj ms specs st = (r, st') \<Longrightarrow> ok (k_tr st')"
  by (auto simp: pre_set_def intro: set_keeps split: if_splits option.splits sum.splits prod.splits)

lemma execute_keeps:
  assumes "allowed (m_EPC ms)" "m_PreSetEPC ms \<noteq> 0 \<Longrightarrow> allowed (m_PreSetEPC ms)" "ok (k_tr st)"
  shows "ok (k_tr (executeWritableSet oor tr addr eoj dev ms specs kind payload st))"
proof -
  obtain r st1 where p: "pre_set oor tr addr eoj ms specs st = (r, st1)" by force
  have ok1: "ok (k_tr st1)" by (rule pre_set_keeps [OF assms(2,3) p])
  with assms(1) show ?thesis
    by (auto simp: executeWritableSet_def p intro: set_and_verify_keeps seti_keeps
        split: option.splits sum.splits prod.splits)
qed

lemma power_keeps:
  assumes "\<And>epc. can_set w epc \<Longrightarrow> allowed epc" "ok (k_tr st)"
  shows "ok (k_tr (handleClimatePower tr now c addr eoj dev payload w st))"
    and "ok (k_tr (handleLightPower tr now c addr eoj dev payload w st))"
    and "ok (k_tr (climate_mode_off tr now c addr eoj dev w st))"
proof -
  obtain b st1 where 1: "checkWritable now c dev eoj operationStatusEPC w st = (b, st1)" by force
  note s = checkWritable_spec [OF 1]
  then have "b \<Longrightarrow> ok (k_tr (set_and_verify tr addr dev eoj operationStatusEPC edt f us st1))" for edt f us
    using assms by (intro set_and_verify_keeps) auto
  with s assms(2) show "ok (k_tr (handleClimatePower tr now c addr eoj dev payload w st))"
    "ok (k_tr (handleLightPower tr now c addr eoj dev payload w st))"
    "ok (k_tr (climate_mode_off tr now c addr eoj dev w st))"
    by (auto simp: handleClimatePower_def handleLightPower_def climate_mode_off_def 1 Let_def split: option.splits)
qed

lemma mode_keeps:
  assumes "\<And>epc. can_set w epc \<Longrightarrow> allowed epc" "ok (k_tr st)"
  shows "ok (k_tr (handleClimateMode oor tr now c addr eoj dev payload cl specs w st))"
proof (cases cl)
  case (Some climate)
  obtain b1 st1 where 1: "checkWritable now c dev eoj operationStatusEPC w st = (b1, st1)" by force
  obtain b2 st2 where 2: "checkWritable now c dev eoj (c_ModeEPC climate) w st1 = (b2, st2)" by force
  obtain b3 st3 where 3: "send_set tr addr dev eoj operationStatusEPC [onStatus] [operationStatusEPC] st2 = (b3, st3)" by force
  note s1 = checkWritable_spec [OF 1] and s2 = checkWritable_spec [OF 2]
  have ok2: "ok (k_tr st1)" "ok (k_tr st2)" using s1 s2 assms(2) by auto
  have ok3: "b1 \<Longrightarrow> ok (k_tr st3)" using s1 assms(1) by (intro send_set_keeps [OF _ ok2(2) 3]) auto
  have "b1 \<Longrightarrow> b2 \<Longrightarrow> ok (k_tr (climate_mode_set oor tr addr eoj dev mode climate specs st3))" for mode
    using ok3 s2 assms(1)
    by (auto simp: climate_mode_set_def intro: set_and_verify_keeps split: option.splits sum.splits)
  with ok2 ok3 power_keeps(3) [OF assms] show ?thesis
    by (auto simp: handleClimateMode_def Some 1 2 3 Let_def)
qed (simp add: handleClimateMode_def assms)

lemma value_handlers_keep:
  assumes "\<And>epc. can_set w epc \<Longrightarrow> allowed epc" "ok (k_tr st)"
  shows "ok (k_tr (handleClimateTemperature oor tr now c addr eoj dev payload cl specs w st))"
    and "ok (k_tr (handleClimateFanMode oor tr now c addr eoj dev payload cl specs w st))"
    and "ok (k_tr (handleLightBrightness oor tr now c addr eoj dev payload lt specs w st))"
    and "ok (k_tr (handleLightEffect oor tr now c addr eoj dev payload lt specs w st))"
proof -
  have set: "checkWritable now c dev eoj epc w st = (b, st1) \<Longrightarrow> ok (k_tr st1) \<and> (b \<longrightarrow> ok (k_tr (set_value oor tr addr dev eoj epc v ms st1)))"
    for epc b st1 v ms
    using checkWritable_spec [of now c dev eoj epc w st b st1] assms by (auto intro: set_value_keeps)
  show "ok (k_tr (handleClimateTemperature oor tr now c addr eoj dev payload cl specs w st))"
    "ok (k_tr (handleClimateFanMode oor tr now c addr eoj dev payload cl specs w st))"
    "ok (k_tr (handleLightBrightness oor tr now c addr eoj dev payload lt specs w st))"
    "ok (k_tr (handleLightEffect oor tr now c addr eoj dev payload lt specs w st))"
    using set assms(2)
    by (auto simp: handleClimateTemperature_def handleClimateFanMode_def handleLightBrightness_def handleLightEffect_def
        Let_def split: option.splits prod.splits)
qed

end

text \<open>The transport of the program keeps its invariant.\<close>

context transport_service
begin

lemma sets_ok:
  "ok s \<Longrightarrow> SendSet tr addr eoj epc edt s = (r, s') \<Longrightarrow> ok s'"
  "ok s \<Longrightarrow> SendSetI tr addr eoj epc edt s = (e, s') \<Longrightarrow> ok s'"
  by (auto simp: SendSet_def SendSetI_def split: prod.splits sum.splits option.splits intro: next_ok send_ok fire_ok)

end

sublocale transport_service \<subseteq> sets: set_service tr addr eoj "\<lambda>_. True" ok for addr eoj
  by unfold_locales (rule sets_ok; assumption)+

text \<open>A transport that writes down every request, with any transaction ids and answers.\<close>

type_synonym sent = "string \<times> bytes"

definition recording ::
  "(sent list \<Rightarrow> 16 word) \<Rightarrow> (sent list \<Rightarrow> net_error + bytes) \<Rightarrow> (sent list \<Rightarrow> net_error option) \<Rightarrow> sent list transport_ops" where
  "recording tids answer failure =
     \<lparr>x_NextTID = (\<lambda>log. (tids log, log)),
      x_Send = (\<lambda>addr req tid log. (answer (log @ [(addr, req)]), log @ [(addr, req)])),
      x_FireAndForget = (\<lambda>addr req log. (failure (log @ [(addr, req)]), log @ [(addr, req)]))\<rparr>"

definition sets_only :: "string \<Rightarrow> eoj \<Rightarrow> (byte \<Rightarrow> bool) \<Rightarrow> sent \<Rightarrow> bool" where
  "sets_only addr eoj allowed snt \<longleftrightarrow>
     (\<exists>tid epc edt. allowed epc \<and> (snt = (addr, SetRequest tid eoj epc edt) \<or> snt = (addr, SetIRequest tid eoj epc edt)))"

lemma recording_service:
  assumes P: "\<And>x. sets_only addr eoj allowed x \<Longrightarrow> P x"
  shows "set_service (recording tids answer failure) addr eoj allowed (\<lambda>log. \<exists>sent. log = start @ sent \<and> list_all P sent)"
proof
  fix epc edt r e and s s' :: "sent list"
  assume a: "allowed epc" "\<exists>sent. s = start @ sent \<and> list_all P sent"
  have allows: "P (addr, SetRequest (tids s) eoj epc edt)" "P (addr, SetIRequest (tids s) eoj epc edt)"
    by (rule P, use a(1) in \<open>auto simp: sets_only_def\<close>)+
  have grow: "\<exists>sent. s @ [x] = start @ sent \<and> list_all P sent" if "P x" for x
    using a(2) that by auto
  show "\<exists>sent. s' = start @ sent \<and> list_all P sent"
    if send: "SendSet (recording tids answer failure) addr eoj epc edt s = (r, s')"
  proof -
    have "s' = s @ [(addr, SetRequest (tids s) eoj epc edt)]"
      using send by (auto simp: SendSet_def recording_def split: sum.splits option.splits prod.splits)
    then show ?thesis using grow [OF allows(1)] by simp
  qed
  show "\<exists>sent. s' = start @ sent \<and> list_all P sent"
    if send: "SendSetI (recording tids answer failure) addr eoj epc edt s = (e, s')"
  proof -
    have "s' = s @ [(addr, SetIRequest (tids s) eoj epc edt)]"
      using send by (auto simp: SendSetI_def recording_def)
    then show ?thesis using grow [OF allows(2)] by simp
  qed
qed

interpretation log: set_service "recording tids answer failure" addr eoj allowed
    "\<lambda>log. \<exists>sent. log = start @ sent \<and> list_all (sets_only addr eoj allowed) sent"
  for tids answer failure addr eoj allowed start
  by (rule recording_service)

text \<open>The properties of a device that a command may set: those of its map of writable properties, and
  the pre-sets of their metrics; all of them, when the map is not known.\<close>

definition settable :: "Cache \<Rightarrow> Device \<Rightarrow> byte \<Rightarrow> bool" where
  "settable c dev epc \<longleftrightarrow>
     can_set (GetWritableEPCs dev c) epc
     \<or> list_ex (\<lambda>ms. m_PreSetEPC ms = epc \<and> can_set (GetWritableEPCs dev c) (m_EPC ms)) (specs_of dev c)"

text \<open>Every message of the three kinds keeps what allowed SETs of the addressed device keep.\<close>

definition message_keeps ::
  "'s transport_ops \<Rightarrow> Device list \<Rightarrow> Cache \<Rightarrow> string \<Rightarrow> ('s \<Rightarrow> bool) \<Rightarrow> ('s command \<Rightarrow> 's command) \<Rightarrow> bool" where
  "message_keeps tr devices c topic ok h \<longleftrightarrow>
     ((\<forall>dev eoj. dev \<in> set devices \<and> split_on (CHR ''/'') topic ! 1 = dv_Name dev \<and> GetDeviceEOJ dev c = Some eoj
         \<longrightarrow> set_service tr (device_addr dev) eoj (settable c dev) ok)
      \<longrightarrow> (\<forall>st. ok (k_tr st) \<longrightarrow> ok (k_tr (h st))))"

lemma attr_message_keeps:
  assumes "addressed_attr kind devices c topic payload = Some (dev, eoj, attr, p)"
  shows "dev \<in> set devices \<and> split_on (CHR ''/'') topic ! 1 = dv_Name dev \<and> GetDeviceEOJ dev c = Some eoj"
  using assms
  by (auto simp: addressed_attr_def attr_topic_def deviceByName_def Let_def find_Some_iff
      split: if_splits option.splits)

lemma climate_message_keeps: "message_keeps tr devices c topic ok (handleClimateMessage oor tr now devices c topic payload)"
proof (cases "addressed_attr ''climate'' devices c topic payload")
  case (Some x)
  then obtain dev eoj attr p where a: "addressed_attr ''climate'' devices c topic payload = Some (dev, eoj, attr, p)"
    by (metis prod_cases4)
  have "ok (k_tr (handleClimateMessage oor tr now devices c topic payload st))"
    if svc: "set_service tr (device_addr dev) eoj (settable c dev) ok" and st: "ok (k_tr st)" for st
  proof -
    have guard: "\<And>epc. can_set (GetWritableEPCs dev c) epc \<Longrightarrow> settable c dev epc" by (simp add: settable_def)
    show ?thesis
      unfolding handleClimateMessage_def a option.case prod.case Let_def
      using set_service.mode_keeps [OF svc guard st] set_service.value_handlers_keep(1,2) [OF svc guard st]
        set_service.power_keeps(1) [OF svc guard st] st by simp
  qed
  with attr_message_keeps [OF a] show ?thesis unfolding message_keeps_def by blast
qed (simp add: message_keeps_def handleClimateMessage_def)

lemma light_message_keeps: "message_keeps tr devices c topic ok (handleLightMessage oor tr now devices c topic payload)"
proof (cases "addressed_attr ''light'' devices c topic payload")
  case (Some x)
  then obtain dev eoj attr p where a: "addressed_attr ''light'' devices c topic payload = Some (dev, eoj, attr, p)"
    by (metis prod_cases4)
  have "ok (k_tr (handleLightMessage oor tr now devices c topic payload st))"
    if svc: "set_service tr (device_addr dev) eoj (settable c dev) ok" and st: "ok (k_tr st)" for st
  proof -
    have guard: "\<And>epc. can_set (GetWritableEPCs dev c) epc \<Longrightarrow> settable c dev epc" by (simp add: settable_def)
    show ?thesis
      unfolding handleLightMessage_def a option.case prod.case Let_def
      using set_service.value_handlers_keep(3,4) [OF svc guard st] set_service.power_keeps(2) [OF svc guard st] st by simp
  qed
  with attr_message_keeps [OF a] show ?thesis unfolding message_keeps_def by blast
qed (simp add: message_keeps_def handleLightMessage_def)

lemma find_mem: "find P xs = Some x \<Longrightarrow> x \<in> set xs \<and> P x"
  by (auto simp: find_Some_iff)

lemma writable_message_keeps: "message_keeps (tr :: 's transport_ops) devices c topic ok (handleWritableMessage oor tr now devices c topic payload)"
  unfolding message_keeps_def
proof (intro impI allI)
  fix st :: "'s command"
  assume svc: "\<forall>dev eoj. dev \<in> set devices \<and> split_on (CHR ''/'') topic ! 1 = dv_Name dev \<and> GetDeviceEOJ dev c = Some eoj
      \<longrightarrow> set_service tr (device_addr dev) eoj (settable c dev) ok" and st: "ok (k_tr st)"
  have "ok (k_tr (case checkWritable now c dev eoj (m_EPC ms) (GetWritableEPCs dev c) st of
          (ok, st1) \<Rightarrow>
            if \<not> ok then st1
            else if climate_HandlesEPC (GetDeviceClimate dev c) (m_EPC ms) then st1
            else if light_HandlesEPC (GetDeviceLight dev c) (m_EPC ms) then st1
            else if m_ExcludeSet ms then st1
            else executeWritableSet oor tr (device_addr dev) eoj dev ms specs kind (trim_space payload) st1))"
    if topic: "entity_topic topic = Some (name, kind, metric)" and dev: "deviceByName devices name = Some dev"
      and eoj: "GetDeviceEOJ dev c = Some eoj" and specs: "GetDeviceSpecs dev c = Some specs"
      and ms: "FindMetricSpecByName specs metric = Some ms" for name kind metric dev eoj specs ms
  proof -
    obtain b st1 where 1: "checkWritable now c dev eoj (m_EPC ms) (GetWritableEPCs dev c) st = (b, st1)" by force
    note g = checkWritable_spec [OF 1]
    have "split_on (CHR ''/'') topic ! 1 = name" using topic by (auto simp: entity_topic_def Let_def split: if_splits)
    then have s: "set_service tr (device_addr dev) eoj (settable c dev) ok"
      using svc [rule_format, of dev eoj] eoj find_mem [OF dev [unfolded deviceByName_def]] by simp
    have "ms \<in> set (specs_of dev c)" using FindMetricSpecByName_Some [OF ms] specs by (simp add: specs_of_def)
    then have "b \<Longrightarrow> settable c dev (m_EPC ms) \<and> settable c dev (m_PreSetEPC ms)"
      using g by (auto simp: settable_def list_ex_iff)
    then have "b \<Longrightarrow> ok (k_tr (executeWritableSet oor tr (device_addr dev) eoj dev ms specs kind (trim_space payload) st1))"
      using g st by (intro set_service.execute_keeps [OF s]) auto
    with g st show ?thesis by (simp add: 1)
  qed
  then show "ok (k_tr (handleWritableMessage oor tr now devices c topic payload st))"
    using st by (auto simp: handleWritableMessage_def Let_def split: option.splits)
qed

section \<open>Properties\<close>

text \<open>A request that a message on a topic may cause.\<close>

definition addressed_request :: "Device list \<Rightarrow> Cache \<Rightarrow> string \<Rightarrow> sent \<Rightarrow> bool" where
  "addressed_request devices c topic x \<longleftrightarrow>
     (\<exists>dev eoj. dev \<in> set devices \<and> split_on (CHR ''/'') topic ! 1 = dv_Name dev \<and> GetDeviceEOJ dev c = Some eoj
        \<and> sets_only (device_addr dev) eoj (settable c dev) x)"

text \<open>C11: no message on a command topic makes the program set a property that is not writable: every
  request it sends is a SET to the device that the topic names, at its address and with its object
  code, of a property in the device's map of writable properties or of the pre-set of such a
  property (of any property, while the map is not known). This holds whatever the device answers.\<close>

theorem commands_set_only_writable:
  assumes "h \<in> {handleClimateMessage, handleLightMessage, handleWritableMessage}"
  shows "\<exists>sent. k_tr (h oor (recording tids answer failure) now devices c topic payload st) = k_tr st @ sent
    \<and> list_all (addressed_request devices c topic) sent"
proof -
  let ?ok = "\<lambda>log. \<exists>sent. log = k_tr st @ sent \<and> list_all (addressed_request devices c topic) sent"
  have keeps: "message_keeps (recording tids answer failure) devices c topic ?ok
      (h oor (recording tids answer failure) now devices c topic payload)"
    using assms by (elim insertE emptyE)
      (simp_all only: climate_message_keeps light_message_keeps writable_message_keeps)
  have svc: "set_service (recording tids answer failure) (device_addr dev) eoj (settable c dev) ?ok"
    if "dev \<in> set devices" "split_on (CHR ''/'') topic ! 1 = dv_Name dev" "GetDeviceEOJ dev c = Some eoj" for dev eoj
    using that by (intro recording_service) (unfold addressed_request_def, blast)
  have start: "?ok (k_tr st)" by simp
  from keeps svc have "\<forall>st'. ?ok (k_tr st') \<longrightarrow> ?ok (k_tr (h oor (recording tids answer failure) now devices c topic payload st'))"
    unfolding message_keeps_def by blast
  with start show ?thesis by blast
qed

text \<open>A device with a power and a mode property.\<close>

definition mode_metric :: MetricSpec where
  "mode_metric = zero_metric\<lparr>m_EPC := 0xB0, m_Name := ''mode'', m_Size := 1, m_Scale := Fin 1\<rparr>"

definition ac_device :: Device where
  "ac_device = \<lparr>dv_Name = ''ac'', dv_IP = ''h'', dv_Class = [], dv_Manufacturer = [], dv_Model = [], dv_Labels = [],
     dv_ScrapeInterval = []\<rparr>"

definition ac_climate :: ClimateSpec where
  "ac_climate = \<lparr>c_ModeEPC = 0xB0, c_TemperatureEPC = 0xB3, c_CurrentTemperatureEPC = 0xBB, c_FanModeEPC = 0,
     c_MinTemp = Fin 16, c_MaxTemp = Fin 30, c_TempStep = Fin 1, c_Modes = [(''cool'', Some 0x42)], c_FanModes = []\<rparr>"

definition ac_cache :: "byte set option \<Rightarrow> Cache" where
  "ac_cache w =
     (case w of None \<Rightarrow> id | Some es \<Rightarrow> SetWritableEPCs ac_device (Some es))
       (SetDeviceClimate ac_device (Some ac_climate)
         (SetDeviceSpecs ac_device [mode_metric] (SetDeviceEOJ ac_device (1, 0x30, 1) NewCache)))"

definition idle :: "sent list command" where
  "idle = \<lparr>k_tr = [], k_rec = None, k_tasks = []\<rparr>"

definition acknowledging :: "sent list transport_ops" where
  "acknowledging = recording (\<lambda>log. 7)
     (\<lambda>log. Inr [0x10, 0x81, 0, 7, 1, 0x30, 1, 5, 0xFF, 1, 0x71, 1, 0x80, 0]) (\<lambda>log. None)"

theorem commands_set_only_writable_witness:
  "\<exists>sent. k_tr (handleClimateMessage (\<lambda>_. 0) acknowledging (\<lambda>_. 0) [ac_device] (ac_cache (Some {0x80, 0xB0}))
       ''e/ac/climate/mode/set'' ''cool'' idle) = sent
    \<and> list_all (addressed_request [ac_device] (ac_cache (Some {0x80, 0xB0})) ''e/ac/climate/mode/set'') sent"
proof -
  have "handleClimateMessage \<in> {handleClimateMessage :: (float64 \<Rightarrow> int) \<Rightarrow> sent list transport_ops \<Rightarrow> _, handleLightMessage, handleWritableMessage}"
    by simp
  from commands_set_only_writable [OF this, where st = idle] show ?thesis by (simp add: acknowledging_def idle_def)
qed

text \<open>A device that has taken over the setting, as far as a read can tell.\<close>

definition reports :: "'s transport_ops \<Rightarrow> string \<Rightarrow> eoj \<Rightarrow> pendingUpdate list \<Rightarrow> bool" where
  "reports tr ip eoj updates \<longleftrightarrow>
     (\<forall>s. \<exists>props. fst (GetProps tr ip eoj (map pu_epc updates) s) = Inr props \<and> all_matched updates props)"

lemma verify_first:
  assumes "reports tr (dv_IP dev) eoj updates" "\<not> fst (wait second s)"
  shows "\<exists>props. all_matched updates props \<and>
    fst (verifyStateUpdate oor log10f tr wait dev eoj updates (c, s))
      = fst (mergePropsToCache oor log10f dev props (map pu_epc updates) c)"
proof -
  obtain s1 where w: "wait second s = (False, s1)" using assms(2) by (metis prod.collapse)
  obtain props s2 where g: "GetProps tr (dv_IP dev) eoj (map pu_epc updates) s1 = (Inr props, s2)" "all_matched updates props"
    using assms(1) unfolding reports_def by (metis prod.collapse)
  then show ?thesis
    by (intro exI [of _ props]) (simp add: verifyStateUpdate_def verify_delays_def w split: prod.splits)
qed

text \<open>C12: a command that takes effect shows in the cache. If a device reports the data that was set when
  it is read again, then, unless the program stops first, the read-back of a SET leaves in the cache
  the value that decoding the data gives, for each metric of a set property that has no multiplier
  property. It supposes that the names of the device's metrics are distinct.\<close>

theorem verified_value_cached:
  assumes "reports tr (dv_IP dev) eoj updates" "\<not> fst (wait second s)"
    and "cache_ok c" "GetDeviceSpecs dev c = Some specs" "distinct (map m_Name specs)" "m \<in> set specs"
    and "\<lparr>pu_epc = m_EPC m, pu_edt = edt\<rparr> \<in> set updates" "edt \<noteq> []"
    and "m_MultiplierEPC m = 0" "parseEDTWithReason oor log10f edt m = Inr v"
  shows "\<exists>ms. snd (snd (snd (Get t dev (fst (verifyStateUpdate oor log10f tr wait dev eoj updates (c, s)))))) = Some ms
    \<and> map_of ms (m_Name m) = Some \<lparr>mv_Value = v, mv_Type = m_Type m, mv_EnumLabel = enum_label oor m v\<rparr>"
proof -
  obtain props where p: "all_matched updates props"
    and c': "fst (verifyStateUpdate oor log10f tr wait dev eoj updates (c, s))
      = fst (mergePropsToCache oor log10f dev props (map pu_epc updates) c)"
    using verify_first [OF assms(1), where wait = wait and s = s, OF assms(2)] by blast
  let ?ms = "filter (\<lambda>ms. m_EPC ms \<in> set (map pu_epc updates)) specs"
  let ?parsed = "ParsePropsToMetrics oor log10f props ?ms"
  have "case find (\<lambda>p. p_EPC p = m_EPC m) props of Some p \<Rightarrow> p_EDT p = edt | None \<Rightarrow> False"
    using bspec [OF p [unfolded all_matched_def list_all_iff] assms(7)] by (simp split: option.splits)
  then obtain q where "find (\<lambda>p. p_EPC p = m_EPC m) props = Some q" "p_EDT q = edt" by (auto split: option.splits)
  then have "find_prop props (m_EPC m) = Some edt"
    using assms(8) by (induction props) (auto simp: find_prop_def split: if_splits)
  moreover have "m \<in> set ?ms" using assms(6,7) by force
  moreover have "distinct (map m_Name ?ms)" using assms(5) by (rule distinct_map_filter)
  ultimately have parsed: "map_of ?parsed (m_Name m) = Some \<lparr>mv_Value = v, mv_Type = m_Type m, mv_EnumLabel = enum_label oor m v\<rparr>"
    using parsed_metric [of ?ms m props edt oor log10f v] assms(9,10) by (simp add: apply_multiplier_def)
  then have "?parsed \<noteq> []" by auto
  then have "fst (mergePropsToCache oor log10f dev props (map pu_epc updates) c) = fst (MergeMetrics dev ?parsed c)"
    using assms(4) by (simp add: mergePropsToCache_def Let_def)
  with merge_then_get [OF assms(3) ParsePropsToMetrics_ok parsed] show ?thesis unfolding c' by simp
qed

text \<open>A climate mode that the specification does not know still turns the device on: the request for
  property 0x80 is sent before the mode is looked up, nothing else is sent, and no read-back follows.\<close>

theorem unknown_mode_turns_on:
  assumes "go_lower payload \<noteq> ''off''" "\<nexists>raw. map_of (c_Modes cl) (go_lower payload) = Some (Some raw)"
    and "can_set w 0x80" "can_set w (c_ModeEPC cl)" "w \<noteq> None"
    and "snd (fst (SendSet tr addr eoj 0x80 [0x30] (k_tr st))) = None"
  shows "handleClimateMode oor tr now c addr eoj dev payload (Some cl) specs w st
    = st\<lparr>k_tr := snd (SendSet tr addr eoj 0x80 [0x30] (k_tr st))\<rparr>"
proof -
  have guard: "checkWritable now c dev eoj epc w st = (can_set w epc, st)" for epc st
    using assms(5) by (auto simp: checkWritable_def can_set_def split: option.splits)
  have unknown: "climate_mode_set oor tr addr eoj dev (go_lower payload) cl specs s = s" for s
    using assms(2) by (auto simp: climate_mode_set_def split: option.splits)
  obtain r s1 where "SendSet tr addr eoj 0x80 [0x30] (k_tr st) = ((r, None), s1)"
    using assms(6) by (metis prod.collapse)
  with assms(1,3,4) show ?thesis by (simp add: handleClimateMode_def Let_def guard send_set_def unknown)
qed

text \<open>The pre-set of a metric is sent even if the payload turns out to be invalid.\<close>

lemma invalid_payload_still_presets:
  assumes "m_PreSetEPC ms \<noteq> 0" "FindMetricSpecByEPC specs (m_PreSetEPC ms) = Some preMs"
    and "EncodeValueToEDT oor (f_of_int (m_PreSetValue ms)) preMs = Inr preEDT" "entity_value ms kind payload = None"
  shows "executeWritableSet oor tr addr eoj dev ms specs kind payload st
    = st\<lparr>k_tr := snd (SendSet tr addr eoj (m_PreSetEPC ms) preEDT (k_tr st))\<rparr>"
  using assms by (simp add: executeWritableSet_def pre_set_def split: prod.splits)

text \<open>Under a topic prefix of two levels, no command reaches a device.\<close>

lemma nested_prefix_ignored:
  assumes "CHR ''/'' \<notin> set p \<union> set q \<union> set name \<union> set kind \<union> set attr" "name \<noteq> kind"
  shows "attr_topic kind (p @ ''/'' @ q @ ''/'' @ name @ ''/'' @ kind @ ''/'' @ attr @ ''/set'') = None"
    and "entity_topic (p @ ''/'' @ q @ ''/'' @ name @ ''/'' @ kind @ ''/'' @ attr @ ''/set'') = None"
proof -
  have "split_on (CHR ''/'') (p @ ''/'' @ q @ ''/'' @ name @ ''/'' @ kind @ ''/'' @ attr @ ''/set'')
      = [p, q, name, kind, attr, ''set'']"
    using assms(1) by (simp add: split_on_append split_on_plain)
  then show "attr_topic kind (p @ ''/'' @ q @ ''/'' @ name @ ''/'' @ kind @ ''/'' @ attr @ ''/set'') = None"
    "entity_topic (p @ ''/'' @ q @ ''/'' @ name @ ''/'' @ kind @ ''/'' @ attr @ ''/set'') = None"
    using assms(2) by (simp_all add: attr_topic_def entity_topic_def)
qed

theorem unknown_mode_turns_on_witness:
  "k_tr (handleClimateMode (\<lambda>_. 0) acknowledging (\<lambda>_. 0) NewCache ''h:3610'' (1, 0x30, 1) ac_device ''warm''
      (Some ac_climate) [mode_metric] (Some (Some {0x80, 0xB0})) idle)
    = [(''h:3610'', SetRequest 7 (1, 0x30, 1) 0x80 [0x30])]"
proof -
  have low: "go_lower ''warm'' = ''warm''" by (simp add: go_case_ascii is_ascii_def ascii_lower_def)
  have send: "SendSet acknowledging ''h:3610'' (1, 0x30, 1) 0x80 [0x30] (k_tr idle)
      = ((Some [0x10, 0x81, 0, 7, 1, 0x30, 1, 5, 0xFF, 1, 0x71, 1, 0x80, 0], None),
         [(''h:3610'', SetRequest 7 (1, 0x30, 1) 0x80 [0x30])])"
    by (simp add: SendSet_def acknowledging_def recording_def idle_def ParseSetRes_def parseFrame_def)
  have "handleClimateMode (\<lambda>_. 0) acknowledging (\<lambda>_. 0) NewCache ''h:3610'' (1, 0x30, 1) ac_device ''warm''
      (Some ac_climate) [mode_metric] (Some (Some {0x80, 0xB0})) idle
    = idle\<lparr>k_tr := snd (SendSet acknowledging ''h:3610'' (1, 0x30, 1) 0x80 [0x30] (k_tr idle))\<rparr>"
    by (rule unknown_mode_turns_on) (simp_all add: low send can_set_def ac_climate_def)
  then show ?thesis by (simp add: send)
qed

text \<open>A device that always answers with mode 0x42.\<close>

definition cooling :: "unit transport_ops" where
  "cooling = \<lparr>x_NextTID = (\<lambda>s. (7, s)),
     x_Send = (\<lambda>addr req tid s. (Inr [0x10, 0x81, 0, 7, 1, 0x30, 1, 5, 0xFF, 1, 0x72, 1, 0xB0, 1, 0x42], s)),
     x_FireAndForget = (\<lambda>addr req s. (None, s))\<rparr>"

theorem verified_value_cached_witness:
  "\<exists>ms. snd (snd (snd (Get 0 ac_device (fst (verifyStateUpdate (\<lambda>_. 0) (\<lambda>_. NaN) cooling (\<lambda>_ s. (False, s)) ac_device
       (1, 0x30, 1) [\<lparr>pu_epc = 0xB0, pu_edt = [0x42]\<rparr>] (ac_cache None, ())))))) = Some ms
    \<and> map_of ms ''mode'' = Some \<lparr>mv_Value = Fin 66, mv_Type = [], mv_EnumLabel = []\<rparr>"
proof -
  let ?us = "[\<lparr>pu_epc = 0xB0, pu_edt = [0x42]\<rparr>]"
  have "fst (GetProps cooling ''h'' (1, 0x30, 1) [0xB0] s) = Inr [\<lparr>p_EPC = 0xB0, p_PDC = 1, p_EDT = [0x42]\<rparr>]" for s
    by (simp add: GetProps_def getPropsAdaptive.simps SendGet_def cooling_def ParseGetRes_def parseFrame_def
        isGetSNA_def missingEPCs_def)
  then have rep: "reports cooling (dv_IP ac_device) (1, 0x30, 1) ?us"
    by (simp add: reports_def ac_device_def all_matched_def)
  have "parseInteger [0x42] False = Inr 66" by (simp add: parseInteger_narrow)
  then have val: "parseEDTWithReason (\<lambda>_. 0) (\<lambda>_. NaN) [0x42] mode_metric = Inr (Fin 66)"
    by (simp add: parseEDTWithReason_def mode_metric_def zero_metric_def go_slice_def wrap64_def scale_value_def
        f_of_int_small f_mul_def f_less_def round64_numeral)
  have specs: "cache_ok (ac_cache None)" "GetDeviceSpecs ac_device (ac_cache None) = Some [mode_metric]"
    by (simp_all add: ac_cache_def cache_ok_def SetDeviceClimate_def SetDeviceSpecs_def SetDeviceEOJ_def NewCache_def GetDeviceSpecs_def)
  have "\<exists>ms. snd (snd (snd (Get 0 ac_device (fst (verifyStateUpdate (\<lambda>_. 0) (\<lambda>_. NaN) cooling (\<lambda>_ s. (False, s)) ac_device
       (1, 0x30, 1) ?us (ac_cache None, ())))))) = Some ms
    \<and> map_of ms (m_Name mode_metric) = Some \<lparr>mv_Value = Fin 66, mv_Type = m_Type mode_metric,
        mv_EnumLabel = enum_label (\<lambda>_. 0) mode_metric (Fin 66)\<rparr>"
    by (rule verified_value_cached [OF rep _ specs _ _ _ _ _ val]) (simp_all add: mode_metric_def zero_metric_def)
  then show ?thesis by (simp add: mode_metric_def zero_metric_def enum_label_def)
qed

end
