(* ===== verification/Discovery.thy ===== *)
theory Discovery
  imports Cache GoNumber GoTime "HOL-Library.List_Lexorder" "HOL-Library.Char_ord"
begin

text \<open>
  \<open>internal/mqtt/discovery.go\<close>: the Home Assistant discovery messages. What the program hands to the
  MQTT client is a list of messages in the order of the calls; a message's payload is the Go value
  given to \<open>json.Marshal\<close> (whose text is left to the JSON library), and a value that it refuses - a
  map or structure with an infinite or undefined float - gives no message. Waiting for the broker's
  acknowledgement changes nothing but log lines, except for the bridge. The title casing of \<open>golang.org/x/text\<close> is the
  parameter \<open>title\<close>.
\<close>

section \<open>Messages\<close>

record haDevice =
  hd_Identifiers :: "string list"
  hd_Name :: string
  hd_Manufacturer :: string
  hd_Model :: string
  hd_SWVersion :: string
  hd_ViaDevice :: string

record haDiscoveryPayload =
  hp_Name :: string
  hp_UniqueID :: string
  hp_StateTopic :: string
  hp_ValueTemplate :: string
  hp_DeviceClass :: string
  hp_StateClass :: string
  hp_UnitOfMeasurement :: string
  hp_Options :: "string list"
  hp_AvailabilityTopic :: string
  hp_ExpireAfter :: int
  hp_ForceUpdate :: bool
  hp_SuggestedDisplayPrecision :: "int option"
  hp_Device :: haDevice

record haClimateDiscoveryPayload =
  hc_Name :: string
  hc_UniqueID :: string
  hc_ModeCommandTopic :: string
  hc_ModeStateTopic :: string
  hc_TemperatureCommandTopic :: string
  hc_TemperatureStateTopic :: string
  hc_CurrentTemperatureTopic :: string
  hc_PowerCommandTopic :: string
  hc_FanModeCommandTopic :: string
  hc_FanModeStateTopic :: string
  hc_MinTemp :: float64
  hc_MaxTemp :: float64
  hc_TempStep :: float64
  hc_Precision :: float64
  hc_AvailabilityTopic :: string
  hc_ExpireAfter :: int
  hc_Device :: haDevice
  hc_Modes :: "string list"
  hc_FanModes :: "string list"

record haLightDiscoveryPayload =
  hl_Name :: string
  hl_UniqueID :: string
  hl_CommandTopic :: string
  hl_StateTopic :: string
  hl_BrightnessCommandTopic :: string
  hl_BrightnessStateTopic :: string
  hl_BrightnessScale :: int
  hl_EffectCommandTopic :: string
  hl_EffectStateTopic :: string
  hl_EffectList :: "string list"
  hl_AvailabilityTopic :: string
  hl_ExpireAfter :: int
  hl_Device :: haDevice

text \<open>The values of a \<open>map[string]any\<close> that the package builds.\<close>

datatype any_value = AStr string | AInt int | AFloat float64 | AStrings "string list" | ADevice haDevice

datatype payload =
    Plain string
  | SensorConfig haDiscoveryPayload
  | ClimateConfig haClimateDiscoveryPayload
  | LightConfig haLightDiscoveryPayload
  | Object "(string, any_value) gomap"

record message =
  msg_topic :: string
  msg_retained :: bool
  msg_payload :: payload

definition finite_float :: "float64 \<Rightarrow> bool" where
  "finite_float v \<longleftrightarrow> v \<noteq> NaN \<and> \<not> is_inf v"

text \<open>Whether \<open>json.Marshal\<close> accepts a payload.\<close>

definition marshals :: "payload \<Rightarrow> bool" where
  "marshals p =
     (case p of
        ClimateConfig c \<Rightarrow> finite_float (hc_MinTemp c) \<and> finite_float (hc_MaxTemp c) \<and> finite_float (hc_TempStep c)
          \<and> finite_float (hc_Precision c)
      | Object kvs \<Rightarrow> list_all (\<lambda>(k, v). case v of AFloat f \<Rightarrow> finite_float f | _ \<Rightarrow> True) kvs
      | _ \<Rightarrow> True)"

definition publish_json :: "string \<Rightarrow> bool \<Rightarrow> payload \<Rightarrow> message list" where
  "publish_json topic retained p =
     (if marshals p then [\<lparr>msg_topic = topic, msg_retained = retained, msg_payload = p\<rparr>] else [])"

definition publish_plain :: "string \<Rightarrow> bool \<Rightarrow> string \<Rightarrow> message" where
  "publish_plain topic retained text = \<lparr>msg_topic = topic, msg_retained = retained, msg_payload = Plain text\<rparr>"

text \<open>The publisher: its configuration, the key of the discovery last published per device, and how
  often discovery was put off because the identity of the device is not known.\<close>

record Publisher =
  pub_topicPrefix :: string
  pub_discoveryPrefix :: string
  pub_swVersion :: string
  pub_published :: "string \<rightharpoonup> string"
  pub_infoSkips :: "string \<rightharpoonup> int"

text \<open>The topic of an entity's configuration, \<open><discovery prefix>/<kind>/<object id>/config\<close>.\<close>

definition config_topic :: "Publisher \<Rightarrow> string \<Rightarrow> string \<Rightarrow> string" where
  "config_topic p kind objectID = pub_discoveryPrefix p @ ''/'' @ kind @ ''/'' @ objectID @ ''/config''"

section \<open>Names and times\<close>

fun replace_double_space :: "string \<Rightarrow> string" where
  "replace_double_space (CHR '' '' # CHR '' '' # s) = CHR '' '' # replace_double_space s"
| "replace_double_space (c # s) = c # replace_double_space s"
| "replace_double_space [] = []"

definition friendlyName :: "(string \<Rightarrow> string) \<Rightarrow> string \<Rightarrow> string" where
  "friendlyName title name =
     replace_double_space (title (map (\<lambda>c. if c = CHR ''_'' then CHR '' '' else c) name))"

abbreviation minExpireAfterSeconds :: int where "minExpireAfterSeconds \<equiv> 300"

definition expireAfterFor :: "(float64 \<Rightarrow> int) \<Rightarrow> duration \<Rightarrow> int" where
  "expireAfterFor oor d =
     (let secs = f_to_int64 oor (f_ceil (f_mul (duration_seconds d) (Fin (5 / 2))))
      in if secs < minExpireAfterSeconds then minExpireAfterSeconds else secs)"

text \<open>The greatest interval among the metrics of some properties.\<close>

definition slowestMetricInterval :: "MetricSpec list \<Rightarrow> bytes \<Rightarrow> duration" where
  "slowestMetricInterval metricSpecs epcs =
     fold (\<lambda>epc slowest.
       if epc = 0 then slowest
       else fold (\<lambda>m slowest. if m_EPC m = epc \<and> slowest < m_ScrapeInterval m then m_ScrapeInterval m else slowest)
              metricSpecs slowest) epcs 0"

section \<open>Lists of options\<close>

text \<open>The keys of a map: those of \<open>order\<close> first, the others in the order of the iteration.\<close>

definition ordered_keys :: "string list \<Rightarrow> (string, 'v) gomap \<Rightarrow> string list" where
  "ordered_keys order m =
     filter (\<lambda>label. map_of m label \<noteq> None) order @ filter (\<lambda>label. label \<notin> set order) (map fst m)"

definition selectOptionsOrdered :: "MetricSpec \<Rightarrow> string list option" where
  "selectOptionsOrdered ms =
     (if m_Name ms \<noteq> ''air_flow_direction_horizontal'' then None
      else Some (ordered_keys [''uppermost'', ''upper_mid'', ''middle'', ''lower_mid'', ''lowermost''] (m_ReverseEnum ms)))"

definition select_options :: "MetricSpec \<Rightarrow> string list" where
  "select_options ms =
     (case selectOptionsOrdered ms of Some options \<Rightarrow> options | None \<Rightarrow> sort (map fst (m_ReverseEnum ms)))"

definition fanModesFromSpec :: "MetricSpec list \<Rightarrow> ClimateSpec option \<Rightarrow> string list" where
  "fanModesFromSpec metricSpecs climate =
     (case climate of
        None \<Rightarrow> []
      | Some cl \<Rightarrow>
          if c_FanModeEPC cl = 0 then []
          else if 0 < length (c_FanModes cl) then c_FanModes cl
          else case find (\<lambda>m. m_EPC m = c_FanModeEPC cl) metricSpecs of
            None \<Rightarrow> []
          | Some m \<Rightarrow>
              if m_ReverseEnum m = [] then []
              else ordered_keys [''auto'', ''level_1'', ''level_2'', ''level_3'', ''level_4'', ''level_5'', ''level_6'',
                     ''level_7'', ''level_8''] (m_ReverseEnum m))"

definition climateModesList :: "(string, int option) gomap \<Rightarrow> string list" where
  "climateModesList modes = ordered_keys [''off'', ''auto'', ''cool'', ''heat'', ''dry'', ''fan_only''] modes"

section \<open>The messages of a device\<close>

definition wipeDeviceDiscovery :: "Publisher \<Rightarrow> Device \<Rightarrow> MetricSpec list \<Rightarrow> message list" where
  "wipeDeviceDiscovery p dev metricSpecs =
     concat (map (\<lambda>ms. map (\<lambda>entityType. publish_plain
         (config_topic p entityType (dv_Name dev @ ''_'' @ m_Name ms)) True [])
       [''sensor'', ''switch'', ''select'', ''number'']) metricSpecs)
     @ [publish_plain (config_topic p ''climate'' (dv_Name dev @ ''_climate'')) True [],
        publish_plain (config_topic p ''light'' (dv_Name dev @ ''_light'')) True []]"

definition sensor_class :: "MetricSpec \<Rightarrow> haDiscoveryPayload \<Rightarrow> haDiscoveryPayload" where
  "sensor_class ms p =
     (if m_HADeviceClass ms = ''enum'' \<and> 0 < length (m_Enum ms) then
        p\<lparr>hp_DeviceClass := ''enum'', hp_StateClass := [], hp_UnitOfMeasurement := [], hp_Options := map snd (m_Enum ms),
          hp_ValueTemplate := ''{{ value_json.'' @ m_Name ms @ ''_str | default(value_json.'' @ m_Name ms
            @ '' | default(None)) }}''\<rparr>
      else p)"

definition buildSensorPayload ::
  "(float64 \<Rightarrow> int) \<Rightarrow> (string \<Rightarrow> string) \<Rightarrow> MetricSpec \<Rightarrow> string \<Rightarrow> string \<Rightarrow> string \<Rightarrow> haDevice \<Rightarrow> haDiscoveryPayload" where
  "buildSensorPayload oor title ms objectID stateTopic availTopic device =
     (let p = sensor_class ms
            \<lparr>hp_Name = friendlyName title (m_Name ms), hp_UniqueID = ''echonetgo_'' @ objectID,
             hp_StateTopic = stateTopic,
             hp_ValueTemplate = ''{{ value_json.'' @ m_Name ms @ '' | default(None) }}'',
             hp_DeviceClass = (if m_HADeviceClass ms \<noteq> ''enum'' then m_HADeviceClass ms else []),
             hp_StateClass = m_HAStateClass ms, hp_UnitOfMeasurement = m_HAUnit ms, hp_Options = [],
             hp_AvailabilityTopic = availTopic, hp_ExpireAfter = expireAfterFor oor (m_ScrapeInterval ms),
             hp_ForceUpdate = True, hp_SuggestedDisplayPrecision = None, hp_Device = device\<rparr>
      in if m_HADeviceClass ms \<in> {''power'', ''energy'', ''temperature''}
         then p\<lparr>hp_SuggestedDisplayPrecision := Some 1\<rparr> else p)"

definition publishSensorDiscovery ::
  "(float64 \<Rightarrow> int) \<Rightarrow> (string \<Rightarrow> string) \<Rightarrow> Publisher \<Rightarrow> Device \<Rightarrow> haDevice \<Rightarrow> string \<Rightarrow> MetricSpec list \<Rightarrow> message list" where
  "publishSensorDiscovery oor title p dev device availTopic metricSpecs =
     concat (map (\<lambda>ms.
       let objectID = dv_Name dev @ ''_'' @ m_Name ms
       in publish_json (config_topic p ''sensor'' objectID) True
            (SensorConfig (buildSensorPayload oor title ms objectID
               (pub_topicPrefix p @ ''/'' @ dv_Name dev @ ''/state'') availTopic device))) metricSpecs)"

text \<open>The topics of a switch, select or number.\<close>

definition entity_base :: "Publisher \<Rightarrow> Device \<Rightarrow> string \<Rightarrow> MetricSpec \<Rightarrow> string" where
  "entity_base p dev entityType ms =
     pub_topicPrefix p @ ''/'' @ dv_Name dev @ ''/'' @ entityType @ ''/'' @ m_Name ms"

text \<open>The kind of entity of a metric among the writable ones; \<open>None\<close> when it gets none.\<close>

definition writable_entity ::
  "byte set \<Rightarrow> ClimateSpec option \<Rightarrow> LightSpec option \<Rightarrow> MetricSpec \<Rightarrow> string option" where
  "writable_entity writable climateSpec lightSpec ms =
     (if m_EPC ms \<notin> writable then None
      else if climate_HandlesEPC climateSpec (m_EPC ms) then None
      else if light_HandlesEPC lightSpec (m_EPC ms) then None
      else if WritableEntityType ms = [] then None else Some (WritableEntityType ms))"

definition number_limits :: "MetricSpec \<Rightarrow> float64 \<times> float64 \<times> float64" where
  "number_limits ms =
     (case m_NumberMin ms of Some v \<Rightarrow> v | None \<Rightarrow> Zero False,
      case m_NumberMax ms of Some v \<Rightarrow> v | None \<Rightarrow> if m_Size ms = 2 then Fin 65535 else Fin 255,
      if \<not> f_eq (m_Scale ms) (Zero False) \<and> \<not> f_eq (m_Scale ms) (Fin 1) then m_Scale ms else Fin 1)"

definition entity_config ::
  "(float64 \<Rightarrow> int) \<Rightarrow> (string \<Rightarrow> string) \<Rightarrow> Publisher \<Rightarrow> Device \<Rightarrow> haDevice \<Rightarrow> string \<Rightarrow> string \<Rightarrow> MetricSpec \<Rightarrow>
     (string, any_value) gomap" where
  "entity_config oor title p dev device availTopic entityType ms =
     [(''name'', AStr (friendlyName title (m_Name ms))),
      (''unique_id'', AStr (''echonetgo_'' @ dv_Name dev @ ''_'' @ m_Name ms)),
      (''command_topic'', AStr (entity_base p dev entityType ms @ ''/set'')),
      (''state_topic'', AStr (entity_base p dev entityType ms @ ''/state''))]
     @ (if entityType = ''select'' then [(''options'', AStrings (select_options ms))]
        else if entityType = ''number'' then
          (case number_limits ms of (minVal, maxVal, step) \<Rightarrow>
             [(''min'', AFloat minVal), (''max'', AFloat maxVal), (''step'', AFloat step)])
        else [])
     @ [(''availability_topic'', AStr availTopic),
        (''expire_after'', AInt (expireAfterFor oor (m_ScrapeInterval ms))),
        (''device'', ADevice device)]
     @ (if entityType = ''number'' \<and> m_HAUnit ms \<noteq> [] then [(''unit_of_measurement'', AStr (m_HAUnit ms))] else [])"

definition publishWritableDiscovery ::
  "(float64 \<Rightarrow> int) \<Rightarrow> (string \<Rightarrow> string) \<Rightarrow> Publisher \<Rightarrow> Device \<Rightarrow> haDevice \<Rightarrow> string \<Rightarrow> MetricSpec list \<Rightarrow> byte set \<Rightarrow>
     ClimateSpec option \<Rightarrow> LightSpec option \<Rightarrow> (string, MetricValue) gomap \<Rightarrow> message list" where
  "publishWritableDiscovery oor title p dev device availTopic metricSpecs writable climateSpec lightSpec metrics =
     concat (map (\<lambda>ms.
       if map_of metrics (m_Name ms) = None then []
       else case writable_entity writable climateSpec lightSpec ms of
         None \<Rightarrow> []
       | Some entityType \<Rightarrow>
           publish_json (config_topic p entityType (dv_Name dev @ ''_'' @ m_Name ms)) True
             (Object (entity_config oor title p dev device availTopic entityType ms))) metricSpecs)"

definition publishClimateDiscovery ::
  "(float64 \<Rightarrow> int) \<Rightarrow> (string \<Rightarrow> string) \<Rightarrow> Publisher \<Rightarrow> Device \<Rightarrow> haDevice \<Rightarrow> string \<Rightarrow> ClimateSpec \<Rightarrow> MetricSpec list \<Rightarrow>
     message list" where
  "publishClimateDiscovery oor title p dev device availTopic cl metricSpecs =
     (let base = pub_topicPrefix p @ ''/'' @ dv_Name dev @ ''/climate'';
          fan = (c_FanModeEPC cl \<noteq> 0);
          fans = fanModesFromSpec metricSpecs (Some cl)
      in publish_json (config_topic p ''climate'' (dv_Name dev @ ''_climate'')) True
           (ClimateConfig
             \<lparr>hc_Name = friendlyName title (dv_Name dev), hc_UniqueID = ''echonetgo_'' @ dv_Name dev @ ''_climate'',
              hc_ModeCommandTopic = base @ ''/mode/set'', hc_ModeStateTopic = base @ ''/mode/state'',
              hc_TemperatureCommandTopic = base @ ''/temperature/set'',
              hc_TemperatureStateTopic = base @ ''/temperature/state'',
              hc_CurrentTemperatureTopic = base @ ''/current_temperature'',
              hc_PowerCommandTopic = base @ ''/power/set'',
              hc_FanModeCommandTopic = (if fan then base @ ''/fan_mode/set'' else []),
              hc_FanModeStateTopic = (if fan then base @ ''/fan_mode/state'' else []),
              hc_MinTemp = c_MinTemp cl, hc_MaxTemp = c_MaxTemp cl, hc_TempStep = c_TempStep cl, hc_Precision = Fin 1,
              hc_AvailabilityTopic = availTopic,
              hc_ExpireAfter = expireAfterFor oor (slowestMetricInterval metricSpecs
                [0x80, c_ModeEPC cl, c_TemperatureEPC cl, c_CurrentTemperatureEPC cl, c_FanModeEPC cl]),
              hc_Device = device, hc_Modes = climateModesList (c_Modes cl),
              hc_FanModes = (if fan then (if fans = [] then [''auto'', ''low'', ''medium'', ''high''] else fans) else [])\<rparr>))"

definition publishLightDiscovery ::
  "(float64 \<Rightarrow> int) \<Rightarrow> (string \<Rightarrow> string) \<Rightarrow> Publisher \<Rightarrow> Device \<Rightarrow> haDevice \<Rightarrow> string \<Rightarrow> LightSpec \<Rightarrow> MetricSpec list \<Rightarrow>
     message list" where
  "publishLightDiscovery oor title p dev device availTopic lt metricSpecs =
     (let base = pub_topicPrefix p @ ''/'' @ dv_Name dev @ ''/light'';
          bright = (l_BrightnessEPC lt \<noteq> 0);
          colour = (l_ColorSettingEPC lt \<noteq> 0 \<and> 0 < length (l_ColorSettings lt));
          scene = (\<not> colour \<and> l_SceneEPC lt \<noteq> 0 \<and> 0 < l_MaxScenes lt)
      in publish_json (config_topic p ''light'' (dv_Name dev @ ''_light'')) True
           (LightConfig
             \<lparr>hl_Name = friendlyName title (dv_Name dev), hl_UniqueID = ''echonetgo_'' @ dv_Name dev @ ''_light'',
              hl_CommandTopic = base @ ''/power/set'', hl_StateTopic = base @ ''/power/state'',
              hl_BrightnessCommandTopic = (if bright then base @ ''/brightness/set'' else []),
              hl_BrightnessStateTopic = (if bright then base @ ''/brightness/state'' else []),
              hl_BrightnessScale = (if bright then 100 else 0),
              hl_EffectCommandTopic = (if colour \<or> scene then base @ ''/effect/set'' else []),
              hl_EffectStateTopic = (if colour \<or> scene then base @ ''/effect/state'' else []),
              hl_EffectList =
                (if colour then sort (map fst (l_ColorSettings lt))
                 else if scene then map (\<lambda>i. ''scene_'' @ dec_int i) [1..l_MaxScenes lt] else []),
              hl_AvailabilityTopic = availTopic,
              hl_ExpireAfter = expireAfterFor oor (slowestMetricInterval metricSpecs
                [0x80, l_BrightnessEPC lt, l_ColorSettingEPC lt, l_SceneEPC lt]),
              hl_Device = device\<rparr>))"

definition discovery_device :: "(string \<Rightarrow> string) \<Rightarrow> Publisher \<Rightarrow> Device \<Rightarrow> DeviceInfo \<Rightarrow> haDevice" where
  "discovery_device title p dev info =
     \<lparr>hd_Identifiers = [''echonetgo_'' @ dv_Name dev] @ (if v_UID info \<noteq> [] then [v_UID info @ ''_'' @ dv_Name dev] else []),
      hd_Name = friendlyName title (dv_Name dev), hd_Manufacturer = v_Manufacturer info, hd_Model = v_ProductCode info,
      hd_SWVersion = pub_swVersion p, hd_ViaDevice = ''echonetgo''\<rparr>"

text \<open>What the discovery of a device depends on, as far as it is compared: \<open>manufacturer|product|w:n\<close>.\<close>

definition discovery_key :: "DeviceInfo \<Rightarrow> byte set option \<Rightarrow> string" where
  "discovery_key info writable =
     v_Manufacturer info @ ''|'' @ v_ProductCode info @ ''|w:''
     @ dec_int (case writable of Some w \<Rightarrow> int (card w) | None \<Rightarrow> - 1)"

definition availability_topic :: "Publisher \<Rightarrow> Device \<Rightarrow> string" where
  "availability_topic p dev = pub_topicPrefix p @ ''/'' @ dv_Name dev @ ''/availability''"

definition discovery_messages ::
  "(float64 \<Rightarrow> int) \<Rightarrow> (string \<Rightarrow> string) \<Rightarrow> Publisher \<Rightarrow> Device \<Rightarrow> DeviceInfo \<Rightarrow> MetricSpec list \<Rightarrow> byte set option \<Rightarrow>
     ClimateSpec option \<Rightarrow> LightSpec option \<Rightarrow> (string, MetricValue) gomap \<Rightarrow> message list" where
  "discovery_messages oor title p dev info metricSpecs writable climateSpec lightSpec metrics =
     (let device = discovery_device title p dev info;
          availTopic = availability_topic p dev
      in wipeDeviceDiscovery p dev metricSpecs
         @ publishSensorDiscovery oor title p dev device availTopic metricSpecs
         @ (case writable of
              Some w \<Rightarrow> publishWritableDiscovery oor title p dev device availTopic metricSpecs w climateSpec lightSpec metrics
            | None \<Rightarrow> [])
         @ (case climateSpec of
              Some cl \<Rightarrow> publishClimateDiscovery oor title p dev device availTopic cl metricSpecs | None \<Rightarrow> [])
         @ (case lightSpec of
              Some lt \<Rightarrow> publishLightDiscovery oor title p dev device availTopic lt metricSpecs | None \<Rightarrow> []))"

definition ensureDiscovery ::
  "(float64 \<Rightarrow> int) \<Rightarrow> (string \<Rightarrow> string) \<Rightarrow> Device \<Rightarrow> DeviceInfo \<Rightarrow> MetricSpec list \<Rightarrow> byte set option \<Rightarrow>
     ClimateSpec option \<Rightarrow> LightSpec option \<Rightarrow> (string, MetricValue) gomap \<Rightarrow> Publisher \<Rightarrow> Publisher \<times> message list" where
  "ensureDiscovery oor title dev info metricSpecs writable climateSpec lightSpec metrics p =
     (if v_Manufacturer info = [] \<and> v_UID info = [] then
        (p\<lparr>pub_infoSkips := (pub_infoSkips p)
            (dv_Name dev \<mapsto> (case pub_infoSkips p (dv_Name dev) of Some n \<Rightarrow> n | None \<Rightarrow> 0) + 1)\<rparr>, [])
      else
        let infoKey = discovery_key info writable
        in if pub_published p (dv_Name dev) = Some infoKey then (p, [])
           else (p\<lparr>pub_published := (pub_published p)(dv_Name dev \<mapsto> infoKey)\<rparr>,
                 discovery_messages oor title p dev info metricSpecs writable climateSpec lightSpec metrics))"

text \<open>The bridge itself: without an acknowledgement of its configuration in time, nothing follows.\<close>

definition publishBridgeDevice :: "bool \<Rightarrow> Publisher \<Rightarrow> message list" where
  "publishBridgeDevice acknowledged p =
     (let availTopic = pub_topicPrefix p @ ''/bridge/availability'';
          stateTopic = pub_topicPrefix p @ ''/bridge/state'';
          device = \<lparr>hd_Identifiers = [''echonetgo''], hd_Name = ''EchonetGO'',
                    hd_Manufacturer = ''github.com/styygeli/EchonetGO'', hd_Model = ''ECHONET Lite Gateway'',
                    hd_SWVersion = pub_swVersion p, hd_ViaDevice = []\<rparr>
      in publish_json (config_topic p ''sensor'' ''echonetgo_bridge_status'') True
           (SensorConfig
             \<lparr>hp_Name = ''Status'', hp_UniqueID = ''echonetgo_bridge_status'', hp_StateTopic = stateTopic,
              hp_ValueTemplate = ''{{ value_json.status }}'', hp_DeviceClass = [], hp_StateClass = [],
              hp_UnitOfMeasurement = [], hp_Options = [], hp_AvailabilityTopic = availTopic, hp_ExpireAfter = 0,
              hp_ForceUpdate = True, hp_SuggestedDisplayPrecision = None, hp_Device = device\<rparr>)
         @ (if acknowledged then
              [publish_plain availTopic True ''online'',
               \<lparr>msg_topic = stateTopic, msg_retained = True, msg_payload = Object [(''status'', AStr ''online'')]\<rparr>]
            else []))"

section \<open>Lemmas: once per identity\<close>

text \<open>Once the discovery of a device is out, its later states send none while its identity and the number of its
  writable properties stay: a metric that has its first value later gets no control.\<close>

lemma discovery_not_renewed:
  assumes "v_Manufacturer info \<noteq> [] \<or> v_UID info \<noteq> []"
    and "ensureDiscovery oor title dev info ms writable climate light metrics p = (p', msgs)"
  shows "ensureDiscovery oor title dev info ms' writable climate' light' metrics' p' = (p', [])"
  using assms by (auto simp: ensureDiscovery_def Let_def split: if_splits)

section \<open>Lemmas: retained messages\<close>

text \<open>What a broker keeps for a topic: the payload of the last retained message.\<close>

definition retained :: "string \<Rightarrow> message list \<Rightarrow> payload option" where
  "retained topic msgs =
     map_option msg_payload (find (\<lambda>m. msg_topic m = topic \<and> msg_retained m) (rev msgs))"

lemma find_append: "find P (xs @ ys) = (case find P xs of Some x \<Rightarrow> Some x | None \<Rightarrow> find P ys)"
  by (induction xs) auto

lemma retained_append: "retained t (a @ b) = (case retained t b of Some x \<Rightarrow> Some x | None \<Rightarrow> retained t a)"
  by (auto simp: retained_def find_append split: option.splits)

lemma retained_none: "(\<And>m. m \<in> set msgs \<Longrightarrow> msg_topic m \<noteq> t) \<Longrightarrow> retained t msgs = None"
  by (auto simp: retained_def find_None_iff)

lemma retained_concat:
  assumes "distinct xs" "m \<in> set xs" "\<And>x msg. x \<in> set xs \<Longrightarrow> x \<noteq> m \<Longrightarrow> msg \<in> set (f x) \<Longrightarrow> msg_topic msg \<noteq> t"
  shows "retained t (concat (map f xs)) = retained t (f m)"
  using assms
proof (induction xs)
  case (Cons a xs)
  show ?case
  proof (cases "a = m")
    case True
    have "msg \<in> set (concat (map f xs)) \<Longrightarrow> msg_topic msg \<noteq> t" for msg
      using Cons.prems True by auto
    then have "retained t (concat (map f xs)) = None" by (rule retained_none)
    then show ?thesis by (simp add: retained_append True)
  next
    case False
    then have "retained t (f a) = None" using Cons.prems by (intro retained_none) auto
    moreover have "retained t (concat (map f xs)) = retained t (f m)" using Cons False by auto
    ultimately show ?thesis by (simp add: retained_append split: option.splits)
  qed
qed simp

lemma slash_cancel:
  "CHR ''/'' \<notin> set a \<Longrightarrow> CHR ''/'' \<notin> set b \<Longrightarrow> a @ CHR ''/'' # x = b @ CHR ''/'' # y \<longleftrightarrow> a = b \<and> x = y"
  by (induction a arbitrary: b) (case_tac b; auto)+

lemma config_topic_eq:
  "CHR ''/'' \<notin> set kind \<Longrightarrow> CHR ''/'' \<notin> set kind' \<Longrightarrow>
    config_topic p kind a = config_topic p kind' b \<longleftrightarrow> kind = kind' \<and> a = b"
  by (auto simp: config_topic_def slash_cancel)

abbreviation metric_object :: "Device \<Rightarrow> MetricSpec \<Rightarrow> string" where
  "metric_object dev m \<equiv> dv_Name dev @ ''_'' @ m_Name m"

abbreviation metric_kinds :: "string list" where "metric_kinds \<equiv> [''sensor'', ''switch'', ''select'', ''number'']"

lemma retained_wipe:
  assumes "m \<in> set ms" "distinct (map m_Name ms)" "kind \<in> set metric_kinds"
  shows "retained (config_topic p kind (metric_object dev m)) (wipeDeviceDiscovery p dev ms) = Some (Plain [])"
proof -
  let ?f = "\<lambda>m. map (\<lambda>k. publish_plain (config_topic p k (metric_object dev m)) True []) metric_kinds"
  have "retained (config_topic p kind (metric_object dev m)) (concat (map ?f ms)) = retained (config_topic p kind (metric_object dev m)) (?f m)"
  proof (rule retained_concat [OF _ assms(1)])
    show "distinct ms" using assms(2) by (simp add: distinct_map)
    fix x msg assume "x \<in> set ms" "x \<noteq> m" "msg \<in> set (?f x)"
    moreover from this have "m_Name x \<noteq> m_Name m" using assms(1,2) by (auto simp: distinct_map inj_on_def)
    ultimately show "msg_topic msg \<noteq> config_topic p kind (metric_object dev m)"
      using assms(3) by (auto simp: publish_plain_def config_topic_eq)
  qed
  also have "\<dots> = Some (Plain [])"
    using assms(3) by (auto simp: retained_def publish_plain_def config_topic_eq)
  finally have "retained (config_topic p kind (metric_object dev m)) (concat (map ?f ms)) = Some (Plain [])" .
  moreover have "retained (config_topic p kind (metric_object dev m))
      [publish_plain (config_topic p ''climate'' (dv_Name dev @ ''_climate'')) True [], publish_plain (config_topic p ''light'' (dv_Name dev @ ''_light'')) True []] = None"
    using assms(3) by (intro retained_none) (auto simp: publish_plain_def config_topic_eq)
  ultimately show ?thesis unfolding wipeDeviceDiscovery_def retained_append by (simp only: option.case)
qed

lemma retained_sensors:
  assumes "m \<in> set ms" "distinct (map m_Name ms)" "kind \<in> set metric_kinds"
  shows "retained (config_topic p kind (metric_object dev m)) (publishSensorDiscovery oor title p dev device avail ms)
    = (if kind = ''sensor'' then Some (SensorConfig (buildSensorPayload oor title m (metric_object dev m)
         (pub_topicPrefix p @ ''/'' @ dv_Name dev @ ''/state'') avail device)) else None)"
proof -
  let ?f = "\<lambda>m. publish_json (config_topic p ''sensor'' (metric_object dev m)) True
     (SensorConfig (buildSensorPayload oor title m (metric_object dev m)
        (pub_topicPrefix p @ ''/'' @ dv_Name dev @ ''/state'') avail device))"
  have "retained (config_topic p kind (metric_object dev m)) (concat (map ?f ms)) = retained (config_topic p kind (metric_object dev m)) (?f m)"
  proof (rule retained_concat [OF _ assms(1)])
    show "distinct ms" using assms(2) by (simp add: distinct_map)
    fix x msg assume "x \<in> set ms" "x \<noteq> m" "msg \<in> set (?f x)"
    moreover from this have "m_Name x \<noteq> m_Name m" using assms(1,2) by (auto simp: distinct_map inj_on_def)
    ultimately show "msg_topic msg \<noteq> config_topic p kind (metric_object dev m)"
      using assms(3) by (auto simp: publish_json_def config_topic_eq split: if_splits)
  qed
  also have "\<dots> = (if kind = ''sensor'' then Some (SensorConfig (buildSensorPayload oor title m (metric_object dev m)
         (pub_topicPrefix p @ ''/'' @ dv_Name dev @ ''/state'') avail device)) else None)"
    using assms(3) by (auto simp: publish_json_def retained_def marshals_def config_topic_eq)
  finally show ?thesis by (simp only: publishSensorDiscovery_def Let_def)
qed

lemma retained_entities:
  assumes "m \<in> set ms" "distinct (map m_Name ms)" "kind \<in> set metric_kinds"
  shows "retained (config_topic p kind (metric_object dev m)) (publishWritableDiscovery oor title p dev device avail ms w climate light metrics)
    = (if map_of metrics (m_Name m) \<noteq> None \<and> writable_entity w climate light m = Some kind
          \<and> marshals (Object (entity_config oor title p dev device avail kind m))
       then Some (Object (entity_config oor title p dev device avail kind m)) else None)"
proof -
  let ?f = "\<lambda>ms. if map_of metrics (m_Name ms) = None then []
     else case writable_entity w climate light ms of
       None \<Rightarrow> []
     | Some k \<Rightarrow> publish_json (config_topic p k (metric_object dev ms)) True (Object (entity_config oor title p dev device avail k ms))"
  have slash: "writable_entity w climate light x = Some k \<Longrightarrow> CHR ''/'' \<notin> set k" for x k
    using WritableEntityType_cases [of x] by (auto simp: writable_entity_def split: if_splits)
  have "retained (config_topic p kind (metric_object dev m)) (concat (map ?f ms)) = retained (config_topic p kind (metric_object dev m)) (?f m)"
  proof (rule retained_concat [OF _ assms(1)])
    show "distinct ms" using assms(2) by (simp add: distinct_map)
    fix x msg assume "x \<in> set ms" "x \<noteq> m" "msg \<in> set (?f x)"
    moreover from this have "m_Name x \<noteq> m_Name m" using assms(1,2) by (auto simp: distinct_map inj_on_def)
    ultimately show "msg_topic msg \<noteq> config_topic p kind (metric_object dev m)"
      using assms(3) slash [of x] by (auto simp: publish_json_def config_topic_eq split: if_splits option.splits)
  qed
  also have "\<dots> = (if map_of metrics (m_Name m) \<noteq> None \<and> writable_entity w climate light m = Some kind
          \<and> marshals (Object (entity_config oor title p dev device avail kind m))
       then Some (Object (entity_config oor title p dev device avail kind m)) else None)"
    using assms(3) slash [of m] by (auto simp: publish_json_def retained_def config_topic_eq split: option.splits)
  finally show ?thesis by (simp only: publishWritableDiscovery_def)
qed

lemma retained_publish_json:
  "retained t (publish_json topic True p) = (if topic = t \<and> marshals p then Some p else None)"
  by (simp add: publish_json_def retained_def)

lemma retained_others:
  assumes "kind \<in> set metric_kinds"
  shows "retained (config_topic p kind n) (publishClimateDiscovery oor title p dev device avail cl ms) = None"
    "retained (config_topic p kind n) (publishLightDiscovery oor title p dev device avail lt ms) = None"
proof -
  have other: "config_topic p ''climate'' a \<noteq> config_topic p kind n" "config_topic p ''light'' a \<noteq> config_topic p kind n" for a
    using assms by (auto simp: config_topic_eq)
  show "retained (config_topic p kind n) (publishClimateDiscovery oor title p dev device avail cl ms) = None"
    "retained (config_topic p kind n) (publishLightDiscovery oor title p dev device avail lt ms) = None"
    unfolding publishClimateDiscovery_def publishLightDiscovery_def Let_def retained_publish_json
    by (simp_all only: other simp_thms if_False)
qed

section \<open>Properties\<close>

text \<open>C13: discovery leaves the broker with the current controls of a device and no stale ones. After the
  messages of a discovery the retained configuration of a metric's sensor is the one just built, and
  that of each kind of control is the one just built if the metric is a control of this kind (and
  can be encoded), else it is empty, which removes the control - whatever was retained before.\<close>

theorem discovery_replaces_controls:
  assumes "m \<in> set ms" "distinct (map m_Name ms)" "kind \<in> {''switch'', ''select'', ''number''}"
    and "device = discovery_device title p dev info" "avail = availability_topic p dev"
    and "msgs = discovery_messages oor title p dev info ms writable climate light metrics"
  shows "retained (config_topic p ''sensor'' (metric_object dev m)) (before @ msgs)
      = Some (SensorConfig (buildSensorPayload oor title m (metric_object dev m)
          (pub_topicPrefix p @ ''/'' @ dv_Name dev @ ''/state'') avail device))
    \<and> retained (config_topic p kind (metric_object dev m)) (before @ msgs)
      = Some (if \<exists>w. writable = Some w \<and> map_of metrics (m_Name m) \<noteq> None \<and> writable_entity w climate light m = Some kind
              \<and> marshals (Object (entity_config oor title p dev device avail kind m))
           then Object (entity_config oor title p dev device avail kind m) else Plain [])"
proof -
  have no: "writable_entity w climate light m \<noteq> Some ''sensor''" for w
    using WritableEntityType_cases [of m] by (auto simp: writable_entity_def)
  have k: "kind \<in> set metric_kinds" "kind \<noteq> ''sensor''" "''sensor'' \<in> set metric_kinds" using assms(3) by auto
  note parts = retained_wipe [OF assms(1,2)] retained_sensors [OF assms(1,2)] retained_entities [OF assms(1,2)]
  have other: "retained (config_topic p k n) (case x of Some y \<Rightarrow> f y | None \<Rightarrow> []) = None"
    if "\<And>y. retained (config_topic p k n) (f y) = None" for k n x f
    using that by (cases x) (simp_all add: retained_def)
  have nil: "retained t [] = None" for t by (simp add: retained_def)
  show ?thesis
    unfolding assms(4-6) discovery_messages_def Let_def
    using k no by (cases writable; cases climate; cases light)
      (simp_all only: retained_append parts retained_others option.case nil append_Nil2 simp_thms if_True if_False option.distinct, auto)
qed

definition level_metric :: MetricSpec where
  "level_metric = zero_metric\<lparr>m_EPC := 0xB0, m_Name := ''level'', m_Size := 1, m_Scale := Fin 1\<rparr>"

definition sample_publisher :: Publisher where
  "sample_publisher = \<lparr>pub_topicPrefix = ''e'', pub_discoveryPrefix = ''ha'', pub_swVersion = ''1'',
     pub_published = Map.empty, pub_infoSkips = Map.empty\<rparr>"

theorem discovery_replaces_controls_witness:
  "retained (config_topic sample_publisher ''number'' (metric_object sample_device level_metric))
     ([publish_plain (config_topic sample_publisher ''number'' (metric_object sample_device level_metric)) True ''old'']
      @ discovery_messages (\<lambda>_. 0) (\<lambda>s. s) sample_publisher sample_device zero_info [level_metric] (Some {0xB0}) None None
          [(''level'', \<lparr>mv_Value = Fin 1, mv_Type = [], mv_EnumLabel = []\<rparr>)])
   = Some (Object (entity_config (\<lambda>_. 0) (\<lambda>s. s) sample_publisher sample_device
       (discovery_device (\<lambda>s. s) sample_publisher sample_device zero_info) (availability_topic sample_publisher sample_device)
       ''number'' level_metric))"
proof -
  let ?config = "entity_config (\<lambda>_. 0) (\<lambda>s. s) sample_publisher sample_device
    (discovery_device (\<lambda>s. s) sample_publisher sample_device zero_info) (availability_topic sample_publisher sample_device)
    ''number'' level_metric"
  have "writable_entity {0xB0} None None level_metric = Some ''number''"
    by (simp add: writable_entity_def level_metric_def zero_metric_def climate_HandlesEPC_def light_HandlesEPC_def
        WritableEntityType_def)
  moreover have "marshals (Object ?config)"
    by (simp add: marshals_def entity_config_def number_limits_def level_metric_def zero_metric_def finite_float_def
        f_eq_def is_inf_def)
  moreover have "m_Name level_metric = ''level''" by (simp add: level_metric_def)
  ultimately show ?thesis
    using discovery_replaces_controls [of level_metric "[level_metric]" "''number''" _ "\<lambda>s. s" sample_publisher sample_device
        zero_info _ _ "\<lambda>_. 0" "Some {0xB0}" None None "[(''level'', \<lparr>mv_Value = Fin 1, mv_Type = [], mv_EnumLabel = []\<rparr>)]"
        "[publish_plain (config_topic sample_publisher ''number'' (metric_object sample_device level_metric)) True ''old'']",
        OF _ _ _ refl refl refl] by simp
qed

end
