(* ===== verification/Publisher.thy ===== *)
theory Publisher
  imports Discovery Commander
begin

text \<open>
  \<open>internal/mqtt/publisher.go\<close>: the messages for a device's state. \<open>PublishDeviceState\<close> is what the
  worker does with one state; the queue before it is in \<open>PublishQueue\<close>. Connecting to the broker is
  the MQTT library's. The lemmas show what the messages carry, and that the controls that are
  advertised are the ones the commander obeys.
\<close>

definition NewPublisher :: "MQTTConfig \<Rightarrow> string \<Rightarrow> Publisher option" where
  "NewPublisher cfg swVersion =
     (if q_Broker cfg = [] then None
      else Some \<lparr>pub_topicPrefix = q_TopicPrefix cfg, pub_discoveryPrefix = q_DiscoveryPrefix cfg,
             pub_swVersion = swVersion, pub_published = Map.empty, pub_infoSkips = Map.empty\<rparr>)"

definition publishAvailability :: "Publisher \<Rightarrow> Device \<Rightarrow> bool \<Rightarrow> message" where
  "publishAvailability p dev online =
     publish_plain (pub_topicPrefix p @ ''/'' @ dv_Name dev @ ''/availability'') True
       (if online then ''online'' else ''offline'')"

section \<open>State\<close>

definition state_object :: "(string, MetricValue) gomap \<Rightarrow> (string, any_value) gomap" where
  "state_object metrics =
     fold (\<lambda>(name, mv) payload.
       let payload1 = AList.update name (AFloat (mv_Value mv)) payload
       in if mv_EnumLabel mv \<noteq> [] then AList.update (name @ ''_str'') (AStr (mv_EnumLabel mv)) payload1 else payload1)
       metrics []"

definition publishState :: "Publisher \<Rightarrow> Device \<Rightarrow> (string, MetricValue) gomap \<Rightarrow> message list" where
  "publishState p dev metrics =
     publish_json (pub_topicPrefix p @ ''/'' @ dv_Name dev @ ''/state'') False (Object (state_object metrics))"

text \<open>The metric of a property, if its name is not empty and it has a value.\<close>

definition metric_of :: "MetricSpec list \<Rightarrow> (string, MetricValue) gomap \<Rightarrow> byte \<Rightarrow> MetricValue option" where
  "metric_of metricSpecs metrics epc =
     (let name = MetricNameForEPC metricSpecs epc in if name \<noteq> [] then map_of metrics name else None)"

definition publish_some :: "string \<Rightarrow> string option \<Rightarrow> message list" where
  "publish_some topic text = (case text of Some t \<Rightarrow> [publish_plain topic False t] | None \<Rightarrow> [])"

text \<open>The label of a climate mode: \<open>off\<close> when the device is off, else the first mode with the raw value.\<close>

definition climate_mode_label ::
  "(float64 \<Rightarrow> int) \<Rightarrow> ClimateSpec \<Rightarrow> MetricSpec list \<Rightarrow> (string, MetricValue) gomap \<Rightarrow> string" where
  "climate_mode_label oor cl metricSpecs metrics =
     (if (case metric_of metricSpecs metrics 0x80 of Some mv \<Rightarrow> f_to_int64 oor (mv_Value mv) = 0x31 | None \<Rightarrow> False) then ''off''
      else case metric_of metricSpecs metrics (c_ModeEPC cl) of
        Some mv \<Rightarrow>
          (case find (\<lambda>(label, v). v = Some (f_to_int64 oor (mv_Value mv))) (c_Modes cl) of
             Some (label, _) \<Rightarrow> label | None \<Rightarrow> [])
      | None \<Rightarrow> [])"

definition publishClimateState ::
  "(float64 \<Rightarrow> int) \<Rightarrow> Publisher \<Rightarrow> Device \<Rightarrow> (string, MetricValue) gomap \<Rightarrow> MetricSpec list \<Rightarrow> ClimateSpec \<Rightarrow> message list" where
  "publishClimateState oor p dev metrics metricSpecs cl =
     (let base = pub_topicPrefix p @ ''/'' @ dv_Name dev @ ''/climate'';
          modeStr = climate_mode_label oor cl metricSpecs metrics;
          number = (\<lambda>epc. map_option (\<lambda>mv. format_float0 (mv_Value mv)) (metric_of metricSpecs metrics epc))
      in (if modeStr \<noteq> [] then [publish_plain (base @ ''/mode/state'') False modeStr] else [])
         @ publish_some (base @ ''/temperature/state'') (number (c_TemperatureEPC cl))
         @ publish_some (base @ ''/current_temperature'') (number (c_CurrentTemperatureEPC cl))
         @ (if c_FanModeEPC cl \<noteq> 0 then
              (case metric_of metricSpecs metrics (c_FanModeEPC cl) of
                 Some mv \<Rightarrow> if mv_EnumLabel mv \<noteq> [] then [publish_plain (base @ ''/fan_mode/state'') False (mv_EnumLabel mv)] else []
               | None \<Rightarrow> [])
            else []))"

definition light_effect_state :: "LightSpec \<Rightarrow> MetricSpec list \<Rightarrow> (string, MetricValue) gomap \<Rightarrow> string option" where
  "light_effect_state lt metricSpecs metrics =
     (if l_ColorSettingEPC lt \<noteq> 0 then
        (case metric_of metricSpecs metrics (l_ColorSettingEPC lt) of
           Some mv \<Rightarrow>
             if mv_EnumLabel mv \<noteq> [] \<and> map_of (l_ColorSettings lt) (mv_EnumLabel mv) \<noteq> None
             then Some (mv_EnumLabel mv) else None
         | None \<Rightarrow> None)
      else if l_SceneEPC lt \<noteq> 0 then
        (case metric_of metricSpecs metrics (l_SceneEPC lt) of
           Some mv \<Rightarrow> if f_le (Fin 1) (mv_Value mv) then Some (''scene_'' @ format_float0 (mv_Value mv)) else None
         | None \<Rightarrow> None)
      else None)"

definition publishLightState ::
  "(float64 \<Rightarrow> int) \<Rightarrow> Publisher \<Rightarrow> Device \<Rightarrow> (string, MetricValue) gomap \<Rightarrow> MetricSpec list \<Rightarrow> LightSpec \<Rightarrow> message list" where
  "publishLightState oor p dev metrics metricSpecs lt =
     (let base = pub_topicPrefix p @ ''/'' @ dv_Name dev @ ''/light''
      in publish_some (base @ ''/power/state'')
           (map_option (\<lambda>mv. if f_to_int64 oor (mv_Value mv) = 0x30 then ''ON'' else ''OFF'') (metric_of metricSpecs metrics 0x80))
         @ (if l_BrightnessEPC lt \<noteq> 0 then
              publish_some (base @ ''/brightness/state'')
                (map_option (\<lambda>mv. format_float0 (mv_Value mv)) (metric_of metricSpecs metrics (l_BrightnessEPC lt)))
            else [])
         @ publish_some (base @ ''/effect/state'') (light_effect_state lt metricSpecs metrics))"

definition shouldSkipStateUpdate :: "MetricSpec \<Rightarrow> MetricValue \<Rightarrow> bool" where
  "shouldSkipStateUpdate ms mv \<longleftrightarrow>
     (case m_NumberMin ms of Some lo \<Rightarrow> f_less (mv_Value mv) lo | None \<Rightarrow> False)
     \<or> (case m_NumberMax ms of Some hi \<Rightarrow> f_less hi (mv_Value mv) | None \<Rightarrow> False)"

definition formatNumberPayload :: "float64 \<Rightarrow> string" where
  "formatNumberPayload v = format_float v"

text \<open>The payload of an entity's state; \<open>None\<close> for a select without a label.\<close>

definition entity_state :: "string \<Rightarrow> MetricValue \<Rightarrow> string option" where
  "entity_state entityType mv =
     (if entityType = ''switch'' then
        (if mv_EnumLabel mv \<noteq> [] then
           (let low = go_lower (mv_EnumLabel mv)
            in Some (if low = ''on'' then ''ON'' else if low = ''off'' then ''OFF'' else mv_EnumLabel mv))
         else Some (if \<not> f_eq (mv_Value mv) (Zero False) then ''ON'' else ''OFF''))
      else if entityType = ''select'' then (if mv_EnumLabel mv = [] then None else Some (mv_EnumLabel mv))
      else if entityType = ''number'' then Some (formatNumberPayload (mv_Value mv))
      else None)"

definition publishWritableState ::
  "Publisher \<Rightarrow> Device \<Rightarrow> (string, MetricValue) gomap \<Rightarrow> MetricSpec list \<Rightarrow> byte set \<Rightarrow> ClimateSpec option \<Rightarrow>
     LightSpec option \<Rightarrow> message list" where
  "publishWritableState p dev metrics metricSpecs writable climateSpec lightSpec =
     concat (map (\<lambda>ms.
       case writable_entity writable climateSpec lightSpec ms of
         None \<Rightarrow> []
       | Some entityType \<Rightarrow>
           (case map_of metrics (m_Name ms) of
              None \<Rightarrow> []
            | Some mv \<Rightarrow>
                if shouldSkipStateUpdate ms mv then []
                else publish_some (entity_base p dev entityType ms @ ''/state'') (entity_state entityType mv))) metricSpecs)"

section \<open>One state\<close>

definition PublishDeviceState ::
  "(float64 \<Rightarrow> int) \<Rightarrow> (string \<Rightarrow> string) \<Rightarrow> DeviceState \<Rightarrow> Publisher \<Rightarrow> Publisher \<times> message list" where
  "PublishDeviceState oor title st p =
     (let dev = st_Device st; metrics = st_Metrics st; metricSpecs = st_MetricSpecs st
      in if st_Success st \<and> 0 < length metrics then
           (case ensureDiscovery oor title dev (st_Info st) metricSpecs (st_Writable st) (st_Climate st) (st_Light st) metrics p of
              (p1, discovery) \<Rightarrow>
                (p1, [publishAvailability p dev (st_Success st)] @ discovery @ publishState p dev metrics
                   @ (case st_Climate st of Some cl \<Rightarrow> publishClimateState oor p dev metrics metricSpecs cl | None \<Rightarrow> [])
                   @ (case st_Light st of Some lt \<Rightarrow> publishLightState oor p dev metrics metricSpecs lt | None \<Rightarrow> [])
                   @ (case st_Writable st of
                        Some w \<Rightarrow> publishWritableState p dev metrics metricSpecs w (st_Climate st) (st_Light st)
                      | None \<Rightarrow> [])))
         else (p, [publishAvailability p dev (st_Success st)]))"

text \<open>The last message, when the program disconnects.\<close>

definition offline_message :: "Publisher \<Rightarrow> message" where
  "offline_message p = publish_plain (pub_topicPrefix p @ ''/bridge/availability'') True ''offline''"

section \<open>Lemmas: values and controls\<close>

lemma scale_one:
  assumes "\<bar>n\<bar> \<le> 2 ^ 32"
  shows "scale_value oor log10f (Fin 1) n = f_of_int n" "f_to_int64 oor (f_of_int n) = n"
proof -
  have "\<bar>n\<bar> \<le> 2 ^ 53" using assms by simp
  from f_of_int_exact [OF this] have n: "f_of_int n = int_float False n" .
  show "f_to_int64 oor (f_of_int n) = n" using assms unfolding n by (simp add: int_float_def) (simp add: f_to_int64_def)
  have "n \<noteq> 0 \<Longrightarrow> round64 (of_int n) = Fin (of_int n)" using assms by (intro round64_of_int) auto
  then show "scale_value oor log10f (Fin 1) n = f_of_int n"
    unfolding scale_value_def n by (simp add: int_float_def f_mul_def f_less_def Let_def)
qed

lemma scale_value_valid [simp]: "valid64 (scale_value oor log10f sc n)"
  by (simp add: scale_value_def Let_def)

text \<open>The labels of a metric and their codes belong together.\<close>

definition enum_inverse :: "MetricSpec \<Rightarrow> bool" where
  "enum_inverse m \<longleftrightarrow> (\<forall>v l. map_of (m_Enum m) v = Some l \<longrightarrow> map_of (m_ReverseEnum m) l = Some v)"

lemma on_off_words: "on_off ''ON'' = Some True" "on_off ''OFF'' = Some False"
  by (simp_all add: on_off_def go_case_ascii is_ascii_def ascii_upper_def)

text \<open>The topics of an entity lead to its metric.\<close>

lemma entity_topic_base:
  assumes "CHR ''/'' \<notin> set (pub_topicPrefix p) \<union> set (dv_Name dev) \<union> set (m_Name m)"
    and "kind \<in> {''switch'', ''select'', ''number''}"
  shows "entity_topic (entity_base p dev kind m @ ''/set'') = Some (dv_Name dev, kind, m_Name m)"
proof -
  have "CHR ''/'' \<notin> set kind" using assms(2) by auto
  then have "split_on (CHR ''/'') (entity_base p dev kind m @ ''/set'') = [pub_topicPrefix p, dv_Name dev, kind, m_Name m, ''set'']"
    using assms(1) by (simp add: entity_base_def split_on_append split_on_plain)
  with assms(2) show ?thesis by (auto simp: entity_topic_def)
qed

lemma find_by_name: "distinct (map m_Name ms) \<Longrightarrow> m \<in> set ms \<Longrightarrow> m_Name m \<noteq> [] \<Longrightarrow> FindMetricSpecByName ms (m_Name m) = Some m"
proof -
  assume a: "distinct (map m_Name ms)" "m \<in> set ms" "m_Name m \<noteq> []"
  have "find (\<lambda>x. m_Name x = m_Name m) ms = Some m" using a(1,2)
    by (induction ms) (auto simp: image_iff)
  with a(3) show ?thesis by (simp add: FindMetricSpecByName_def)
qed

lemma writable_entity_Some:
  assumes "writable_entity w climate light m = Some kind"
  shows "m_EPC m \<in> w" "\<not> climate_HandlesEPC climate (m_EPC m)" "\<not> light_HandlesEPC light (m_EPC m)"
    "kind = WritableEntityType m" "kind \<in> {''switch'', ''select'', ''number''}" "\<not> m_ExcludeSet m"
  using assms WritableEntityType_cases [of m]
  by (auto simp: writable_entity_def split: if_splits) (auto simp: WritableEntityType_def)

lemma set_ordered_keys: "set (ordered_keys order m) = fst ` set m"
proof -
  have "map_of m x \<noteq> None \<longleftrightarrow> x \<in> fst ` set m" for x by (metis map_of_eq_None_iff)
  then show ?thesis by (auto simp: ordered_keys_def)
qed

lemma set_select_options: "set (select_options m) = fst ` set (m_ReverseEnum m)"
  by (auto simp: select_options_def selectOptionsOrdered_def set_ordered_keys)

lemma state_object_value:
  assumes "gomap_ok metrics" "map_of metrics n = Some mv" "\<And>k. map_of metrics k \<noteq> None \<Longrightarrow> k @ ''_str'' \<noteq> n"
  shows "map_of (state_object metrics) n = Some (AFloat (mv_Value mv))"
proof -
  define f where "f = (\<lambda>(name, mv :: MetricValue) payload.
       let payload1 = AList.update name (AFloat (mv_Value mv)) payload
       in if mv_EnumLabel mv \<noteq> [] then AList.update (name @ ''_str'') (AStr (mv_EnumLabel mv)) payload1 else payload1)"
  have f: "map_of (f (k, v) acc) n = (if n = k then Some (AFloat (mv_Value v)) else map_of acc n)"
    if "k @ ''_str'' \<noteq> n" for k v acc
    using that by (auto simp: f_def Let_def)
  have other: "map_of (fold f xs acc) n = map_of acc n" if "n \<notin> fst ` set xs" "\<And>k. k \<in> fst ` set xs \<Longrightarrow> k @ ''_str'' \<noteq> n"
    for acc xs
    using that by (induction xs arbitrary: acc) (auto simp: f)
  have own: "map_of (fold f xs acc) n = Some (AFloat (mv_Value mv))"
    if "distinct (map fst xs)" "(n, mv) \<in> set xs" "\<And>k. k \<in> fst ` set xs \<Longrightarrow> k @ ''_str'' \<noteq> n" for acc xs
    using that
  proof (induction xs arbitrary: acc)
    case (Cons p xs)
    obtain k v where p: "p = (k, v)" by force
    have k: "k @ ''_str'' \<noteq> n" "\<And>k. k \<in> fst ` set xs \<Longrightarrow> k @ ''_str'' \<noteq> n" using Cons.prems(3) p by auto
    show ?case
    proof (cases "n = k")
      case True
      with Cons.prems p have "v = mv" "n \<notin> fst ` set xs" by (auto simp: rev_image_eqI)
      with other [OF this(2) k(2)] f [OF k(1), of v acc] True p show ?thesis by simp
    next
      case False
      with Cons.prems p have "(n, mv) \<in> set xs" "distinct (map fst xs)" by auto
      with Cons.IH k(2) p show ?thesis by simp
    qed
  qed simp
  have "k @ ''_str'' \<noteq> n" if "k \<in> fst ` set metrics" for k
    using assms(3) [of k] that map_of_eq_None_iff [of metrics k] by blast
  from own [OF _ map_of_SomeD [OF assms(2)] this] have "map_of (fold f metrics []) n = Some (AFloat (mv_Value mv))"
    using assms(1) by (simp add: gomap_ok_def)
  then show ?thesis by (simp add: state_object_def f_def)
qed

lemma labelled_value:
  assumes "\<bar>raw\<bar> \<le> 2 ^ 32" "enum_label oor m (scale_value oor log10f (m_Scale m) raw) \<noteq> []"
    and "m_Enum m = [] \<or> m_Scale m = Fin 1" "enum_inverse m"
  shows "map_of (m_ReverseEnum m) (enum_label oor m (scale_value oor log10f (m_Scale m) raw)) = Some raw"
    "scale_value oor log10f (m_Scale m) raw = f_of_int raw"
proof -
  have e: "m_Enum m \<noteq> []" using assms(2) by (auto simp: enum_label_def split: if_splits)
  then show v: "scale_value oor log10f (m_Scale m) raw = f_of_int raw" using assms(3) scale_one(1) [OF assms(1)] by simp
  have "map_of (m_Enum m) raw = Some (enum_label oor m (f_of_int raw))"
    using assms(2) e unfolding v by (simp add: enum_label_def scale_one(2) [OF assms(1)] split: option.splits)
  with assms(4) show "map_of (m_ReverseEnum m) (enum_label oor m (scale_value oor log10f (m_Scale m) raw)) = Some raw"
    unfolding v by (simp add: enum_inverse_def)
qed

section \<open>Properties\<close>

text \<open>C3: every control that is advertised works. The command topic in the discovery message of a switch,
  select or number leads the commander to that device and metric: a message on it is executed for
  the metric, with none of the guards in the way, and each option advertised for a select has a
  value. The cache is the one the state came from; names and the topic prefix hold no separator.\<close>

theorem advertised_controls_work:
  assumes "writable_entity w (GetDeviceClimate dev c) (GetDeviceLight dev c) m = Some kind"
    and "GetWritableEPCs dev c = Some (Some w)" "GetDeviceSpecs dev c = Some ms" "GetDeviceEOJ dev c = Some eoj"
    and "m \<in> set ms" "distinct (map m_Name ms)" "m_Name m \<noteq> []" "deviceByName devices (dv_Name dev) = Some dev"
    and "CHR ''/'' \<notin> set (pub_topicPrefix p) \<union> set (dv_Name dev) \<union> set (m_Name m)"
    and "trim_space text = cmd" "cmd \<noteq> []"
  shows "\<exists>topic. map_of (entity_config oor title p dev device avail kind m) ''command_topic'' = Some (AStr topic)
    \<and> handleWritableMessage oor tr now devices c topic text st
        = executeWritableSet oor tr (device_addr dev) eoj dev m ms kind cmd st
    \<and> (kind = ''select'' \<longrightarrow> list_all (\<lambda>label. entity_value m kind label \<noteq> None) (select_options m))"
proof (intro exI conjI impI)
  note k = writable_entity_Some [OF assms(1)]
  show "map_of (entity_config oor title p dev device avail kind m) ''command_topic'' = Some (AStr (entity_base p dev kind m @ ''/set''))"
    by (simp add: entity_config_def)
  have "checkWritable now c dev eoj (m_EPC m) (Some (Some w)) st = (True, st)" using k(1) by (simp add: checkWritable_def)
  with k assms find_by_name [OF assms(6,5,7)] entity_topic_base [OF assms(9) k(5)]
  show "handleWritableMessage oor tr now devices c (entity_base p dev kind m @ ''/set'') text st
      = executeWritableSet oor tr (device_addr dev) eoj dev m ms kind cmd st"
    by (simp add: handleWritableMessage_def Let_def)
  show "list_all (\<lambda>label. entity_value m kind label \<noteq> None) (select_options m)" if "kind = ''select''"
    using that by (auto simp: list_all_iff entity_value_def set_select_options map_of_eq_None_iff image_iff)
qed

definition plain_cache :: Cache where
  "plain_cache = SetWritableEPCs ac_device (Some {0xB0})
     (SetDeviceSpecs ac_device [mode_metric] (SetDeviceEOJ ac_device (1, 0x30, 1) NewCache))"

definition sample_hadevice :: haDevice where
  "sample_hadevice = \<lparr>hd_Identifiers = [], hd_Name = ''ac'', hd_Manufacturer = [], hd_Model = [], hd_SWVersion = [],
     hd_ViaDevice = []\<rparr>"

theorem advertised_controls_work_witness:
  "\<exists>topic. map_of (entity_config (\<lambda>_. 0) (\<lambda>s. s) sample_publisher ac_device sample_hadevice ''a'' ''number'' mode_metric)
       ''command_topic'' = Some (AStr topic)
    \<and> handleWritableMessage (\<lambda>_. 0) acknowledging (\<lambda>_. 0) [ac_device] plain_cache topic ''25'' idle
        = executeWritableSet (\<lambda>_. 0) acknowledging ''h:3610'' (1, 0x30, 1) ac_device mode_metric [mode_metric] ''number'' ''25'' idle"
proof -
  have c: "GetDeviceClimate ac_device plain_cache = None" "GetDeviceLight ac_device plain_cache = None"
    "GetWritableEPCs ac_device plain_cache = Some (Some {0xB0})" "GetDeviceSpecs ac_device plain_cache = Some [mode_metric]"
    "GetDeviceEOJ ac_device plain_cache = Some (1, 0x30, 1)"
    by (simp_all add: plain_cache_def GetDeviceClimate_def GetDeviceLight_def GetWritableEPCs_def SetWritableEPCs_def
        GetDeviceSpecs_def SetDeviceSpecs_def GetDeviceEOJ_def SetDeviceEOJ_def NewCache_def)
  have kind: "writable_entity {0xB0} None None mode_metric = Some ''number''"
    by (simp add: writable_entity_def mode_metric_def zero_metric_def climate_HandlesEPC_def light_HandlesEPC_def WritableEntityType_def)
  have trim: "trim_space ''25'' = ''25''" by code_simp
  have "\<exists>topic. map_of (entity_config (\<lambda>_. 0) (\<lambda>s. s) sample_publisher ac_device sample_hadevice ''a'' ''number'' mode_metric)
       ''command_topic'' = Some (AStr topic)
    \<and> handleWritableMessage (\<lambda>_. 0) acknowledging (\<lambda>_. 0) [ac_device] plain_cache topic ''25'' idle
        = executeWritableSet (\<lambda>_. 0) acknowledging (device_addr ac_device) (1, 0x30, 1) ac_device mode_metric [mode_metric] ''number'' ''25'' idle
    \<and> (''number'' = ''select'' \<longrightarrow> list_all (\<lambda>label. entity_value mode_metric ''number'' label \<noteq> None) (select_options mode_metric))"
    by (rule advertised_controls_work [of "{0xB0}"])
      (simp_all only: c kind trim, simp_all add: mode_metric_def ac_device_def zero_metric_def deviceByName_def sample_publisher_def)
  then show ?thesis by (auto simp: ac_device_def)
qed

text \<open>C4: what is published as the state of a control can be sent back: as the payload of a command, which
  the handler trims, it is not empty and stands for a value that is encoded as exactly the data the
  device reported, so the command sets these data (after the pre-set of the metric, if it has one and
  that does not give the command up). It supposes a metric of one, two or four bytes at offset 0 and
  data of exactly that size; a scale that is at least one or 0.1, 0.01 or 0.001, and one for an enum;
  labels that belong to one value each; for a select, that the label has no white space at its ends;
  and for a switch, that the label is \<open>on\<close> or \<open>off\<close> in lower case.\<close>

theorem published_state_sends_back:
  assumes "m_Size m \<in> {1, 2, 4}" "m_Offset m = 0" "int (length edt) = m_Size m"
    and "scale_exact oor log10f (m_Scale m)" "m_Enum m = [] \<or> m_Scale m = Fin 1"
    and "parseEDTWithReason oor log10f edt m = Inr v" "enum_inverse m" "kind = WritableEntityType m"
    and "kind = ''switch'' \<longrightarrow> enum_label oor m v \<in> {''on'', ''off''}"
    and "kind = ''select'' \<longrightarrow> trim_space (enum_label oor m v) = enum_label oor m v"
    and "entity_state kind \<lparr>mv_Value = v, mv_Type = m_Type m, mv_EnumLabel = enum_label oor m v\<rparr> = Some text"
  shows "trim_space text \<noteq> []
    \<and> (\<exists>value. entity_value m kind (trim_space text) = Some value \<and> EncodeValueToEDT oor value m = Inr edt)
    \<and> executeWritableSet oor tr addr eoj dev m ms kind (trim_space text) st =
       (case pre_set oor tr addr eoj m ms st of
          (None, st1) \<Rightarrow> st1
        | (Some preEDT, st1) \<Rightarrow>
            if m_SetMode m = ''seti'' then
              (case SendSetI tr addr eoj (m_EPC m) edt (k_tr st1) of (_, s2) \<Rightarrow> st1\<lparr>k_tr := s2\<rparr>)
            else set_and_verify tr addr dev eoj (m_EPC m) edt [m_EPC m]
                   (\<lparr>pu_epc = m_EPC m, pu_edt = edt\<rparr>
                    # (if m_PreSetEPC m \<noteq> 0 then [\<lparr>pu_epc = m_PreSetEPC m, pu_edt = preEDT\<rparr>] else [])) st1)"
proof -
  obtain raw where raw: "parseInteger edt (m_Signed m) = Inr raw" and v: "v = scale_value oor log10f (m_Scale m) raw"
    by (rule parseEDT_fixed [OF assms(1-3,6)])
  have "edt \<noteq> []" "length edt \<le> 4" using assms(1,3) by auto
  note r = parseInteger_range(3) [OF this raw]
  note enc = encode_of_decoded [OF assms(1-6)]
  have labelled: "map_of (m_ReverseEnum m) (enum_label oor m v) = Some raw \<and> v = f_of_int raw"
    if "enum_label oor m v \<noteq> []"
    using labelled_value [OF r that [unfolded v] assms(5,7)] by (simp add: v)
  consider "kind = ''switch''" | "kind = ''select''" | "kind = ''number''"
    using assms(11) by (auto simp: entity_state_def split: if_splits)
  then have "trim_space text = text \<and> text \<noteq> [] \<and> (\<exists>value. entity_value m kind text = Some value \<and> EncodeValueToEDT oor value m = Inr edt)"
  proof cases
    case 1
    have low: "go_lower ''on'' = ''on''" "go_lower ''off'' = ''off''"
      by (simp_all add: go_case_ascii is_ascii_def ascii_lower_def)
    have payload: "text = (if enum_label oor m v = ''on'' then ''ON'' else ''OFF'')"
      using assms(9,11) 1 by (auto simp: entity_state_def low)
    moreover have "enum_label oor m v \<noteq> []" using assms(9) 1 by auto
    ultimately have "entity_value m kind text = Some v"
      using labelled assms(9) 1 by (auto simp: entity_value_def on_off_words)
    moreover have "visible text" unfolding payload by (simp add: visible_def)
    ultimately show ?thesis using enc trim_visible visible_def by blast
  next
    case 2
    then have payload: "text = enum_label oor m v" "enum_label oor m v \<noteq> []"
      using assms(11) by (auto simp: entity_state_def split: if_splits)
    then have "map_of (m_ReverseEnum m) text = Some raw" "v = f_of_int raw" using labelled by auto
    with 2 have "entity_value m kind text = Some v" by (simp add: entity_value_def)
    with enc 2 assms(10) payload show ?thesis by auto
  next
    case 3
    then have payload: "text = format_float v" using assms(11) by (simp add: entity_state_def formatNumberPayload_def)
    then have "entity_value m kind text = Some v" using 3 parse_format [of v] by (simp add: entity_value_def v)
    with enc visible_format_float [of v] trim_visible show ?thesis unfolding payload visible_def by blast
  qed
  then obtain x where "trim_space text = text" "text \<noteq> []" "entity_value m kind text = Some x"
    "EncodeValueToEDT oor x m = Inr edt" by blast
  then show ?thesis by (simp add: executeWritableSet_def split: prod.split option.split)
qed

definition fan_metric :: MetricSpec where
  "fan_metric = zero_metric\<lparr>m_EPC := 0xA0, m_Name := ''fan'', m_Size := 1, m_Scale := Fin 1,
     m_Enum := [(0x41, ''auto''), (0x31, ''low''), (0x32, ''high'')],
     m_ReverseEnum := [(''auto'', 0x41), (''low'', 0x31), (''high'', 0x32)]\<rparr>"

theorem published_state_sends_back_witness:
  "\<exists>value. entity_value fan_metric ''select'' (trim_space ''low'') = Some value \<and> EncodeValueToEDT (\<lambda>_. 0) value fan_metric = Inr [0x31]"
proof -
  have "parseInteger [0x31] False = Inr 49" by (simp add: parseInteger_narrow)
  then have parse: "parseEDTWithReason (\<lambda>_. 0) (\<lambda>_. NaN) [0x31] fan_metric = Inr (Fin 49)"
    by (simp add: parseEDTWithReason_def fan_metric_def zero_metric_def go_slice_def wrap64_def scale_value_def
        f_of_int_small f_mul_def f_less_def round64_numeral)
  have label: "enum_label (\<lambda>_. 0) fan_metric (Fin 49) = ''low''"
    by (simp add: enum_label_def fan_metric_def f_to_int64_def trunc_rat_def int64_ok_def)
  have kind: "''select'' = WritableEntityType fan_metric"
    by (simp add: WritableEntityType_def fan_metric_def zero_metric_def)
  have exact: "scale_exact (\<lambda>_. 0) (\<lambda>_. NaN) (m_Scale fan_metric)" by (simp add: scale_exact_def fan_metric_def)
  have inv: "enum_inverse fan_metric" by (auto simp: enum_inverse_def fan_metric_def split: if_splits)
  have trim: "trim_space ''low'' = ''low''" by (rule trim_visible) (simp add: visible_def)
  have state: "entity_state ''select'' \<lparr>mv_Value = Fin 49, mv_Type = m_Type fan_metric, mv_EnumLabel = enum_label (\<lambda>_. 0) fan_metric (Fin 49)\<rparr>
      = Some ''low''" by (simp add: label entity_state_def)
  show ?thesis
    by (rule conjunct1 [OF conjunct2 [OF published_state_sends_back [OF _ _ _ exact _ parse inv kind _ _ state]]])
      (simp_all add: label trim, simp_all add: fan_metric_def zero_metric_def)
qed

end
