(* ===== verification/PublishQueue.thy ===== *)
theory PublishQueue
  imports Cache "HOL-Library.Sublist"
begin

text \<open>
  \<open>internal/mqtt/publisher.go\<close>: the queue between the cache's update callback and the MQTT publisher -
  \<open>EnqueueDeviceState\<close>, \<open>publishWorker\<close>, \<open>drainPending\<close> and the stop of \<open>Disconnect\<close> - as a step relation
  over the interleavings of the callers and the worker. A step is one critical section or one
  channel operation: a caller puts a state under the lock and signals later, and other steps may come
  in between. An execution is a list of events; what was enqueued and what was handed to \<open>publishFn\<close>
  are read off it. A panic of \<open>publishFn\<close> is recovered, so it is one more way to be done with an item.
  The lemmas show that the latest state of every device is published, in order, and that the worker
  settles after a bounded number of steps.
\<close>

section \<open>The queue\<close>

text \<open>Where the worker is; the flag tells that it drains for the last time.\<close>

datatype worker = Waiting | Draining bool | Publishing bool | Finished

text \<open>The states to publish per device name, the signal of the channel \<open>wake\<close> of capacity 1, whether \<open>stop\<close>
  is closed, the callers that have put a state and not signalled yet, and the worker.\<close>

record queue =
  pq_pending :: "string \<rightharpoonup> DeviceState"
  pq_wake :: bool
  pq_stop :: bool
  pq_callers :: nat
  pq_worker :: worker

definition new_queue :: queue where
  "new_queue = \<lparr>pq_pending = Map.empty, pq_wake = False, pq_stop = False, pq_callers = 0, pq_worker = Waiting\<rparr>"

abbreviation state_name :: "DeviceState \<Rightarrow> string" where
  "state_name st \<equiv> dv_Name (st_Device st)"

datatype event =
    Put DeviceState
  | Signal
  | Close
  | Wake
  | StopSeen
  | Take DeviceState
  | PublishDone
  | Empty

inductive queue_step :: "queue \<Rightarrow> event \<Rightarrow> queue \<Rightarrow> bool" where
  put: "queue_step q (Put st)
     (q\<lparr>pq_pending := (pq_pending q)(state_name st \<mapsto> st), pq_callers := Suc (pq_callers q)\<rparr>)"
| signal: "pq_callers q = Suc n \<Longrightarrow> queue_step q Signal (q\<lparr>pq_wake := True, pq_callers := n\<rparr>)"
| close: "\<not> pq_stop q \<Longrightarrow> queue_step q Close (q\<lparr>pq_stop := True\<rparr>)"
| wake: "pq_worker q = Waiting \<Longrightarrow> pq_wake q \<Longrightarrow>
     queue_step q Wake (q\<lparr>pq_wake := False, pq_worker := Draining False\<rparr>)"
| stop: "pq_worker q = Waiting \<Longrightarrow> pq_stop q \<Longrightarrow> queue_step q StopSeen (q\<lparr>pq_worker := Draining True\<rparr>)"
| take_one: "pq_worker q = Draining b \<Longrightarrow> pq_pending q name = Some st \<Longrightarrow>
     queue_step q (Take st) (q\<lparr>pq_pending := (pq_pending q)(name := None), pq_worker := Publishing b\<rparr>)"
| publish_done: "pq_worker q = Publishing b \<Longrightarrow> queue_step q PublishDone (q\<lparr>pq_worker := Draining b\<rparr>)"
| empty: "pq_worker q = Draining b \<Longrightarrow> pq_pending q = Map.empty \<Longrightarrow>
     queue_step q Empty (q\<lparr>pq_worker := if b then Finished else Waiting\<rparr>)"

inductive runs :: "queue \<Rightarrow> event list \<Rightarrow> queue \<Rightarrow> bool" where
  start: "runs q [] q"
| step: "runs q evs q' \<Longrightarrow> queue_step q' e q'' \<Longrightarrow> runs q (evs @ [e]) q''"

inductive_cases queue_stepE: "queue_step q e q'"
inductive_simps queue_step_simps:
  "queue_step q (Put st) q'" "queue_step q Signal q'" "queue_step q Close q'" "queue_step q Wake q'"
  "queue_step q StopSeen q'" "queue_step q (Take st) q'" "queue_step q PublishDone q'" "queue_step q Empty q'"

section \<open>Histories\<close>

fun put_of :: "event \<Rightarrow> DeviceState list" where
  "put_of (Put st) = [st]"
| "put_of _ = []"

fun taken_of :: "event \<Rightarrow> DeviceState list" where
  "taken_of (Take st) = [st]"
| "taken_of _ = []"

text \<open>The states of a device that were enqueued, and those handed to \<open>publishFn\<close>, oldest first.\<close>

definition enqueued :: "string \<Rightarrow> event list \<Rightarrow> DeviceState list" where
  "enqueued name evs = filter (\<lambda>st. state_name st = name) (concat (map put_of evs))"

definition published :: "string \<Rightarrow> event list \<Rightarrow> DeviceState list" where
  "published name evs = filter (\<lambda>st. state_name st = name) (concat (map taken_of evs))"

definition latest :: "'a list \<Rightarrow> 'a option" where
  "latest xs = (if xs = [] then None else Some (List.last xs))"

lemma latest_simps [simp]: "latest [] = None" "latest (xs @ [x]) = Some x"
  by (simp_all add: latest_def)

lemma enqueued_simps [simp]:
  "enqueued name [] = []"
  "enqueued name (evs @ [e]) = enqueued name evs @ filter (\<lambda>st. state_name st = name) (put_of e)"
  by (simp_all add: enqueued_def)

lemma published_simps [simp]:
  "published name [] = []"
  "published name (evs @ [e]) = published name evs @ filter (\<lambda>st. state_name st = name) (taken_of e)"
  by (simp_all add: published_def)

text \<open>Per device: what is pending is the latest enqueued state, and what was published before is a
  subsequence of the states before it; with nothing pending, the latest state was published.\<close>

definition history :: "queue \<Rightarrow> event list \<Rightarrow> string \<Rightarrow> bool" where
  "history q evs name =
     (case pq_pending q name of
        None \<Rightarrow> subseq (published name evs) (enqueued name evs) \<and> latest (published name evs) = latest (enqueued name evs)
      | Some st \<Rightarrow> state_name st = name
          \<and> (\<exists>before. enqueued name evs = before @ [st] \<and> subseq (published name evs) before))"

lemma history_step:
  assumes "\<And>name. history q evs name" "queue_step q e q'"
  shows "history q' (evs @ [e]) name"
  using assms(2)
proof cases
  case (put st)
  with assms(1) [of name] show ?thesis
    by (auto simp: history_def split: option.splits)
next
  case (take_one b n st)
  have n: "state_name st = n" using assms(1) [of n] take_one by (simp add: history_def)
  show ?thesis
  proof (cases "name = n")
    case True
    with assms(1) [of name] take_one n show ?thesis
      by (auto simp: history_def)
  next
    case False
    with assms(1) [of name] take_one n show ?thesis by (auto simp: history_def split: option.splits)
  qed
qed (use assms(1) [of name] in \<open>auto simp: history_def split: option.splits\<close>)

section \<open>The worker is woken\<close>

text \<open>A worker that waits while states are pending has a signal to see, or a caller is about to send one.\<close>

definition queue_ok :: "queue \<Rightarrow> bool" where
  "queue_ok q \<longleftrightarrow> finite (dom (pq_pending q))
     \<and> (pq_worker q = Waiting \<and> pq_pending q \<noteq> Map.empty \<longrightarrow> pq_wake q \<or> 0 < pq_callers q)"

lemma queue_ok_step: "queue_step q e q' \<Longrightarrow> queue_ok q \<Longrightarrow> queue_ok q'"
  by (induction rule: queue_step.induct) (auto simp: queue_ok_def)

lemma runs_ok: "runs q evs q' \<Longrightarrow> queue_ok q \<Longrightarrow> queue_ok q'"
  by (induction rule: runs.induct) (auto intro: queue_ok_step)

lemma new_queue_ok [simp]: "queue_ok new_queue"
  by (simp add: queue_ok_def new_queue_def)

lemma runs_history: "runs q evs q' \<Longrightarrow> q = new_queue \<Longrightarrow> history q' evs name"
proof (induction arbitrary: name rule: runs.induct)
  case (start q)
  then show ?case by (simp add: history_def new_queue_def)
qed (auto intro: history_step)

lemma runs_append: "runs q' evs' q'' \<Longrightarrow> runs q evs q' \<Longrightarrow> runs q (evs @ evs') q''"
proof (induction rule: runs.induct)
  case (step q evs1 q1 e q2)
  then show ?case using runs.step [of _ "evs @ evs1"] by simp
qed simp

section \<open>Settling\<close>

text \<open>The events of the program itself, once no new states arrive and nobody disconnects.\<close>

fun internal :: "event \<Rightarrow> bool" where
  "internal (Put _) = False"
| "internal Close = False"
| "internal _ = True"

definition quiescent :: "queue \<Rightarrow> bool" where
  "quiescent q \<longleftrightarrow> pq_callers q = 0
     \<and> (pq_worker q = Finished \<or> pq_worker q = Waiting \<and> \<not> pq_wake q \<and> \<not> pq_stop q)"

lemma quiescent_iff: "quiescent q \<longleftrightarrow> \<not> (\<exists>e q'. internal e \<and> queue_step q e q')"
proof
  assume "quiescent q"
  then show "\<not> (\<exists>e q'. internal e \<and> queue_step q e q')"
    by (auto simp: quiescent_def elim: queue_stepE)
next
  assume *: "\<not> (\<exists>e q'. internal e \<and> queue_step q e q')"
  have no: "queue_step q e q' \<Longrightarrow> internal e \<Longrightarrow> False" for e q' using * by blast
  have "pq_callers q = 0"
  proof (rule ccontr)
    assume "pq_callers q \<noteq> 0"
    then obtain n where "pq_callers q = Suc n" by (cases "pq_callers q") auto
    from no [OF queue_step.signal [OF this]] show False by simp
  qed
  moreover have "pq_worker q = Finished \<or> pq_worker q = Waiting \<and> \<not> pq_wake q \<and> \<not> pq_stop q"
  proof (cases "pq_worker q")
    case Waiting
    with no [OF queue_step.wake [OF Waiting]] no [OF queue_step.stop [OF Waiting]] show ?thesis by auto
  next
    case (Draining b)
    from no [OF queue_step.empty [OF Draining]] have "pq_pending q \<noteq> Map.empty" by auto
    then obtain n st where "pq_pending q n = Some st" by fastforce
    from no [OF queue_step.take_one [OF Draining this]] show ?thesis by simp
  next
    case (Publishing b)
    from no [OF queue_step.publish_done [OF Publishing]] show ?thesis by simp
  qed simp
  ultimately show "quiescent q" by (simp add: quiescent_def)
qed

fun worker_rank :: "worker \<Rightarrow> nat" where
  "worker_rank Finished = 0"
| "worker_rank (Draining True) = 1"
| "worker_rank (Publishing True) = 2"
| "worker_rank Waiting = 2"
| "worker_rank (Draining False) = 3"
| "worker_rank (Publishing False) = 4"

text \<open>A bound of the steps that the program has left.\<close>

definition steps_left :: "queue \<Rightarrow> nat" where
  "steps_left q = 3 * pq_callers q + 2 * (if pq_wake q then 1 else 0) + 2 * card (dom (pq_pending q)) + worker_rank (pq_worker q)"

lemma internal_step_decreases:
  "queue_step q e q' \<Longrightarrow> internal e \<Longrightarrow> queue_ok q \<Longrightarrow> steps_left q' < steps_left q"
proof (induction rule: queue_step.induct)
  case (take_one q b name st)
  then have "name \<in> dom (pq_pending q)" "finite (dom (pq_pending q))" by (auto simp: queue_ok_def)
  then have "0 < card (dom (pq_pending q))" "card (dom (pq_pending q) - {name}) = card (dom (pq_pending q)) - 1"
    by (auto simp: card_gt_0_iff)
  with take_one(1) show ?case by (cases b) (simp_all add: steps_left_def)
next
  case (publish_done q b)
  then show ?case by (cases b) (simp_all add: steps_left_def)
next
  case (empty q b)
  then show ?case by (cases b) (simp_all add: steps_left_def)
qed (auto simp: steps_left_def)

lemma internal_runs_decrease:
  "runs q evs q' \<Longrightarrow> queue_ok q \<Longrightarrow> list_all internal evs \<Longrightarrow> length evs + steps_left q' \<le> steps_left q"
proof (induction rule: runs.induct)
  case (step q evs q' e q'')
  then have "steps_left q'' < steps_left q'" using runs_ok internal_step_decreases by auto
  with step show ?case by simp
qed simp

lemma settles:
  assumes "queue_ok q"
  shows "\<exists>evs q'. runs q evs q' \<and> list_all internal evs \<and> quiescent q'"
  using assms
proof (induction "steps_left q" arbitrary: q rule: less_induct)
  case less
  show ?case
  proof (cases "quiescent q")
    case True
    then show ?thesis using runs.start by force
  next
    case False
    then obtain e q1 where e: "internal e" "queue_step q e q1" using quiescent_iff by blast
    then obtain evs q' where "runs q1 evs q'" "list_all internal evs" "quiescent q'"
      using less internal_step_decreases queue_ok_step by meson
    moreover from this runs_append [OF _ runs.step [OF runs.start e(2)], of evs q'] have "runs q (e # evs) q'" by simp
    ultimately show ?thesis using e(1) by (intro exI [of _ "e # evs"] exI [of _ q']) simp
  qed
qed

lemma internal_adds_none: "list_all internal evs' \<Longrightarrow> enqueued name (evs @ evs') = enqueued name evs"
proof -
  assume "list_all internal evs'"
  then have "concat (map put_of evs') = []" by (induction evs') (auto elim: internal.elims)
  then show ?thesis by (simp add: enqueued_def)
qed

text \<open>Stopping is not undone, and the worker finishes only for it.\<close>

lemma internal_step_keeps_stop: "queue_step q e q' \<Longrightarrow> internal e \<Longrightarrow> pq_stop q' = pq_stop q"
  by (induction rule: queue_step.induct) auto

lemma internal_keeps_stop: "runs q evs q' \<Longrightarrow> list_all internal evs \<Longrightarrow> pq_stop q' = pq_stop q"
  by (induction rule: runs.induct) (auto dest: internal_step_keeps_stop)

definition stop_ok :: "queue \<Rightarrow> bool" where
  "stop_ok q \<longleftrightarrow> (pq_worker q \<in> {Finished, Draining True, Publishing True} \<longrightarrow> pq_stop q)"

lemma stop_ok_step: "queue_step q e q' \<Longrightarrow> stop_ok q \<Longrightarrow> stop_ok q'"
  by (induction rule: queue_step.induct) (auto simp: stop_ok_def)

lemma runs_stop_ok: "runs q evs q' \<Longrightarrow> stop_ok q \<Longrightarrow> stop_ok q'"
  by (induction rule: runs.induct) (auto intro: stop_ok_step)

text \<open>A worker that finishes leaves nothing pending.\<close>

lemma finished_empty_step:
  "queue_step q e q' \<Longrightarrow> internal e \<Longrightarrow> pq_worker q = Finished \<longrightarrow> pq_pending q = Map.empty \<Longrightarrow>
    pq_worker q' = Finished \<longrightarrow> pq_pending q' = Map.empty"
  by (induction rule: queue_step.induct) auto

lemma finished_empty:
  assumes "runs q evs q'" "list_all internal evs" "pq_worker q = Finished \<longrightarrow> pq_pending q = Map.empty"
  shows "pq_worker q' = Finished \<longrightarrow> pq_pending q' = Map.empty"
  using assms
proof (induction rule: runs.induct)
  case (step q evs q' e q'')
  then show ?case using finished_empty_step by auto
qed simp

lemma quiescent_empty:
  assumes "runs new_queue evs q" "pq_worker q \<noteq> Finished" "runs q evs' q'" "list_all internal evs'" "quiescent q'"
  shows "pq_pending q' = Map.empty" "pq_worker q' = Finished \<longleftrightarrow> pq_stop q"
proof -
  have ok: "queue_ok q'" using runs_ok [OF assms(3) runs_ok [OF assms(1)]] by simp
  show "pq_pending q' = Map.empty"
    using finished_empty [OF assms(3,4)] assms(2,5) ok by (auto simp: quiescent_def queue_ok_def)
  have "stop_ok q'" using runs_stop_ok [OF runs_append [OF assms(3,1)]] by (simp add: stop_ok_def new_queue_def)
  then show "pq_worker q' = Finished \<longleftrightarrow> pq_stop q"
    using internal_keeps_stop [OF assms(3,4)] assms(5) by (auto simp: quiescent_def stop_ok_def)
qed

section \<open>An execution\<close>

text \<open>Two states of a device arrive before the worker is woken; only the second is published.\<close>

definition sample_state :: "bool \<Rightarrow> DeviceState" where
  "sample_state success = \<lparr>st_Device = sample_device, st_Info = zero_info, st_Metrics = [], st_MetricSpecs = [],
     st_Writable = None, st_Climate = None, st_Light = None, st_Success = success\<rparr>"

definition sample_queue :: "worker \<Rightarrow> bool \<Rightarrow> queue" where
  "sample_queue w pending = new_queue\<lparr>pq_pending := if pending then [''ac/1'' \<mapsto> sample_state True] else Map.empty,
     pq_callers := 1, pq_worker := w\<rparr>"

abbreviation sample_events :: "event list" where
  "sample_events \<equiv> [Put (sample_state False), Put (sample_state True), Signal, Wake]"

lemma sample_runs:
  "runs new_queue sample_events (sample_queue (Draining False) True)"
  "runs (sample_queue (Draining False) True) [Take (sample_state True), PublishDone, Empty, Signal, Wake, Empty]
     (new_queue)"
proof -
  have name: "state_name (sample_state b) = ''ac/1''" for b by (simp add: sample_state_def)
  have path: "runs q [] q" "runs q evs q1 \<Longrightarrow> queue_step q1 e q2 \<Longrightarrow> runs q (evs @ [e]) q2" for q evs q1 e q2
    by (auto intro: runs.intros)
  show "runs new_queue sample_events (sample_queue (Draining False) True)"
    using path(2) [OF path(2) [OF path(2) [OF path(2) [OF path(1) queue_step.put] queue_step.put] queue_step.signal] queue_step.wake,
        of new_queue "sample_state False" "sample_state True" 1]
    by (simp add: new_queue_def sample_queue_def name)
  let ?q = "sample_queue (Draining False) True"
  have steps:
    "queue_step ?q (Take (sample_state True)) (sample_queue (Publishing False) False)"
    "queue_step (sample_queue (Publishing False) False) PublishDone (sample_queue (Draining False) False)"
    "queue_step (sample_queue (Draining False) False) Empty (sample_queue Waiting False)"
    "queue_step (sample_queue Waiting False) Signal (new_queue\<lparr>pq_wake := True\<rparr>)"
    "queue_step (new_queue\<lparr>pq_wake := True\<rparr>) Wake (new_queue\<lparr>pq_worker := Draining False\<rparr>)"
    "queue_step (new_queue\<lparr>pq_worker := Draining False\<rparr>) Empty new_queue"
    by (auto simp: queue_step_simps sample_queue_def new_queue_def)
  show "runs ?q [Take (sample_state True), PublishDone, Empty, Signal, Wake, Empty] new_queue"
    using path(2) [OF path(2) [OF path(2) [OF path(2) [OF path(2) [OF path(2) [OF path(1) steps(1)] steps(2)] steps(3)] steps(4)]
      steps(5)] steps(6)] by simp
qed

section \<open>Properties\<close>

text \<open>C6: at every moment of every interleaving, the states that were published for a device are a
  subsequence of those enqueued - none is published twice, out of order or for another device -
  and the latest enqueued state is either still pending or the last one published.\<close>

theorem queue_keeps_latest:
  assumes "runs new_queue evs q"
  shows "subseq (published name evs) (enqueued name evs)
    \<and> latest (enqueued name evs) = (case pq_pending q name of Some st \<Rightarrow> Some st | None \<Rightarrow> latest (published name evs))"
  using runs_history [OF assms refl, of name]
  by (auto simp: history_def split: option.splits)

theorem queue_keeps_latest_witness:
  "subseq (published ''ac/1'' sample_events) (enqueued ''ac/1'' sample_events)
    \<and> latest (enqueued ''ac/1'' sample_events) = Some (sample_state True)"
  using queue_keeps_latest [OF sample_runs(1), of "''ac/1''"] by (simp add: sample_queue_def)


text \<open>C7: draining terminates. From any reachable state, whatever the interleaving, the program makes at
  most \<open>steps_left\<close> more steps without a new state or a disconnect, and it can always go on to a state
  in which nothing is left to do.\<close>

theorem queue_drains:
  assumes "runs new_queue evs q"
  shows "(\<forall>evs' q'. runs q evs' q' \<and> list_all internal evs' \<longrightarrow> length evs' \<le> steps_left q)
    \<and> (\<exists>evs' q'. runs q evs' q' \<and> list_all internal evs' \<and> quiescent q')"
proof -
  have ok: "queue_ok q" using runs_ok [OF assms] by simp
  with internal_runs_decrease [OF _ ok] settles [OF ok] show ?thesis by fastforce
qed

theorem queue_drains_witness:
  "\<exists>evs q. runs (sample_queue (Draining False) True) evs q \<and> list_all internal evs \<and> quiescent q"
  using queue_drains [OF sample_runs(1)] by blast


text \<open>C5: no update is lost. Once a queue whose worker has not exited comes to rest, the last state published
  for each device is the last one enqueued; and it rests with the worker exited just if \<open>Disconnect\<close>
  has closed \<open>stop\<close>, so that disconnecting flushes what was pending.\<close>

theorem latest_state_published:
  assumes "runs new_queue evs q" "pq_worker q \<noteq> Finished"
    and "runs q evs' q'" "list_all internal evs'" "quiescent q'"
  shows "latest (published name (evs @ evs')) = latest (enqueued name evs) \<and> (pq_worker q' = Finished \<longleftrightarrow> pq_stop q)"
proof -
  have "history q' (evs @ evs') name" using runs_history [OF runs_append [OF assms(3,1)] refl] .
  then show ?thesis
    using quiescent_empty [OF assms] internal_adds_none [OF assms(4)] by (simp add: history_def)
qed

theorem latest_state_published_witness:
  "latest (published ''ac/1'' (sample_events @ [Take (sample_state True), PublishDone, Empty, Signal, Wake, Empty]))
    = latest (enqueued ''ac/1'' sample_events) \<and> pq_worker new_queue \<noteq> Finished"
  using latest_state_published [OF sample_runs(1) _ sample_runs(2), of "''ac/1''"]
  by (simp add: quiescent_def sample_queue_def new_queue_def)

end
