(* ===== verification/Collector.thy ===== *)
theory Collector
  imports Cache GoNumber "HOL-Library.List_Lexorder" "HOL-Library.Char_ord"
begin

text \<open>
  \<open>internal/metrics/collector.go\<close>: the Prometheus collector. A descriptor is the tuple of the arguments
  of \<open>prometheus.NewDesc\<close> (the name kept in its parts, which the library joins), a metric that of
  \<open>MustNewConstMetric\<close>; \<open>Collect\<close> is the list of the metrics that are sent. The lemmas show that
  everything collected was described, with a value for each label (different label names and valid
  UTF-8 values under the stated conditions on the configuration and the cache), and that the state series of an
  enum metric are one-hot with different labels unless a sanitised label looks like a disambiguated one.
\<close>

section \<open>Descriptors\<close>

record Desc =
  de_subsystem :: string
  de_name :: string
  de_help :: string
  de_labels :: "string list"

record enumMeta =
  em_desc :: Desc
  em_values :: "(int \<times> string) list"

record Collector =
  co_devices :: "Device list"
  co_extraLabelKeys :: "string list"
  co_scrapeSuccess :: Desc
  co_scrapeDuration :: Desc
  co_lastScrapeTimestamp :: Desc
  co_deviceInfo :: Desc
  co_metricDescs :: "(string, (string, Desc) gomap) gomap"
  co_enumMetricDescs :: "(string, (string, enumMeta) gomap) gomap"

datatype value_type = GaugeValue | CounterValue

record sample =
  sa_desc :: Desc
  sa_type :: value_type
  sa_value :: float64
  sa_labels :: "string list"

text \<open>\<open>%x\<close> of an integer.\<close>

fun hex_digits :: "nat \<Rightarrow> string" where
  "hex_digits n = (if n < 16 then [hex_digit n] else hex_digits (n div 16) @ [hex_digit (n mod 16)])"

declare hex_digits.simps [simp del]

definition hex_int :: "int \<Rightarrow> string" where
  "hex_int i = (if i < 0 then ''-'' @ hex_digits (nat (- i)) else hex_digits (nat i))"

definition subsystemForClass :: "string \<Rightarrow> string" where
  "subsystemForClass cls =
     (if cls = ''storage_battery'' then ''battery''
      else if cls = ''home_solar'' then ''solar''
      else if cls = ''home_ac'' then ''ac''
      else cls)"

definition enum_rune :: "nat \<Rightarrow> bool" where
  "enum_rune r \<longleftrightarrow> 97 \<le> r \<and> r \<le> 122 \<or> 48 \<le> r \<and> r \<le> 57"

fun enum_chars :: "bool \<Rightarrow> nat list \<Rightarrow> string" where
  "enum_chars prevUnderscore [] = []"
| "enum_chars prevUnderscore (r # rs) =
     (if enum_rune r then char_of r # enum_chars False rs
      else if prevUnderscore then enum_chars True rs
      else CHR ''_'' # enum_chars True rs)"

definition trim_char :: "char \<Rightarrow> string \<Rightarrow> string" where
  "trim_char c s = rev (dropWhile (\<lambda>x. x = c) (rev (dropWhile (\<lambda>x. x = c) s)))"

definition sanitizeEnumLabel :: "string \<Rightarrow> string" where
  "sanitizeEnumLabel s =
     (let out = trim_char (CHR ''_'') (enum_chars False (map fst (runes (go_lower (trim_space s)))))
      in if out = [] then ''value'' else out)"

text \<open>The labels of the values of an enum, in the order of the values: one that is taken gets the value
  as a suffix.\<close>

fun state_labels :: "string set \<Rightarrow> (int \<times> string) list \<Rightarrow> (int \<times> string) list" where
  "state_labels usedLabels [] = []"
| "state_labels usedLabels ((value, label) # rest) =
     (let stateLabel0 = sanitizeEnumLabel label;
          stateLabel = (if stateLabel0 \<in> usedLabels then stateLabel0 @ ''_0x'' @ hex_int value else stateLabel0)
      in (value, stateLabel) # state_labels (insert stateLabel usedLabels) rest)"

definition enum_entries :: "(int, string) gomap \<Rightarrow> (int \<times> string) list" where
  "enum_entries enum = map (\<lambda>value. (value, case map_of enum value of Some l \<Rightarrow> l | None \<Rightarrow> [])) (sort (map fst enum))"

definition trim_suffix_dot :: "string \<Rightarrow> string" where
  "trim_suffix_dot s = (if s \<noteq> [] \<and> List.last s = CHR ''.'' then butlast s else s)"

definition buildEnumMeta :: "string \<Rightarrow> MetricSpec \<Rightarrow> string list \<Rightarrow> enumMeta" where
  "buildEnumMeta subsystem m labels =
     (let help0 = (if m_Help m = [] then ''Current state of '' @ m_Name m @ ''.'' else m_Help m)
      in \<lparr>em_desc = \<lparr>de_subsystem = subsystem, de_name = m_Name m @ ''_info'',
            de_help = trim_suffix_dot help0 @ '' (1 if active, else 0)'', de_labels = labels @ [''state'']\<rparr>,
          em_values = state_labels {} (enum_entries (m_Enum m))\<rparr>)"

definition collectExtraLabelKeys :: "Device list \<Rightarrow> string list" where
  "collectExtraLabelKeys devices =
     sort (remdups (filter (\<lambda>k. k \<noteq> []) (concat (map (\<lambda>dev. map fst (dv_Labels dev)) devices))))"

definition metric_desc :: "string \<Rightarrow> string list \<Rightarrow> MetricSpec \<Rightarrow> Desc" where
  "metric_desc cls names m =
     \<lparr>de_subsystem = subsystemForClass cls, de_name = m_Name m, de_help = m_Help m, de_labels = names\<rparr>"

definition class_descs :: "string \<Rightarrow> string list \<Rightarrow> MetricSpec list \<Rightarrow> (string, Desc) gomap" where
  "class_descs cls names ms = fold (\<lambda>m. AList.update (m_Name m) (metric_desc cls names m)) ms []"

definition class_enums :: "string \<Rightarrow> string list \<Rightarrow> MetricSpec list \<Rightarrow> (string, enumMeta) gomap" where
  "class_enums cls names ms =
     fold (\<lambda>m. if 0 < length (m_Enum m) then AList.update (m_Name m) (buildEnumMeta (subsystemForClass cls) m names) else id)
       ms []"

definition NewCollector :: "Device list \<Rightarrow> (string, DeviceSpec option) gomap \<Rightarrow> Collector" where
  "NewCollector devices deviceSpecs =
     (let extraLabelKeys = collectExtraLabelKeys devices;
          allLabelNames = [''device'', ''ip'', ''class''] @ extraLabelKeys;
          infoLabelNames = allLabelNames @ [''manufacturer'', ''product_code'', ''uid''];
          desc = (\<lambda>name help names. \<lparr>de_subsystem = [], de_name = name, de_help = help, de_labels = names\<rparr>)
      in \<lparr>co_devices = devices, co_extraLabelKeys = extraLabelKeys,
          co_scrapeSuccess = desc ''scrape_success'' ''1 if the last scrape of this device succeeded, 0 otherwise.'' allLabelNames,
          co_scrapeDuration = desc ''scrape_duration_seconds''
            ''Duration of the last scrape for this device in seconds.'' allLabelNames,
          co_lastScrapeTimestamp = desc ''last_scrape_timestamp_seconds''
            ''Unix timestamp of the last successful scrape for this device.'' allLabelNames,
          co_deviceInfo = desc ''device_info'' ''Static device identity labels from generic ECHONET properties.'' infoLabelNames,
          co_metricDescs = fold (\<lambda>(cls, spec) descs. case spec of None \<Rightarrow> descs
            | Some s \<Rightarrow> AList.update cls (class_descs cls allLabelNames (d_Metrics s)) descs) deviceSpecs [],
          co_enumMetricDescs = fold (\<lambda>(cls, spec) metas. case spec of None \<Rightarrow> metas
            | Some s \<Rightarrow> AList.update cls (class_enums cls allLabelNames (d_Metrics s)) metas) deviceSpecs []\<rparr>)"

definition Describe :: "Collector \<Rightarrow> Desc list" where
  "Describe co =
     [co_scrapeSuccess co, co_scrapeDuration co, co_lastScrapeTimestamp co, co_deviceInfo co]
     @ concat (map (\<lambda>(_, descs). map snd descs) (co_metricDescs co))
     @ concat (map (\<lambda>(_, byMetric). map (\<lambda>(_, meta). em_desc meta) byMetric) (co_enumMetricDescs co))"

section \<open>Collecting\<close>

definition labelValues :: "Collector \<Rightarrow> Device \<Rightarrow> string list" where
  "labelValues co dev =
     [dv_Name dev, dv_IP dev, dv_Class dev]
     @ map (\<lambda>k. case map_of (dv_Labels dev) k of Some v \<Rightarrow> v | None \<Rightarrow> []) (co_extraLabelKeys co)"

definition const_metric :: "Desc \<Rightarrow> value_type \<Rightarrow> float64 \<Rightarrow> string list \<Rightarrow> sample" where
  "const_metric desc vt v labels = \<lparr>sa_desc = desc, sa_type = vt, sa_value = v, sa_labels = labels\<rparr>"

definition state_series :: "(float64 \<Rightarrow> int) \<Rightarrow> enumMeta \<Rightarrow> string list \<Rightarrow> float64 \<Rightarrow> sample list" where
  "state_series oor meta labels value =
     (let raw = f_to_int64 oor (f_round value)
      in map (\<lambda>(rawInt, stateLabel).
           const_metric (em_desc meta) GaugeValue (if raw = rawInt then Fin 1 else Zero False) (labels @ [stateLabel]))
         (em_values meta))"

definition collectDeviceMetrics ::
  "(float64 \<Rightarrow> int) \<Rightarrow> string \<Rightarrow> string list \<Rightarrow> (string, MetricValue) gomap \<Rightarrow> Collector \<Rightarrow> sample list" where
  "collectDeviceMetrics oor cls labels metrics co =
     (case map_of (co_metricDescs co) cls of
        None \<Rightarrow> []
      | Some classDescs \<Rightarrow>
          let classEnumDescs = (case map_of (co_enumMetricDescs co) cls of Some m \<Rightarrow> m | None \<Rightarrow> [])
          in concat (map (\<lambda>(name, mv).
               case map_of classDescs name of
                 None \<Rightarrow> []
               | Some desc \<Rightarrow>
                   const_metric desc (if mv_Type mv = ''counter'' then CounterValue else GaugeValue) (mv_Value mv) labels
                   # (case map_of classEnumDescs name of
                        None \<Rightarrow> []
                      | Some meta \<Rightarrow> state_series oor meta labels (mv_Value mv))) metrics))"

text \<open>\<open>time.Time.Unix\<close>: seconds since 1970.\<close>

definition unix_seconds :: "time \<Rightarrow> int" where
  "unix_seconds t = t div second - 62135596800"

definition collectDevice :: "(float64 \<Rightarrow> int) \<Rightarrow> time \<Rightarrow> Cache \<Rightarrow> Device \<Rightarrow> Collector \<Rightarrow> sample list" where
  "collectDevice oor now cache dev co =
     (case Get now dev cache of
        (success, durationSec, lastScrape, metrics) \<Rightarrow>
          let info = GetInfo dev cache;
              labels = labelValues co dev
          in [const_metric (co_scrapeSuccess co) GaugeValue (if success then Fin 1 else Zero False) labels,
              const_metric (co_scrapeDuration co) GaugeValue durationSec labels,
              const_metric (co_deviceInfo co) GaugeValue (Fin 1)
                (labels @ [v_Manufacturer info, v_ProductCode info, v_UID info])]
             @ (if success \<and> lastScrape \<noteq> zero_time
                then [const_metric (co_lastScrapeTimestamp co) GaugeValue (f_of_int (unix_seconds lastScrape)) labels] else [])
             @ collectDeviceMetrics oor (dv_Class dev) labels (case metrics of Some m \<Rightarrow> m | None \<Rightarrow> []) co)"

definition Collect_metrics :: "(float64 \<Rightarrow> int) \<Rightarrow> time \<Rightarrow> Cache \<Rightarrow> Collector \<Rightarrow> sample list" where
  "Collect_metrics oor now cache co = concat (map (\<lambda>dev. collectDevice oor now cache dev co) (co_devices co))"

section \<open>Lemmas: descriptors\<close>

text \<open>The label names of every series: the identity of the device and the labels of the configuration.\<close>

definition base_labels :: "Collector \<Rightarrow> string list" where
  "base_labels co = [''device'', ''ip'', ''class''] @ co_extraLabelKeys co"

text \<open>Every descriptor of a collector names the labels that are given a value, and the state labels of an
  enum are valid UTF-8.\<close>

definition desc_maps_ok :: "Collector \<Rightarrow> bool" where
  "desc_maps_ok co \<longleftrightarrow>
     (\<forall>cls descs name d. map_of (co_metricDescs co) cls = Some descs \<longrightarrow> map_of descs name = Some d \<longrightarrow>
        de_labels d = base_labels co)
     \<and> (\<forall>cls metas name meta. map_of (co_enumMetricDescs co) cls = Some metas \<longrightarrow> map_of metas name = Some meta \<longrightarrow>
        de_labels (em_desc meta) = base_labels co @ [''state'']
        \<and> (\<forall>(k, l) \<in> set (em_values meta). valid_utf8 l))"

text \<open>A state label is ASCII.\<close>

lemma enum_chars_ascii: "c \<in> set (enum_chars p rs) \<Longrightarrow> of_char c < (0x80 :: nat)"
  by (induction p rs rule: enum_chars.induct) (auto simp: enum_rune_def take_bit_eq_mod split: if_splits)

lemma trim_char_subset: "set (trim_char x s) \<subseteq> set s"
  unfolding trim_char_def by (auto dest!: set_dropWhileD)

lemma sanitizeEnumLabel_ascii: "c \<in> set (sanitizeEnumLabel s) \<Longrightarrow> of_char c < (0x80 :: nat)"
  using enum_chars_ascii trim_char_subset unfolding sanitizeEnumLabel_def Let_def
  by (fastforce split: if_splits)

lemma hex_digits_ascii: "c \<in> set (hex_digits n) \<Longrightarrow> of_char c < (0x80 :: nat)"
proof (induction n rule: hex_digits.induct)
  case (1 n)
  have digit: "of_char (hex_digit k) < (0x80 :: nat)" if "k < 16" for k
  proof -
    from that have "k \<in> set [0..<16]" by simp
    then show ?thesis by (auto simp: upt_rec_numeral hex_digit_def)
  qed
  show ?case using 1 digit by (auto simp: hex_digits.simps [of n] split: if_splits)
qed

lemma state_labels_ascii:
  "(v, l) \<in> set (state_labels used es) \<Longrightarrow> c \<in> set l \<Longrightarrow> of_char c < (0x80 :: nat)"
proof (induction used es rule: state_labels.induct)
  case (2 used k label rest)
  from "2.prems"(1) consider "(v, l) \<in> set (state_labels (insert (if sanitizeEnumLabel label \<in> used
        then sanitizeEnumLabel label @ ''_0x'' @ hex_int k else sanitizeEnumLabel label) used) rest)"
    | "l = sanitizeEnumLabel label" | "l = sanitizeEnumLabel label @ ''_0x'' @ hex_int k"
    by (auto simp: Let_def split: if_splits)
  then show ?case
  proof cases
    case 1
    with "2.IH" [OF refl refl] "2.prems"(2) show ?thesis by blast
  next
    case 2
    with "2.prems"(2) sanitizeEnumLabel_ascii show ?thesis by blast
  next
    case 3
    with "2.prems"(2) sanitizeEnumLabel_ascii hex_digits_ascii show ?thesis
      by (auto simp: hex_int_def split: if_splits)
  qed
qed simp

lemma map_of_fold_update:
  "map_of (fold (\<lambda>m. AList.update (k m) (v m)) ms acc) name = Some d \<Longrightarrow>
     (\<exists>m \<in> set ms. d = v m) \<or> map_of acc name = Some d"
  by (induction ms arbitrary: acc) (fastforce split: if_splits)+

lemma class_descs_labels: "map_of (class_descs cls names ms) name = Some d \<Longrightarrow> de_labels d = names"
  unfolding class_descs_def by (drule map_of_fold_update) (auto simp: metric_desc_def)

lemma class_enums_labels:
  assumes "map_of (class_enums cls names ms) name = Some meta"
  shows "de_labels (em_desc meta) = names @ [''state''] \<and> (\<forall>(k, l) \<in> set (em_values meta). valid_utf8 l)"
proof -
  have meta: "de_labels (em_desc (buildEnumMeta sub m names)) = names @ [''state'']
      \<and> (\<forall>(k, l) \<in> set (em_values (buildEnumMeta sub m names)). valid_utf8 l)" for sub m
    using state_labels_ascii by (auto simp: buildEnumMeta_def Let_def intro!: valid_utf8_ascii)
  have "map_of (fold (\<lambda>m. if 0 < length (m_Enum m) then AList.update (m_Name m) (buildEnumMeta (subsystemForClass cls) m names)
        else id) ms acc) name = Some meta \<Longrightarrow>
      (\<exists>sub m. meta = buildEnumMeta sub m names) \<or> map_of acc name = Some meta" for acc
    by (induction ms arbitrary: acc) (fastforce split: if_splits)+
  from this [of "[]"] assms obtain sub m where "meta = buildEnumMeta sub m names" by (auto simp: class_enums_def)
  then show ?thesis using meta by blast
qed

lemma map_of_fold_specs:
  "map_of (fold (\<lambda>(cls, spec) acc. case spec of None \<Rightarrow> acc | Some s \<Rightarrow> AList.update cls (f cls s) acc) specs acc) cls = Some d \<Longrightarrow>
     (\<exists>s. d = f cls s) \<or> map_of acc cls = Some d"
  by (induction specs arbitrary: acc) (fastforce split: if_splits option.splits)+

lemma NewCollector_ok: "desc_maps_ok (NewCollector devices specs)"
  unfolding desc_maps_ok_def base_labels_def NewCollector_def Let_def Collector.simps
  by (auto dest!: map_of_fold_specs class_descs_labels class_enums_labels)

lemma labelValues_length: "length (labelValues co dev) = 3 + length (co_extraLabelKeys co)"
  by (simp add: labelValues_def)

definition checked :: "Collector \<Rightarrow> sample \<Rightarrow> bool" where
  "checked co s \<longleftrightarrow> sa_desc s \<in> set (Describe co) \<and> length (sa_labels s) = length (de_labels (sa_desc s))"

lemma described_metric:
  assumes "map_of (co_metricDescs co) cls = Some descs" "map_of descs name = Some d"
  shows "d \<in> set (Describe co)"
proof -
  have "(cls, descs) \<in> set (co_metricDescs co)" "(name, d) \<in> set descs"
    using map_of_SomeD [OF assms(1)] map_of_SomeD [OF assms(2)] by simp_all
  then have "d \<in> (\<Union>(c, ds) \<in> set (co_metricDescs co). snd ` set ds)" by (intro UN_I [of "(cls, descs)"]) (auto simp: rev_image_eqI)
  then show ?thesis by (simp add: Describe_def case_prod_beta)
qed

lemma described_enum:
  assumes "map_of (co_enumMetricDescs co) cls = Some metas" "map_of metas name = Some meta"
  shows "em_desc meta \<in> set (Describe co)"
proof -
  have "(cls, metas) \<in> set (co_enumMetricDescs co)" "(name, meta) \<in> set metas"
    using map_of_SomeD [OF assms(1)] map_of_SomeD [OF assms(2)] by simp_all
  then have "em_desc meta \<in> (\<Union>(c, ms) \<in> set (co_enumMetricDescs co). (\<lambda>(_, meta). em_desc meta) ` set ms)"
    by (intro UN_I [of "(cls, metas)"]) (auto simp: rev_image_eqI)
  then show ?thesis by (simp add: Describe_def case_prod_beta)
qed

text \<open>A collected metric of a class is a value with the device's labels, or a state series of an enum.\<close>

lemma metric_samples:
  assumes "s \<in> set (collectDeviceMetrics oor cls labels metrics co)"
  obtains (plain) descs name where "map_of (co_metricDescs co) cls = Some descs" "map_of descs name = Some (sa_desc s)"
      "sa_labels s = labels"
  | (state) metas name meta k l where "map_of (co_enumMetricDescs co) cls = Some metas" "map_of metas name = Some meta"
      "sa_desc s = em_desc meta" "(k, l) \<in> set (em_values meta)" "sa_labels s = labels @ [l]"
proof -
  obtain descs where cls: "map_of (co_metricDescs co) cls = Some descs"
    using assms by (cases "map_of (co_metricDescs co) cls") (auto simp: collectDeviceMetrics_def)
  define metas where "metas = (case map_of (co_enumMetricDescs co) cls of Some m \<Rightarrow> m | None \<Rightarrow> [])"
  define g where "g name mv = (case map_of descs name of None \<Rightarrow> []
      | Some desc \<Rightarrow> const_metric desc (if mv_Type mv = ''counter'' then CounterValue else GaugeValue) (mv_Value mv) labels
          # (case map_of metas name of None \<Rightarrow> [] | Some meta \<Rightarrow> state_series oor meta labels (mv_Value mv)))"
    for name and mv :: MetricValue
  have "collectDeviceMetrics oor cls labels metrics co = concat (map (\<lambda>(name, mv). g name mv) metrics)"
    unfolding collectDeviceMetrics_def cls option.case Let_def metas_def g_def ..
  then obtain name mv where "s \<in> set (g name mv)" using assms by auto
  then obtain desc where d: "map_of descs name = Some desc"
    and s: "s = const_metric desc (if mv_Type mv = ''counter'' then CounterValue else GaugeValue) (mv_Value mv) labels
      \<or> (\<exists>meta. map_of metas name = Some meta \<and> s \<in> set (state_series oor meta labels (mv_Value mv)))"
    by (cases "map_of descs name"; cases "map_of metas name") (auto simp: g_def)
  from s show thesis
  proof
    assume "s = const_metric desc (if mv_Type mv = ''counter'' then CounterValue else GaugeValue) (mv_Value mv) labels"
    with plain [OF cls] d show thesis by (simp add: const_metric_def)
  next
    assume "\<exists>meta. map_of metas name = Some meta \<and> s \<in> set (state_series oor meta labels (mv_Value mv))"
    then obtain meta where m: "map_of (co_enumMetricDescs co) cls = Some metas" "map_of metas name = Some meta"
      and s: "s \<in> set (state_series oor meta labels (mv_Value mv))"
      by (cases "map_of (co_enumMetricDescs co) cls") (auto simp: metas_def)
    from s obtain k l where "(k, l) \<in> set (em_values meta)" "sa_desc s = em_desc meta" "sa_labels s = labels @ [l]"
      by (auto simp: state_series_def const_metric_def)
    with state [OF m] show thesis by blast
  qed
qed

text \<open>The label names of what is collected for a device, with the values they get.\<close>

definition labelled :: "Collector \<Rightarrow> DeviceInfo \<Rightarrow> Device \<Rightarrow> sample \<Rightarrow> bool" where
  "labelled co info dev s \<longleftrightarrow>
     de_labels (sa_desc s) = base_labels co \<and> sa_labels s = labelValues co dev
     \<or> de_labels (sa_desc s) = base_labels co @ [''manufacturer'', ''product_code'', ''uid'']
        \<and> sa_labels s = labelValues co dev @ [v_Manufacturer info, v_ProductCode info, v_UID info]
     \<or> de_labels (sa_desc s) = base_labels co @ [''state''] \<and> (\<exists>l. valid_utf8 l \<and> sa_labels s = labelValues co dev @ [l])"

lemma collected_labelled:
  assumes "s \<in> set (collectDevice oor now cache dev (NewCollector devices specs))"
  shows "sa_desc s \<in> set (Describe (NewCollector devices specs))
    \<and> labelled (NewCollector devices specs) (GetInfo dev cache) dev s"
proof -
  let ?co = "NewCollector devices specs"
  note fixed = labelled_def Describe_def const_metric_def base_labels_def
  have names: "de_labels (co_scrapeSuccess ?co) = base_labels ?co" "de_labels (co_scrapeDuration ?co) = base_labels ?co"
    "de_labels (co_lastScrapeTimestamp ?co) = base_labels ?co"
    "de_labels (co_deviceInfo ?co) = base_labels ?co @ [''manufacturer'', ''product_code'', ''uid'']"
    by (simp_all add: NewCollector_def Let_def base_labels_def)
  obtain success dur scraped metrics where get: "Get now dev cache = (success, dur, scraped, metrics)"
    by (cases "Get now dev cache")
  from assms consider "s \<in> set (collectDeviceMetrics oor (dv_Class dev) (labelValues ?co dev)
        (case metrics of Some m \<Rightarrow> m | None \<Rightarrow> []) ?co)"
    | "sa_desc s \<in> {co_scrapeSuccess ?co, co_scrapeDuration ?co, co_lastScrapeTimestamp ?co}" "sa_labels s = labelValues ?co dev"
    | "sa_desc s = co_deviceInfo ?co"
      "sa_labels s = labelValues ?co dev @ [v_Manufacturer (GetInfo dev cache), v_ProductCode (GetInfo dev cache), v_UID (GetInfo dev cache)]"
    unfolding collectDevice_def get Let_def prod.case by (auto simp: const_metric_def split: if_splits)
  then show ?thesis
  proof cases
    case 1
    then show ?thesis
    proof (cases rule: metric_samples)
      case plain
      then show ?thesis using described_metric [OF plain(1,2)] NewCollector_ok [of devices specs]
        unfolding desc_maps_ok_def labelled_def by blast
    next
      case (state metas name meta k l)
      have "de_labels (em_desc meta) = base_labels ?co @ [''state''] \<and> (\<forall>(k, l) \<in> set (em_values meta). valid_utf8 l)"
        using NewCollector_ok [of devices specs] state(1,2) unfolding desc_maps_ok_def by blast
      with state(4) have "de_labels (em_desc meta) = base_labels ?co @ [''state'']" "valid_utf8 l" by auto
      then show ?thesis using described_enum [OF state(1,2)] state(3,5) unfolding labelled_def by auto
    qed
  next
    case 2
    then have "de_labels (sa_desc s) = base_labels ?co" using names by auto
    with 2 show ?thesis by (auto simp: labelled_def Describe_def)
  next
    case 3
    with names show ?thesis by (simp add: labelled_def Describe_def)
  qed
qed

section \<open>Lemmas: labels of states\<close>

lemma hex_digit_plain: "n < 16 \<Longrightarrow> hex_digit n \<noteq> CHR ''_'' \<and> hex_digit n \<noteq> CHR ''-''"
  by (auto simp: hex_digit_def char_of_eq_iff take_bit_eq_mod)

lemma hex_digits_chars: "CHR ''_'' \<notin> set (hex_digits n) \<and> CHR ''-'' \<notin> set (hex_digits n)"
proof (induction n rule: hex_digits.induct)
  case (1 n)
  show ?case
  proof (cases "n < 16")
    case True
    with hex_digit_plain [of n] show ?thesis by (auto simp: hex_digits.simps [of n])
  next
    case False
    with 1 hex_digit_plain [of "n mod 16"] show ?thesis by (subst (1 2) hex_digits.simps) auto
  qed
qed

lemma hex_digits_not_Nil [simp]: "hex_digits n \<noteq> []"
  by (subst hex_digits.simps) simp

lemma hex_digits_inj: "hex_digits n = hex_digits m \<Longrightarrow> n = m"
proof (induction n arbitrary: m rule: hex_digits.induct)
  case (1 n)
  show ?case
  proof (cases "n < 16")
    case True
    with 1(2) show ?thesis
      by (cases "m < 16") (auto simp: hex_digits.simps [of n] hex_digits.simps [of m] hex_digits_not_Nil [symmetric] intro: hex_digit_inj)
  next
    case False
    with 1(2) have m: "\<not> m < 16" by (auto simp: hex_digits.simps [of n] hex_digits.simps [of m])
    with 1(2) False have "hex_digits (n div 16) = hex_digits (m div 16)" "hex_digit (n mod 16) = hex_digit (m mod 16)"
      by (simp_all add: hex_digits.simps [of n] hex_digits.simps [of m])
    with 1(1) [OF False] hex_digit_inj [of "n mod 16" "m mod 16"] have "n div 16 = m div 16" "n mod 16 = m mod 16" by auto
    then show ?thesis by (metis div_mult_mod_eq)
  qed
qed

lemma hex_int_plain: "CHR ''_'' \<notin> set (hex_int i)"
  using hex_digits_chars by (simp add: hex_int_def)

lemma hex_int_inj: "hex_int i = hex_int j \<Longrightarrow> i = j"
proof -
  assume e: "hex_int i = hex_int j"
  have "hd (hex_digits n) \<noteq> CHR ''-''" for n
    using hex_digits_chars [of n] hd_in_set [OF hex_digits_not_Nil [of n]] by metis
  then have sgn: "hex_digits n \<noteq> CHR ''-'' # x" "CHR ''-'' # x \<noteq> hex_digits n" for n x by (metis list.sel(1))+
  show "i = j"
  proof (cases "i < 0"; cases "j < 0")
    assume "i < 0" "j < 0"
    with e have "nat (- i) = nat (- j)" by (auto simp: hex_int_def intro: hex_digits_inj)
    with \<open>i < 0\<close> \<open>j < 0\<close> show ?thesis by simp
  next
    assume "\<not> i < 0" "\<not> j < 0"
    with e have "nat i = nat j" by (auto simp: hex_int_def intro: hex_digits_inj)
    with \<open>\<not> i < 0\<close> \<open>\<not> j < 0\<close> show ?thesis by simp
  qed (use e sgn in \<open>auto simp: hex_int_def\<close>)
qed

text \<open>Different values have different disambiguated labels.\<close>

lemma suffix_inj: "a @ ''_0x'' @ hex_int i = b @ ''_0x'' @ hex_int j \<Longrightarrow> i = j"
proof -
  assume "a @ ''_0x'' @ hex_int i = b @ ''_0x'' @ hex_int j"
  then have "rev (hex_int i) @ ''x0_'' @ rev a = rev (hex_int j) @ ''x0_'' @ rev b"
    by (metis append.assoc rev_append rev.simps append_Cons append_Nil)
  moreover have "takeWhile (\<lambda>c. c \<noteq> CHR ''_'') (rev (hex_int i) @ ''x0_'' @ s) = rev (hex_int i) @ ''x0''" for i s
    using hex_int_plain [of i] by (subst takeWhile_append2) auto
  ultimately have "rev (hex_int i) @ ''x0'' = rev (hex_int j) @ ''x0''" by metis
  then show "i = j" by (simp add: hex_int_inj)
qed

text \<open>No sanitised label of the enum looks like one with a suffix.\<close>

definition suffix_free :: "(int, string) gomap \<Rightarrow> bool" where
  "suffix_free enum \<longleftrightarrow>
     list_all (\<lambda>(v, l). list_all (\<lambda>(_, l'). sanitizeEnumLabel l' \<noteq> sanitizeEnumLabel l @ ''_0x'' @ hex_int v) enum) enum"

lemma state_labels_values: "map fst (state_labels used es) = map fst es"
  by (induction used es rule: state_labels.induct) (simp_all add: Let_def)

lemma state_labels_distinct:
  assumes "distinct (map fst es)"
    and "\<And>v l l'. (v, l) \<in> set es \<Longrightarrow> l' \<in> snd ` set es \<Longrightarrow> sanitizeEnumLabel l' \<noteq> sanitizeEnumLabel l @ ''_0x'' @ hex_int v"
    and "\<And>v l. (v, l) \<in> set es \<Longrightarrow> sanitizeEnumLabel l @ ''_0x'' @ hex_int v \<notin> used"
  shows "distinct (map snd (state_labels used es)) \<and> set (map snd (state_labels used es)) \<inter> used = {}"
  using assms
proof (induction used es rule: state_labels.induct)
  case (2 used v l rest)
  define s where "s = (if sanitizeEnumLabel l \<in> used then sanitizeEnumLabel l @ ''_0x'' @ hex_int v else sanitizeEnumLabel l)"
  have new: "s \<notin> used" using 2(4) [of v l] by (simp add: s_def)
  have suffix: "sanitizeEnumLabel l' @ ''_0x'' @ hex_int v' \<noteq> s" if "(v', l') \<in> set rest" for v' l'
  proof -
    have "v' \<noteq> v" using that 2(2) by (auto simp: rev_image_eqI)
    then show ?thesis using suffix_inj [of "sanitizeEnumLabel l'" v' _ v] 2(3) [of v' l' l] that by (auto simp: s_def)
  qed
  have "distinct (map snd (state_labels (insert s used) rest)) \<and> set (map snd (state_labels (insert s used) rest)) \<inter> insert s used = {}"
    using 2 suffix unfolding s_def by (intro "2.IH") auto
  with new show ?case by (auto simp: Let_def s_def)
qed simp

lemma filter_one: "distinct xs \<Longrightarrow> length (filter (\<lambda>x. a = x) xs) = (if a \<in> set xs then 1 else 0)"
  by (induction xs) auto

lemma enum_entries_keys: "map fst (enum_entries enum) = sort (map fst enum)"
  by (simp add: enum_entries_def comp_def)

lemma enum_entries_set: "gomap_ok enum \<Longrightarrow> set (enum_entries enum) = set enum"
  by (force simp: enum_entries_def gomap_ok_def)

text \<open>What the cache holds for a metric of the device's class is collected.\<close>

lemma map_of_fold_specs_own:
  "gomap_ok specs \<Longrightarrow> map_of specs cls = Some (Some s) \<Longrightarrow>
     map_of (fold (\<lambda>(cls, spec) acc. case spec of None \<Rightarrow> acc | Some s \<Rightarrow> AList.update cls (f cls s) acc) specs acc) cls
       = Some (f cls s)"
proof (induction specs arbitrary: acc)
  case (Cons p specs)
  have other: "map_of (fold (\<lambda>(cls, spec) acc. case spec of None \<Rightarrow> acc | Some s \<Rightarrow> AList.update cls (f cls s) acc) specs acc) cls
      = map_of acc cls" if "cls \<notin> fst ` set specs" for acc
    using that by (induction specs arbitrary: acc) (auto split: option.splits)
  obtain cls' spec where p: "p = (cls', spec)" by force
  show ?case
  proof (cases "cls' = cls")
    case True
    with Cons.prems p have "spec = Some s" "cls \<notin> fst ` set specs" by (auto simp: gomap_ok_def)
    with True p show ?thesis by (simp add: other)
  next
    case False
    with Cons p show ?thesis by (simp add: gomap_ok_def)
  qed
qed simp

lemma class_descs_own:
  "distinct (map m_Name ms) \<Longrightarrow> m \<in> set ms \<Longrightarrow> map_of (class_descs cls names ms) (m_Name m) = Some (metric_desc cls names m)"
proof -
  have other: "n \<notin> m_Name ` set ms \<Longrightarrow>
      map_of (fold (\<lambda>m. AList.update (m_Name m) (metric_desc cls names m)) ms acc) n = map_of acc n" for n acc ms
    by (induction ms arbitrary: acc) auto
  have "distinct (map m_Name ms) \<Longrightarrow> m \<in> set ms \<Longrightarrow>
      map_of (fold (\<lambda>m. AList.update (m_Name m) (metric_desc cls names m)) ms acc) (m_Name m) = Some (metric_desc cls names m)" for acc
    by (induction ms arbitrary: acc) (auto simp: other)
  then show "distinct (map m_Name ms) \<Longrightarrow> m \<in> set ms \<Longrightarrow> map_of (class_descs cls names ms) (m_Name m) = Some (metric_desc cls names m)"
    by (simp add: class_descs_def)
qed

lemma collected_value:
  assumes "dev \<in> set devices" "gomap_ok specs" "map_of specs (dv_Class dev) = Some (Some spec)"
    and "distinct (map m_Name (d_Metrics spec))" "m \<in> set (d_Metrics spec)"
    and "snd (snd (snd (Get now dev cache))) = Some ms" "map_of ms (m_Name m) = Some mv"
  shows "const_metric (metric_desc (dv_Class dev) ([''device'', ''ip'', ''class''] @ collectExtraLabelKeys devices) m)
      (if mv_Type mv = ''counter'' then CounterValue else GaugeValue) (mv_Value mv) (labelValues (NewCollector devices specs) dev)
    \<in> set (Collect_metrics oor now cache (NewCollector devices specs))"
proof -
  let ?co = "NewCollector devices specs"
  let ?names = "[''device'', ''ip'', ''class''] @ collectExtraLabelKeys devices"
  let ?s = "const_metric (metric_desc (dv_Class dev) ?names m)
      (if mv_Type mv = ''counter'' then CounterValue else GaugeValue) (mv_Value mv) (labelValues ?co dev)"
  have descs: "map_of (co_metricDescs ?co) (dv_Class dev) = Some (class_descs (dv_Class dev) ?names (d_Metrics spec))"
    using map_of_fold_specs_own [OF assms(2,3)] by (simp add: NewCollector_def Let_def)
  note own = class_descs_own [OF assms(4,5), of "dv_Class dev" ?names]
  have "?s \<in> set (collectDeviceMetrics oor (dv_Class dev) (labelValues ?co dev) ms ?co)"
    unfolding collectDeviceMetrics_def descs option.case Let_def set_concat set_map image_image
    by (rule UN_I [OF map_of_SomeD [OF assms(7)]]) (simp only: prod.case own option.case list.set insertI1)
  moreover obtain success dur scraped where "Get now dev cache = (success, dur, scraped, Some ms)"
    using assms(6) by (metis prod.collapse)
  ultimately have "?s \<in> set (collectDevice oor now cache dev ?co)"
    unfolding collectDevice_def Let_def by (simp only: prod.case option.case set_append Un_iff simp_thms)
  moreover have "co_devices ?co = devices" by (simp add: NewCollector_def Let_def)
  ultimately show ?thesis using assms(1) by (auto simp: Collect_metrics_def)
qed

text \<open>A metric that the spec of the device's class does not have - one of a vendor's spec - is not collected.\<close>

lemma unknown_metrics_dropped:
  "map_of (co_metricDescs co) cls = Some descs \<Longrightarrow>
     collectDeviceMetrics oor cls labels metrics co
       = collectDeviceMetrics oor cls labels (filter (\<lambda>(name, _). map_of descs name \<noteq> None) metrics) co"
  by (induction metrics) (auto simp: collectDeviceMetrics_def Let_def split: option.splits)

text \<open>What the client library refuses, although the configuration and the client let it through: a label of
  the configuration that has one of the fixed names gives a descriptor with the same label name twice,
  and a product code is handed on as the device sent it, whether or not it is valid UTF-8.\<close>

lemma clashing_label_key:
  assumes "dev \<in> set devices" "''device'' \<in> fst ` set (dv_Labels dev)"
  shows "\<not> distinct (de_labels (co_scrapeSuccess (NewCollector devices specs)))"
proof -
  have "''device'' \<in> set (collectExtraLabelKeys devices)"
    using assms by (force simp: collectExtraLabelKeys_def)
  then show ?thesis by (simp add: NewCollector_def Let_def)
qed

lemma raw_product_code: "\<not> valid_utf8 (decodeProductCode [0x41, 0xFF, 0x42])"
proof -
  have "byte_string [0x41, 0xFF, 0x42] = [CHR ''A'', CHR 0xFF, CHR ''B'']"
    by (simp add: byte_string_def char_of_eq_iff take_bit_eq_mod)
  then have "decodeProductCode [0x41, 0xFF, 0x42] = [CHR ''A'', CHR 0xFF, CHR ''B'']"
    by (simp add: decodeProductCode_def trim_space_plain)
  then show ?thesis by (simp add: valid_utf8_def runes.simps(2) decode_rune_def string_codes_def)
qed

lemma invalid_product_code_collected:
  assumes "dev \<in> set devices" "\<not> valid_utf8 (v_ProductCode (GetInfo dev cache))"
  shows "\<exists>s \<in> set (Collect_metrics oor now cache (NewCollector devices specs)). \<not> list_all valid_utf8 (sa_labels s)"
proof -
  let ?co = "NewCollector devices specs" and ?info = "GetInfo dev cache"
  let ?s = "const_metric (co_deviceInfo ?co) GaugeValue (Fin 1)
    (labelValues ?co dev @ [v_Manufacturer ?info, v_ProductCode ?info, v_UID ?info])"
  have "?s \<in> set (collectDevice oor now cache dev ?co)"
    by (cases "Get now dev cache") (simp add: collectDevice_def Let_def)
  moreover have "co_devices ?co = devices" by (simp add: NewCollector_def Let_def)
  ultimately have "?s \<in> set (Collect_metrics oor now cache ?co)" using assms(1) by (auto simp: Collect_metrics_def)
  with assms(2) show ?thesis by (intro bexI [of _ ?s]) (simp_all add: const_metric_def)
qed

section \<open>Properties\<close>

text \<open>C36: collecting fulfils what the client library documents for a metric. Each metric that is
  collected, whatever the devices, the specs and the cache hold, has a descriptor that \<open>Describe\<close>
  announces and one value for each of its label names; if no label of the configuration is named as
  one of the fixed labels, the label names of each descriptor are different; and if the names,
  addresses, classes and labels of the configuration and the cached manufacturers, product codes and
  UIDs are valid UTF-8, all label values are (the state labels of enums always are). Without these
  two conditions the library refuses the metric, and \<open>MustNewConstMetric\<close> panics. That the names of
  metrics and labels are identifiers the library accepts is not part of the statement.\<close>

theorem collected_is_described:
  "list_all (checked (NewCollector devices specs)) (Collect_metrics oor now cache (NewCollector devices specs))
   \<and> ((\<forall>dev \<in> set devices. fst ` set (dv_Labels dev) \<inter>
          {''device'', ''ip'', ''class'', ''manufacturer'', ''product_code'', ''uid'', ''state''} = {}) \<longrightarrow>
       (\<forall>s \<in> set (Collect_metrics oor now cache (NewCollector devices specs)). distinct (de_labels (sa_desc s))))
   \<and> ((\<forall>dev \<in> set devices. valid_utf8 (dv_Name dev) \<and> valid_utf8 (dv_IP dev) \<and> valid_utf8 (dv_Class dev)
          \<and> (\<forall>(k, v) \<in> set (dv_Labels dev). valid_utf8 v) \<and> valid_utf8 (v_Manufacturer (GetInfo dev cache))
          \<and> valid_utf8 (v_ProductCode (GetInfo dev cache)) \<and> valid_utf8 (v_UID (GetInfo dev cache))) \<longrightarrow>
       (\<forall>s \<in> set (Collect_metrics oor now cache (NewCollector devices specs)). list_all valid_utf8 (sa_labels s)))"
proof -
  let ?co = "NewCollector devices specs" and ?collected = "Collect_metrics oor now cache (NewCollector devices specs)"
  have co: "co_devices ?co = devices" "co_extraLabelKeys ?co = collectExtraLabelKeys devices"
    by (simp_all add: NewCollector_def Let_def)
  have lab: "\<exists>dev \<in> set devices. labelled ?co (GetInfo dev cache) dev s \<and> sa_desc s \<in> set (Describe ?co)"
    if "s \<in> set ?collected" for s
    using that collected_labelled [of s oor now cache _ devices specs] by (auto simp: Collect_metrics_def co)
  have "checked ?co s" if "s \<in> set ?collected" for s
    using lab [OF that] by (auto simp: checked_def labelled_def base_labels_def labelValues_length)
  moreover have "distinct (de_labels (sa_desc s))"
    if no: "\<forall>dev \<in> set devices. fst ` set (dv_Labels dev) \<inter>
          {''device'', ''ip'', ''class'', ''manufacturer'', ''product_code'', ''uid'', ''state''} = {}"
      and s: "s \<in> set ?collected" for s
  proof -
    have "distinct (co_extraLabelKeys ?co)" by (simp add: co collectExtraLabelKeys_def)
    moreover have "set (co_extraLabelKeys ?co) \<inter>
        {''device'', ''ip'', ''class'', ''manufacturer'', ''product_code'', ''uid'', ''state''} = {}"
      using no unfolding co collectExtraLabelKeys_def by fastforce
    ultimately show ?thesis using lab [OF s] by (auto simp: labelled_def base_labels_def)
  qed
  moreover have "list_all valid_utf8 (sa_labels s)"
    if ok: "\<forall>dev \<in> set devices. valid_utf8 (dv_Name dev) \<and> valid_utf8 (dv_IP dev) \<and> valid_utf8 (dv_Class dev)
          \<and> (\<forall>(k, v) \<in> set (dv_Labels dev). valid_utf8 v) \<and> valid_utf8 (v_Manufacturer (GetInfo dev cache))
          \<and> valid_utf8 (v_ProductCode (GetInfo dev cache)) \<and> valid_utf8 (v_UID (GetInfo dev cache))"
      and s: "s \<in> set ?collected" for s
  proof -
    obtain dev where dev: "dev \<in> set devices" "labelled ?co (GetInfo dev cache) dev s" using lab [OF s] by blast
    have "valid_utf8 (case map_of (dv_Labels dev) k of Some v \<Rightarrow> v | None \<Rightarrow> [])" for k
      using bspec [OF ok dev(1)] by (auto simp: valid_utf8_def [of "[]"] dest: map_of_SomeD split: option.split)
    then have "list_all valid_utf8 (labelValues ?co dev)"
      using bspec [OF ok dev(1)] by (simp add: labelValues_def list_all_iff)
    with dev(2) bspec [OF ok dev(1)] show ?thesis unfolding labelled_def by auto
  qed
  ultimately show ?thesis unfolding list_all_iff by (intro conjI impI ballI) blast+
qed

abbreviation room_device :: Device where
  "room_device \<equiv> sample_device\<lparr>dv_Labels := [(''room'', ''kitchen'')]\<rparr>"

theorem collected_is_described_witness:
  "list_all (\<lambda>s. distinct (de_labels (sa_desc s)) \<and> list_all valid_utf8 (sa_labels s))
     (Collect_metrics (\<lambda>_. 0) 0 NewCache (NewCollector [room_device] []))"
proof -
  have v: "valid_utf8 s" if "list_all (\<lambda>c. of_char c < (0x80 :: nat)) s" for s
    using that by (intro valid_utf8_ascii) (simp add: list_all_iff)
  have "GetInfo room_device NewCache = zero_info" by (simp add: GetInfo_def NewCache_def)
  moreover have "valid_utf8 ''ac/1''" "valid_utf8 ''10.0.0.9''" "valid_utf8 ''home_ac''" "valid_utf8 ''kitchen''" "valid_utf8 []"
    by (rule v, simp)+
  ultimately show ?thesis
    using collected_is_described [of "[room_device]" "[]" "\<lambda>_. 0" 0 NewCache]
    by (simp add: list_all_iff zero_info_def)
qed

text \<open>C37: the state series of an enum metric are one-hot: one series per value of the enum, with different
  labels, and the value 1 just for the series of the current value if the enum has it. It supposes
  that no sanitised label already ends with another's disambiguating suffix.\<close>

theorem state_series_one_hot:
  assumes "gomap_ok (m_Enum m)" "suffix_free (m_Enum m)" "raw = f_to_int64 oor (f_round v)"
    and "series = state_series oor (buildEnumMeta subsystem m names) labels v"
  shows "distinct (map sa_labels series)
    \<and> map sa_value series = map (\<lambda>k. if raw = k then Fin 1 else Zero False) (sort (map fst (m_Enum m)))
    \<and> length (filter (\<lambda>s. sa_value s = Fin 1) series) = (if raw \<in> gokeys (m_Enum m) then 1 else 0)"
proof (intro conjI)
  let ?es = "enum_entries (m_Enum m)"
  let ?states = "state_labels {} ?es"
  have series: "series = map (\<lambda>(k, l). const_metric (em_desc (buildEnumMeta subsystem m names)) GaugeValue
      (if raw = k then Fin 1 else Zero False) (labels @ [l])) ?states"
    unfolding assms(3,4) state_series_def by (simp add: buildEnumMeta_def Let_def)
  have keys: "distinct (map fst ?es)" using assms(1) by (simp add: enum_entries_keys gomap_ok_def)
  have "sanitizeEnumLabel l' \<noteq> sanitizeEnumLabel l @ ''_0x'' @ hex_int v"
    if "(v, l) \<in> set ?es" "l' \<in> snd ` set ?es" for v l l'
    using assms(2) that unfolding enum_entries_set [OF assms(1)] suffix_free_def list_all_iff by fastforce
  then have "distinct (map snd ?states)" using state_labels_distinct [OF keys, of "{}"] by blast
  moreover have "map sa_labels series = map (\<lambda>l. labels @ [l]) (map snd ?states)"
    by (simp add: series const_metric_def case_prod_beta comp_def)
  ultimately show "distinct (map sa_labels series)" by (simp add: distinct_map inj_on_def)
  have vals: "map sa_value series = map (\<lambda>k. if raw = k then Fin 1 else Zero False) (map fst ?states)"
    by (simp add: series const_metric_def case_prod_beta comp_def)
  then show "map sa_value series = map (\<lambda>k. if raw = k then Fin 1 else Zero False) (sort (map fst (m_Enum m)))"
    by (simp only: vals state_labels_values enum_entries_keys)
  have "length (filter (\<lambda>s. sa_value s = Fin 1) series) = length (filter (\<lambda>x. x = Fin 1) (map sa_value series))"
    by (simp add: filter_map comp_def)
  also have "\<dots> = length (filter (\<lambda>k. raw = k) (map fst ?states))"
    unfolding vals by (simp add: filter_map comp_def)
  also have "\<dots> = (if raw \<in> set (map fst ?states) then 1 else 0)"
    using keys by (intro filter_one) (simp add: state_labels_values)
  finally show "length (filter (\<lambda>s. sa_value s = Fin 1) series) = (if raw \<in> gokeys (m_Enum m) then 1 else 0)"
    by (simp only: state_labels_values enum_entries_keys set_sort set_map)
qed

definition sample_enum :: "(int, string) gomap" where
  "sample_enum = [(0x41, ''Auto''), (0x42, ''auto''), (0x43, ''Cool/Dry'')]"

lemma sanitize_ascii_label:
  assumes "trim_space s = s" "is_ascii s"
  shows "sanitizeEnumLabel s = (let out = trim_char (CHR ''_'') (enum_chars False (map of_char (ascii_lower s)))
    in if out = [] then ''value'' else out)"
proof -
  have "is_ascii (ascii_lower s)" using assms(2) by (auto simp: is_ascii_def ascii_lower_def list_all_iff Let_def take_bit_eq_mod)
  then have "map fst (runes (go_lower (trim_space s))) = map of_char (ascii_lower s)"
    unfolding assms(1) go_case_ascii(1) [OF assms(2)] by (simp add: runes_is_ascii comp_def)
  then show ?thesis by (simp add: sanitizeEnumLabel_def)
qed

lemma sample_labels:
  "sanitizeEnumLabel ''Auto'' = ''auto''" "sanitizeEnumLabel ''auto'' = ''auto''" "sanitizeEnumLabel ''Cool/Dry'' = ''cool_dry''"
  "sanitizeEnumLabel ''a_0x2'' = ''a_0x2''" "sanitizeEnumLabel ''a'' = ''a''"
  by (simp_all add: sanitize_ascii_label trim_space_plain is_ascii_def ascii_lower_def trim_char_def enum_rune_def
      char_of_eq_iff take_bit_eq_mod)

theorem state_series_one_hot_witness:
  "map sa_value (state_series (\<lambda>_. 0) (buildEnumMeta ''ac'' (zero_metric\<lparr>m_Enum := sample_enum\<rparr>) [''device'']) [''a''] (Fin 66))
    = [Zero False, Fin 1, Zero False]"
proof -
  have ok: "gomap_ok sample_enum" "suffix_free sample_enum"
    by (simp_all add: gomap_ok_def suffix_free_def sample_enum_def sample_labels)
  have raw: "(66 :: int) = f_to_int64 (\<lambda>_. 0) (f_round (Fin 66))"
    using f_round_near [of 66 66] by (simp add: f_to_int64_def trunc_rat_def int64_ok_def)
  have "sort (map fst sample_enum) = [0x41, 0x42, 0x43]" by (simp add: sample_enum_def)
  with state_series_one_hot [of "zero_metric\<lparr>m_Enum := sample_enum\<rparr>", OF _ _ raw refl, of "''ac''" "[''device'']" "[''a'']"] ok
  show ?thesis by simp
qed

text \<open>Without that, two values can get the same label: the suffix is not checked against the labels in use.\<close>

lemma suffixed_label_collides:
  "map snd (em_values (buildEnumMeta ''ac'' (zero_metric\<lparr>m_Enum := [(0, ''a_0x2''), (1, ''a''), (2, ''a'')]\<rparr>) []))
    = [''a_0x2'', ''a'', ''a_0x2'']"
proof -
  have "hex_int 2 = ''2''" by code_simp
  then show ?thesis by (simp add: buildEnumMeta_def enum_entries_def sample_labels Let_def)
qed

end
