(* ===== verification/Api.thy ===== *)
theory Api
  imports Prelude
begin

text \<open>
  \<open>internal/api\<close>: which components have finished their initialisation (\<open>readiness.go\<close>) and the HTTP
  handlers (\<open>server.go\<close>). A request is its method and path, a response its status, its content type
  and its body; the body of \<open>/ready\<close> is the structure given to \<open>json.Marshal\<close>. Dispatch is that of the
  patterns of the standard library's multiplexer on a clean path; the handler of \<open>/metrics\<close> is the
  Prometheus library's, a parameter. The lemmas show what \<open>/ready\<close> answers after any sequence of
  registrations and marks.
\<close>

section \<open>Readiness\<close>

record Readiness =
  rd_registered :: "string list"
  rd_ready :: "string \<rightharpoonup> bool"

definition NewReadiness :: Readiness where
  "NewReadiness = \<lparr>rd_registered = [], rd_ready = Map.empty\<rparr>"

definition Register :: "string \<Rightarrow> Readiness \<Rightarrow> Readiness" where
  "Register name r = \<lparr>rd_registered = List.insert name (rd_registered r), rd_ready = (rd_ready r)(name \<mapsto> False)\<rparr>"

definition MarkReady :: "string \<Rightarrow> Readiness \<Rightarrow> Readiness" where
  "MarkReady name r =
     (if name \<in> set (rd_registered r) then r\<lparr>rd_ready := (rd_ready r)(name \<mapsto> True)\<rparr> else r)"

definition Status :: "Readiness \<Rightarrow> bool \<times> (string, bool) gomap" where
  "Status r =
     (let components = map (\<lambda>name. (name, rd_ready r name = Some True)) (rd_registered r)
      in (list_all (\<lambda>(_, ready). ready) components, components))"

section \<open>HTTP\<close>

datatype body = NoBody | TextBody string | ReadyBody string "(string, string) gomap" | OtherBody string

record response =
  rs_status :: nat
  rs_contentType :: "string option"
  rs_body :: body

record Server =
  sv_ListenAddr :: string
  sv_metricsEnabled :: bool
  sv_Readiness :: "Readiness option"

definition readable_method :: "string \<Rightarrow> bool" where
  "readable_method m \<longleftrightarrow> m = ''GET'' \<or> m = ''HEAD''"

definition method_not_allowed :: response where
  "method_not_allowed = \<lparr>rs_status = 405, rs_contentType = None, rs_body = NoBody\<rparr>"

definition handleHealth :: "string \<Rightarrow> response" where
  "handleHealth meth =
     (if \<not> readable_method meth then method_not_allowed
      else \<lparr>rs_status = 200, rs_contentType = Some ''application/json'', rs_body = TextBody ''{\"status\":\"ok\"}''\<rparr>)"

definition handleReady :: "Server \<Rightarrow> string \<Rightarrow> response" where
  "handleReady s meth =
     (if \<not> readable_method meth then method_not_allowed
      else case sv_Readiness s of
        None \<Rightarrow> \<lparr>rs_status = 200, rs_contentType = Some ''application/json'',
                 rs_body = TextBody ''{\"status\":\"ready\",\"components\":{}}''\<rparr>
      | Some r \<Rightarrow>
          (case Status r of
             (allReady, components) \<Rightarrow>
               \<lparr>rs_status = if allReady then 200 else 503, rs_contentType = Some ''application/json'',
                rs_body = ReadyBody (if allReady then ''ready'' else ''not_ready'')
                  (map (\<lambda>(name, ready). (name, if ready then ''ready'' else ''not_ready'')) components)\<rparr>))"

definition index_page :: string where
  "index_page = ''<!DOCTYPE html>'' @ [CHR 0x0A] @ ''<html>'' @ [CHR 0x0A] @ ''<head><title>EchonetGO</title></head>''
     @ [CHR 0x0A] @ ''<body>'' @ [CHR 0x0A] @ ''<h1>EchonetGO</h1>'' @ [CHR 0x0A]
     @ ''<p><a href=\"/health\">Health</a> | <a href=\"/ready\">Ready</a> | <a href=\"/metrics\">Metrics</a></p>''
     @ [CHR 0x0A] @ ''</body>'' @ [CHR 0x0A] @ ''</html>''"

definition not_found :: response where
  "not_found = \<lparr>rs_status = 404, rs_contentType = Some ''text/plain; charset=utf-8'',
     rs_body = TextBody (''404 page not found'' @ [CHR 0x0A])\<rparr>"

definition handleRoot :: "string \<Rightarrow> response" where
  "handleRoot path =
     (if path \<noteq> ''/'' then not_found
      else \<lparr>rs_status = 200, rs_contentType = Some ''text/html; charset=utf-8'', rs_body = TextBody index_page\<rparr>)"

definition Handler :: "(string \<Rightarrow> response) \<Rightarrow> Server \<Rightarrow> string \<Rightarrow> string \<Rightarrow> response" where
  "Handler metricsHandler s meth path =
     (if path = ''/health'' then handleHealth meth
      else if path = ''/ready'' then handleReady s meth
      else if path = ''/metrics'' \<and> sv_metricsEnabled s then metricsHandler meth
      else handleRoot path)"

section \<open>Lemmas\<close>

text \<open>The calls made on a \<open>Readiness\<close>, and what they leave of a component.\<close>

datatype readiness_call = Registers string | Marks string

fun readiness_step :: "readiness_call \<Rightarrow> Readiness \<Rightarrow> Readiness" where
  "readiness_step (Registers name) = Register name"
| "readiness_step (Marks name) = MarkReady name"

definition marked_since :: "string \<Rightarrow> readiness_call list \<Rightarrow> bool" where
  "marked_since name calls \<longleftrightarrow> Marks name \<in> set (takeWhile (\<lambda>c. c \<noteq> Registers name) (rev calls))"

lemma readiness_history:
  "set (rd_registered (fold readiness_step calls NewReadiness)) = {n. Registers n \<in> set calls}
    \<and> rd_ready (fold readiness_step calls NewReadiness) name
      = (if Registers name \<in> set calls then Some (marked_since name calls) else None)"
proof (induction calls rule: rev_induct)
  case Nil
  then show ?case by (simp add: NewReadiness_def)
next
  case (snoc c calls)
  then show ?case
    by (cases c) (auto simp: Register_def MarkReady_def marked_since_def)
qed

section \<open>Properties\<close>

text \<open>\<open>/ready\<close> answers 200 just when every component that was registered has been marked ready since its
  last registration, and 503 otherwise; marks of components that are not registered count for nothing.\<close>

theorem ready_iff_all_marked:
  assumes "sv_Readiness s = Some (fold readiness_step calls NewReadiness)" "meth \<in> {''GET'', ''HEAD''}"
  shows "rs_status (Handler metricsHandler s meth ''/ready'')
    = (if \<forall>name. Registers name \<in> set calls \<longrightarrow> marked_since name calls then 200 else 503)"
proof -
  let ?r = "fold readiness_step calls NewReadiness"
  have "fst (Status ?r) \<longleftrightarrow> (\<forall>name. Registers name \<in> set calls \<longrightarrow> marked_since name calls)"
    using readiness_history [of calls] by (auto simp: Status_def list_all_iff)
  then show ?thesis
    using assms by (auto simp: Handler_def handleReady_def readable_method_def case_prod_beta)
qed

theorem ready_iff_all_marked_witness:
  "rs_status (Handler (\<lambda>_. not_found)
     \<lparr>sv_ListenAddr = [], sv_metricsEnabled = False,
      sv_Readiness = Some (fold readiness_step [Registers ''poller'', Registers ''commander'', Marks ''poller''] NewReadiness)\<rparr>
     ''GET'' ''/ready'') = 503"
proof -
  have "\<not> marked_since ''commander'' [Registers ''poller'', Registers ''commander'', Marks ''poller'']"
    by (simp add: marked_since_def)
  then show ?thesis
    by (subst ready_iff_all_marked [OF _ , where calls = "[Registers ''poller'', Registers ''commander'', Marks ''poller'']"])
      (simp_all, blast)
qed

end
