(* ===== verification/Startup.thy ===== *)
theory Startup
  imports Api Notification Publisher
begin

text \<open>
  \<open>cmd/echonetgo/main.go\<close>: how the components are put together. The program's start is the function
  that takes the configuration to the components as they are before their goroutines run; sockets,
  signals, the HTTP listener and the order of the shutdown are not in it. The lemmas show the names
  that the transport logs for an address and when the program reports that it is ready.
\<close>

section \<open>Setting up\<close>

text \<open>The names of the devices at each address, without repetition, in the order of the configuration.\<close>

definition add_name :: "Device \<Rightarrow> (string, string list) gomap \<Rightarrow> (string, string list) gomap" where
  "add_name d namesByIP =
     (let names = (case map_of namesByIP (dv_IP d) of Some ns \<Rightarrow> ns | None \<Rightarrow> [])
      in if dv_Name d \<in> set names then namesByIP else AList.update (dv_IP d) (names @ [dv_Name d]) namesByIP)"

definition names_by_ip :: "Device list \<Rightarrow> (string, string list) gomap" where
  "names_by_ip devices = fold add_name devices []"

definition ip_to_name :: "Device list \<Rightarrow> string \<Rightarrow> string" where
  "ip_to_name devices ip = (case map_of (names_by_ip devices) ip of Some names \<Rightarrow> join_with ''/'' names | None \<Rightarrow> [])"

definition setupMQTT :: "Config \<Rightarrow> string \<Rightarrow> Cache \<Rightarrow> Readiness \<Rightarrow> Publisher option \<times> Cache \<times> Readiness" where
  "setupMQTT cfg version cache readiness =
     (if \<not> MQTTEnabled cfg then (None, cache, readiness)
      else (NewPublisher (cf_MQTT cfg) version, SetOnUpdate True cache, Register ''commander'' readiness))"

definition setupEchonetTransport ::
  "Config \<Rightarrow> Cache \<Rightarrow> Transport \<times> (string \<Rightarrow> string) option \<times> Cache" where
  "setupEchonetTransport cfg cache =
     (let transport = NewTransport (cf_StrictSourcePort3610 cfg)
      in (if cf_NotificationsEnabled cfg then SetNotificationChan 256 transport else transport,
          if 0 < length (cf_Devices cfg) then Some (ip_to_name (cf_Devices cfg)) else None,
          if cf_ForcePolling cfg then SetForcePolling True cache else cache))"

definition setupNotifications :: "Config \<Rightarrow> NotificationHandler option" where
  "setupNotifications cfg =
     (if \<not> cf_NotificationsEnabled cfg then None
      else Some (fold (\<lambda>dev. RegisterDevice (dv_IP dev)) (cf_Devices cfg) (NewNotificationHandler True)))"

definition setupHTTPServer :: "Config \<Rightarrow> Readiness \<Rightarrow> Server" where
  "setupHTTPServer cfg readiness =
     \<lparr>sv_ListenAddr = cf_ListenAddr cfg, sv_metricsEnabled = cf_MetricsEnabled cfg, sv_Readiness = Some readiness\<rparr>"

record program =
  pg_cache :: Cache
  pg_readiness :: Readiness
  pg_publisher :: "Publisher option"
  pg_transport :: Transport
  pg_nameResolver :: "(string \<Rightarrow> string) option"
  pg_notifications :: "NotificationHandler option"

definition start_program :: "string \<Rightarrow> Config \<Rightarrow> program" where
  "start_program version cfg =
     (let readiness = Register ''poller'' NewReadiness
      in case setupMQTT cfg version NewCache readiness of
           (mqttPub, cache, readiness1) \<Rightarrow>
             (case setupEchonetTransport cfg cache of
                (transport, resolver, cache1) \<Rightarrow>
                  \<lparr>pg_cache = cache1, pg_readiness = readiness1, pg_publisher = mqttPub, pg_transport = transport,
                   pg_nameResolver = resolver, pg_notifications = setupNotifications cfg\<rparr>))"

section \<open>Lemmas\<close>

lemma names_by_ip_step:
  "set (case map_of (fold add_name devices m) ip of Some ns \<Rightarrow> ns | None \<Rightarrow> [])
     = set (case map_of m ip of Some ns \<Rightarrow> ns | None \<Rightarrow> []) \<union> dv_Name ` {d \<in> set devices. dv_IP d = ip}"
  by (induction devices arbitrary: m) (auto simp: add_name_def Let_def split: option.splits)

lemma names_by_ip_distinct:
  "distinct (case map_of m ip of Some ns \<Rightarrow> ns | None \<Rightarrow> []) \<Longrightarrow>
     distinct (case map_of (fold add_name devices m) ip of Some ns \<Rightarrow> ns | None \<Rightarrow> [])"
proof (induction devices arbitrary: m)
  case (Cons d devices)
  have "distinct (case map_of (add_name d m) ip of Some ns \<Rightarrow> ns | None \<Rightarrow> [])"
    using Cons.prems by (cases "dv_IP d = ip") (auto simp: add_name_def Let_def split: option.splits)
  from Cons.IH [OF this] show ?case by simp
qed simp

lemma registered_devices:
  "h_devices (fold (\<lambda>dev. RegisterDevice (dv_IP dev)) devices h) = h_devices h \<union> dv_IP ` set devices"
  by (induction devices arbitrary: h) (auto simp: RegisterDevice_def)

text \<open>What \<open>/ready\<close> answers.\<close>

definition ready_status :: "Config \<Rightarrow> Readiness \<Rightarrow> nat" where
  "ready_status cfg r = rs_status (Handler (\<lambda>_. not_found) (setupHTTPServer cfg r) ''GET'' ''/ready'')"

lemma ready_status: "ready_status cfg r = (if fst (Status r) then 200 else 503)"
  by (simp add: ready_status_def Handler_def handleReady_def setupHTTPServer_def readable_method_def case_prod_beta)

section \<open>Properties\<close>

text \<open>How the parts are wired. Updates of the cache reach the publisher just if a broker is configured;
  pushed frames of just the configured addresses are handled, if notifications are on; the transport
  names an address by the names of its devices, each once; and the program reports that it is not
  ready until the poller - and, with a broker, the commander - has started.\<close>

theorem program_wiring:
  "let pg = start_program version cfg; r = pg_readiness pg
   in (ca_onUpdate (pg_cache pg) \<longleftrightarrow> pg_publisher pg \<noteq> None)
    \<and> (pg_publisher pg \<noteq> None \<longleftrightarrow> MQTTEnabled cfg)
    \<and> map_option h_devices (pg_notifications pg)
        = (if cf_NotificationsEnabled cfg then Some (dv_IP ` set (cf_Devices cfg)) else None)
    \<and> (t_infChan (pg_transport pg) \<noteq> None \<longleftrightarrow> pg_notifications pg \<noteq> None)
    \<and> (\<exists>names. distinct names \<and> set names = dv_Name ` {d \<in> set (cf_Devices cfg). dv_IP d = ip}
         \<and> map_option (\<lambda>f. f ip) (pg_nameResolver pg)
             = (if cf_Devices cfg = [] then None else Some (join_with ''/'' names)))
    \<and> ready_status cfg r = 503
    \<and> ready_status cfg (MarkReady ''poller'' r) = (if MQTTEnabled cfg then 503 else 200)
    \<and> ready_status cfg (MarkReady ''commander'' (MarkReady ''poller'' r)) = 200"
proof -
  note defs = start_program_def setupMQTT_def setupEchonetTransport_def setupNotifications_def Let_def
  define pg where "pg = start_program version cfg"
  define r where "r = pg_readiness pg"
  have mqtt: "ca_onUpdate (pg_cache pg) \<longleftrightarrow> MQTTEnabled cfg" "pg_publisher pg \<noteq> None \<longleftrightarrow> MQTTEnabled cfg"
    by (auto simp: pg_def defs SetForcePolling_def SetOnUpdate_def NewCache_def NewPublisher_def MQTTEnabled_def)
  have pushes: "map_option h_devices (pg_notifications pg)
      = (if cf_NotificationsEnabled cfg then Some (dv_IP ` set (cf_Devices cfg)) else None)"
    "t_infChan (pg_transport pg) \<noteq> None \<longleftrightarrow> pg_notifications pg \<noteq> None"
    by (auto simp: pg_def defs registered_devices NewNotificationHandler_def SetNotificationChan_def NewTransport_def)
  define names where "names = (case map_of (names_by_ip (cf_Devices cfg)) ip of Some ns \<Rightarrow> ns | None \<Rightarrow> [])"
  have "distinct names" "set names = dv_Name ` {d \<in> set (cf_Devices cfg). dv_IP d = ip}"
    using names_by_ip_step [of "cf_Devices cfg" "[]" ip] names_by_ip_distinct [of "[]" ip "cf_Devices cfg"]
    by (simp_all add: names_def names_by_ip_def)
  moreover have "map_option (\<lambda>f. f ip) (pg_nameResolver pg)
      = (if cf_Devices cfg = [] then None else Some (join_with ''/'' names))"
    by (auto simp: pg_def defs names_def ip_to_name_def split: option.splits)
  moreover have "r = (if MQTTEnabled cfg then Register ''commander'' (Register ''poller'' NewReadiness)
      else Register ''poller'' NewReadiness)"
    by (simp add: r_def pg_def defs)
  then have "ready_status cfg r = 503" "ready_status cfg (MarkReady ''poller'' r) = (if MQTTEnabled cfg then 503 else 200)"
    "ready_status cfg (MarkReady ''commander'' (MarkReady ''poller'' r)) = 200"
    by (auto simp: ready_status Register_def NewReadiness_def MarkReady_def Status_def)
  ultimately show ?thesis
    using mqtt pushes unfolding Let_def pg_def [symmetric] r_def [symmetric] by blast
qed

end
