(* ===== verification/Logging.thy ===== *)
theory Logging
  imports GoNumber
begin

text \<open>
  \<open>internal/logging/logger.go\<close>: the levels, their order and their names in the environment, and where a
  line goes. Formatting with \<open>fmt\<close> and the time stamps of the \<open>log\<close> package are theirs: a message is
  the formatted text. The lemmas show that errors are never suppressed and that an unknown name of a
  level means \<open>info\<close>.
\<close>

section \<open>Levels\<close>

datatype Level = LevelDebug | LevelInfo | LevelWarn | LevelError

fun level_int :: "Level \<Rightarrow> int" where
  "level_int LevelDebug = 0"
| "level_int LevelInfo = 1"
| "level_int LevelWarn = 2"
| "level_int LevelError = 3"

lemma level_int_inj [simp]: "level_int a = level_int b \<longleftrightarrow> a = b"
  by (cases a; cases b) simp_all

instantiation Level :: linorder
begin

definition less_eq_Level :: "Level \<Rightarrow> Level \<Rightarrow> bool" where
  "less_eq_Level a b \<longleftrightarrow> level_int a \<le> level_int b"

definition less_Level :: "Level \<Rightarrow> Level \<Rightarrow> bool" where
  "less_Level a b \<longleftrightarrow> level_int a < level_int b"

instance
  by standard (auto simp: less_eq_Level_def less_Level_def)

end

definition parseLevel :: "string \<Rightarrow> Level option" where
  "parseLevel level =
     (let s = go_lower (trim_space level)
      in if s = [] \<or> s = ''info'' then Some LevelInfo
         else if s = ''debug'' then Some LevelDebug
         else if s = ''warn'' \<or> s = ''warning'' then Some LevelWarn
         else if s = ''error'' then Some LevelError else None)"

text \<open>The global level after \<open>setLevel\<close>, and whether it fails.\<close>

definition setLevel :: "string \<Rightarrow> Level \<Rightarrow> Level \<times> bool" where
  "setLevel level globalLevel = (case parseLevel level of Some v \<Rightarrow> (v, False) | None \<Rightarrow> (globalLevel, True))"

definition SetLevelFromEnv :: "(string \<Rightarrow> string) \<Rightarrow> Level \<Rightarrow> Level" where
  "SetLevelFromEnv env globalLevel =
     (case setLevel (env ''ECHONET_LOG_LEVEL'') globalLevel of (v, failed) \<Rightarrow> if failed then LevelInfo else v)"

section \<open>Lines\<close>

datatype stream = Stdout | Stderr

text \<open>The stream and the text of a line of a component; \<open>None\<close> when its level is too low.\<close>

definition logf :: "Level \<Rightarrow> string \<Rightarrow> Level \<Rightarrow> string \<Rightarrow> string \<Rightarrow> (stream \<times> string) option" where
  "logf globalLevel component level label msg =
     (if level < globalLevel then None
      else Some (if LevelWarn \<le> level then Stderr else Stdout,
        if component \<noteq> [] then ''['' @ label @ ''] ['' @ component @ ''] '' @ msg else ''['' @ label @ ''] '' @ msg))"

definition Debugf :: "Level \<Rightarrow> string \<Rightarrow> string \<Rightarrow> (stream \<times> string) option" where
  "Debugf g component msg = logf g component LevelDebug ''DEBUG'' msg"

definition Infof :: "Level \<Rightarrow> string \<Rightarrow> string \<Rightarrow> (stream \<times> string) option" where
  "Infof g component msg = logf g component LevelInfo ''INFO'' msg"

definition Warnf :: "Level \<Rightarrow> string \<Rightarrow> string \<Rightarrow> (stream \<times> string) option" where
  "Warnf g component msg = logf g component LevelWarn ''WARN'' msg"

definition Errorf :: "Level \<Rightarrow> string \<Rightarrow> string \<Rightarrow> (stream \<times> string) option" where
  "Errorf g component msg = logf g component LevelError ''ERROR'' msg"

definition Fatalf :: "Level \<Rightarrow> string \<Rightarrow> string \<Rightarrow> (stream \<times> string) option" where
  "Fatalf g component msg = logf g component LevelError ''FATAL'' msg"

text \<open>\<open>RecoverPanic\<close>: the text of the panic and the stack, if there is one.\<close>

definition RecoverPanic :: "Level \<Rightarrow> string \<Rightarrow> string \<Rightarrow> (string \<times> string) option \<Rightarrow> (stream \<times> string) option" where
  "RecoverPanic g component ctx panic =
     (case panic of
        None \<Rightarrow> None
      | Some (r, stack) \<Rightarrow> Errorf g component (''panic recovered in '' @ ctx @ '': '' @ r @ [CHR 0x0A] @ stack))"

section \<open>Lemmas\<close>

lemma level_max [simp]: "level \<le> LevelError"
  by (cases level) (simp_all add: less_eq_Level_def)

lemma not_above_error [simp]: "\<not> LevelError < level"
  by (simp add: not_less)

text \<open>Whatever the global level, errors - and so recovered panics - are written, to the error stream.\<close>

lemma errors_never_suppressed:
  "\<exists>line. Errorf g component msg = Some (Stderr, line)" "\<exists>line. Fatalf g component msg = Some (Stderr, line)"
  "\<exists>line. RecoverPanic g component ctx (Some panic) = Some (Stderr, line)"
  by (simp_all add: Errorf_def Fatalf_def RecoverPanic_def logf_def less_eq_Level_def split: prod.splits)

text \<open>A line is written just from its level on, and only from \<open>warn\<close> on to the error stream.\<close>

lemma logf_level:
  "logf g component level label msg \<noteq> None \<longleftrightarrow> g \<le> level"
  "logf g component level label msg = Some (s, line) \<Longrightarrow> s = Stderr \<longleftrightarrow> LevelWarn \<le> level"
  by (auto simp: logf_def not_less split: if_splits)

text \<open>A level that is not known means \<open>info\<close>, whatever the level was.\<close>

lemma unknown_level_is_info: "parseLevel (env ''ECHONET_LOG_LEVEL'') = None \<Longrightarrow> SetLevelFromEnv env g = LevelInfo"
  by (simp add: SetLevelFromEnv_def setLevel_def)

end
