(* ===== verification/Multicast.thy ===== *)
theory Multicast
  imports Transport
begin

text \<open>
  The rest of \<open>internal/echonet/transport.go\<close>: joining the multicast group on the interfaces, and closing
  the shared socket. The interfaces of the machine and the system call that joins a group are
  parameters; an address is its four bytes, or an IPv6 address, as \<open>net.IP.Equal\<close> and \<open>To4\<close> see it. The
  lemmas show which addresses are joined.
\<close>

section \<open>Interfaces\<close>

datatype go_ip = IP4 "byte \<times> byte \<times> byte \<times> byte" | IP6 bytes

datatype iface_addr = IPNet go_ip | OtherAddr

record interface =
  if_Name :: string
  if_Up :: bool
  if_Multicast :: bool
  if_Addrs :: "iface_addr list option"

record 'w multicast_net =
  g_interfaces :: "'w \<Rightarrow> net_error + interface list"
  g_joinGroup :: "nat \<Rightarrow> interface option \<Rightarrow> 'w \<Rightarrow> net_error option \<times> 'w"

text \<open>\<open>net.ParseIP\<close>, its case of IPv6 a parameter, and the text of an IPv4 address.\<close>

definition parse_go_ip :: "(string \<Rightarrow> go_ip option) \<Rightarrow> string \<Rightarrow> go_ip option" where
  "parse_go_ip v6 s =
     (case dropWhile (\<lambda>c. c \<noteq> CHR ''.'' \<and> c \<noteq> CHR '':'' \<and> c \<noteq> CHR ''%'') s of
        [] \<Rightarrow> None
      | c # _ \<Rightarrow>
          if c = CHR ''.'' then map_option IP4 (parse_ip4 (\<lambda>_. None) s) else if c = CHR '':'' then v6 s else None)"

definition ip4_text :: "byte \<times> byte \<times> byte \<times> byte \<Rightarrow> string" where
  "ip4_text ip = (case ip of (a, b, c, d) \<Rightarrow> join_with ''.'' (map (\<lambda>x. dec_digits (unat x)) [a, b, c, d]))"

definition findInterfaceByIP :: "'w multicast_net \<Rightarrow> go_ip \<Rightarrow> 'w \<Rightarrow> interface option" where
  "findInterfaceByIP net ip w =
     (case g_interfaces net w of
        Inl e \<Rightarrow> None
      | Inr ifaces \<Rightarrow>
          find (\<lambda>iface. case if_Addrs iface of Some addrs \<Rightarrow> IPNet ip \<in> set addrs | None \<Rightarrow> False) ifaces)"

section \<open>Joining\<close>

fun joinMulticastOnIPs ::
  "'w multicast_net \<Rightarrow> (string \<Rightarrow> go_ip option) \<Rightarrow> nat \<Rightarrow> string list \<Rightarrow> 'w \<Rightarrow> string list \<times> 'w" where
  "joinMulticastOnIPs net v6 conn [] w = ([], w)"
| "joinMulticastOnIPs net v6 conn (ipStr # ips) w =
     (case parse_go_ip v6 ipStr of
        None \<Rightarrow> joinMulticastOnIPs net v6 conn ips w
      | Some ip \<Rightarrow>
          (case g_joinGroup net conn (findInterfaceByIP net ip w) w of
             (Some err, w1) \<Rightarrow> joinMulticastOnIPs net v6 conn ips w1
           | (None, w1) \<Rightarrow>
               (case joinMulticastOnIPs net v6 conn ips w1 of (joined, w2) \<Rightarrow> (ipStr # joined, w2))))"

text \<open>The pairs of an interface and an IPv4 address that the automatic detection goes through.\<close>

definition multicast_addrs :: "interface list \<Rightarrow> (interface \<times> (byte \<times> byte \<times> byte \<times> byte)) list" where
  "multicast_addrs ifaces =
     concat (map (\<lambda>iface.
       if \<not> if_Up iface \<or> \<not> if_Multicast iface then []
       else case if_Addrs iface of
         None \<Rightarrow> []
       | Some addrs \<Rightarrow> concat (map (\<lambda>a. case a of IPNet (IP4 ip) \<Rightarrow> [(iface, ip)] | _ \<Rightarrow> []) addrs)) ifaces)"

fun join_each ::
  "'w multicast_net \<Rightarrow> nat \<Rightarrow> (interface \<times> (byte \<times> byte \<times> byte \<times> byte)) list \<Rightarrow> 'w \<Rightarrow> string list \<times> 'w" where
  "join_each net conn [] w = ([], w)"
| "join_each net conn ((iface, ip) # rest) w =
     (case g_joinGroup net conn (Some iface) w of
        (Some err, w1) \<Rightarrow> join_each net conn rest w1
      | (None, w1) \<Rightarrow> (case join_each net conn rest w1 of (joined, w2) \<Rightarrow> (ip4_text ip # joined, w2)))"

definition joinMulticastAutoDetect :: "'w multicast_net \<Rightarrow> nat \<Rightarrow> 'w \<Rightarrow> string list \<times> 'w" where
  "joinMulticastAutoDetect mnet conn w =
     (case g_interfaces mnet w of
        Inl e \<Rightarrow> ([], w)
      | Inr ifaces \<Rightarrow> join_each mnet conn (multicast_addrs ifaces) w)"

definition JoinMulticast ::
  "'w net \<Rightarrow> 'w multicast_net \<Rightarrow> (string \<Rightarrow> go_ip option) \<Rightarrow> string list \<Rightarrow> Transport \<times> 'w \<Rightarrow> string list \<times> Transport \<times> 'w" where
  "JoinMulticast net mnet v6 ips tw =
     (case getOrCreateFixedConn net tw of
        (Inl e, t, w) \<Rightarrow> ([], t, w)
      | (Inr conn, t, w) \<Rightarrow>
          (case (if 0 < length ips then joinMulticastOnIPs mnet v6 conn ips w else joinMulticastAutoDetect mnet conn w) of
             (joined, w1) \<Rightarrow> (joined, t, w1)))"

section \<open>The shared socket\<close>

definition FixedConn :: "Transport \<Rightarrow> nat option" where
  "FixedConn t = t_fixedConn t"

text \<open>The socket that is closed, if there is one.\<close>

definition Close :: "Transport \<Rightarrow> nat option \<times> Transport" where
  "Close t = (t_fixedConn t, t\<lparr>t_fixedConn := None\<rparr>)"

definition InFlight :: "Transport \<Rightarrow> 32 word" where
  "InFlight t = t_inFlight t"

definition HostLabel :: "(string \<Rightarrow> string) option \<Rightarrow> string \<Rightarrow> string" where
  "HostLabel nameResolver ip = transport_hostLabel nameResolver ip"

text \<open>The caller that a context carries, for log lines and for expired waiters; empty without one.\<close>

definition CallerFromContext :: "string option \<Rightarrow> string" where
  "CallerFromContext caller = (case caller of Some c \<Rightarrow> c | None \<Rightarrow> [])"

section \<open>Lemmas\<close>

text \<open>What is joined was asked for and is an address; all of it is joined when the system lets it.\<close>

lemma joined_requested:
  "joinMulticastOnIPs net v6 conn ips w = (joined, w') \<Longrightarrow>
     set joined \<subseteq> {s \<in> set ips. parse_go_ip v6 s \<noteq> None}"
proof (induction ips arbitrary: w joined)
  case (Cons s ips)
  have "set joined \<subseteq> {s \<in> set ips. parse_go_ip v6 s \<noteq> None}" if "joinMulticastOnIPs net v6 conn ips w = (joined, w')" for w joined
    using Cons.IH [OF that] .
  then show ?case using Cons.prems by (fastforce split: option.splits prod.splits)
qed simp

lemma joined_all:
  assumes "\<And>iface w. fst (g_joinGroup net conn iface w) = None"
  shows "fst (joinMulticastOnIPs net v6 conn ips w) = filter (\<lambda>s. parse_go_ip v6 s \<noteq> None) ips"
proof (induction ips arbitrary: w)
  case (Cons s ips)
  show ?case
  proof (cases "parse_go_ip v6 s")
    case (Some ip)
    obtain w1 where "g_joinGroup net conn (findInterfaceByIP net ip w) w = (None, w1)"
      using assms by (metis prod.collapse)
    with Some Cons show ?thesis by (simp split: prod.splits) (metis fst_conv)
  qed (simp add: Cons)
qed simp

lemma join_each_all:
  assumes "\<And>iface w. fst (g_joinGroup net conn iface w) = None"
  shows "fst (join_each net conn ps w) = map (\<lambda>(_, ip). ip4_text ip) ps"
proof (induction ps arbitrary: w)
  case (Cons p ps)
  obtain iface ip where p: "p = (iface, ip)" by (cases p)
  obtain w1 where "g_joinGroup net conn (Some iface) w = (None, w1)" using assms by (metis prod.collapse)
  with Cons p show ?case by (simp split: prod.splits) (metis fst_conv)
qed simp

text \<open>Joining and closing leave the invariant of the transport.\<close>

lemma JoinMulticast_transport:
  "JoinMulticast net mnet v6 ips (t, w) = (joined, t', w') \<Longrightarrow> conn_change t t'"
  by (auto simp: JoinMulticast_def split: prod.splits sum.splits dest: getOrCreate_change)

lemma Close_closes: "FixedConn (snd (Close t)) = None"
  by (simp add: Close_def FixedConn_def)

end
