(* ===== verification/Connection.thy ===== *)
theory Connection
  imports Prelude
begin

text \<open>
  \<open>internal/mqtt/publisher.go\<close>: the callbacks of a connection - the handler that \<open>NewPublisher\<close> gives to
  the MQTT client and \<open>RegisterOnConnect\<close> - as a step relation. The client calls the handler in a
  goroutine of its own after it has become connected, so that connections may come and go before the
  handler runs, and registering a callback is two steps under \<open>muConnect\<close>: the append, and the look
  whether the client is connected, which may have changed. A handler copies the callbacks under the same
  lock. The lemmas show that no registered callback misses a connection.
\<close>

section \<open>Steps\<close>

text \<open>The number of the current connection and whether it is up, the handlers that were started and have not
  copied the callbacks yet (by the connection they were started for), the callbacks, the callback
  appended by the registration that holds \<open>muConnect\<close> and has not yet looked at the connection, and the
  calls made: the callback and the connection that was current. \<open>bridge\<close> counts the publications of the bridge.\<close>

record 'c connection =
  cn_number :: nat
  cn_up :: bool
  cn_handlers :: "nat list"
  cn_callbacks :: "'c list"
  cn_registering :: "'c option"
  cn_calls :: "('c \<times> nat) list"
  cn_bridge :: nat

definition no_connection :: "'c connection" where
  "no_connection = \<lparr>cn_number = 0, cn_up = False, cn_handlers = [], cn_callbacks = [], cn_registering = None, cn_calls = [],
     cn_bridge = 0\<rparr>"

inductive connection_step :: "'c connection \<Rightarrow> 'c connection \<Rightarrow> bool" where
  connect: "\<not> cn_up s \<Longrightarrow>
     connection_step s (s\<lparr>cn_number := Suc (cn_number s), cn_up := True, cn_handlers := Suc (cn_number s) # cn_handlers s\<rparr>)"
| lose: "cn_up s \<Longrightarrow> connection_step s (s\<lparr>cn_up := False\<rparr>)"
| handle: "n \<in> set (cn_handlers s) \<Longrightarrow> cn_registering s = None \<Longrightarrow>
     connection_step s (s\<lparr>cn_handlers := remove1 n (cn_handlers s), cn_bridge := Suc (cn_bridge s),
       cn_calls := cn_calls s @ map (\<lambda>cb. (cb, cn_number s)) (cn_callbacks s)\<rparr>)"
| append_callback: "cn_registering s = None \<Longrightarrow>
     connection_step s (s\<lparr>cn_callbacks := cn_callbacks s @ [cb], cn_registering := Some cb\<rparr>)"
| check_connected: "cn_registering s = Some cb \<Longrightarrow>
     connection_step s (s\<lparr>cn_registering := None,
       cn_calls := (if cn_up s then cn_calls s @ [(cb, cn_number s)] else cn_calls s)\<rparr>)"

inductive connection_reachable :: "'c connection \<Rightarrow> bool" where
  start: "connection_reachable no_connection"
| step: "connection_reachable s \<Longrightarrow> connection_step s s' \<Longrightarrow> connection_reachable s'"

section \<open>Lemmas\<close>

text \<open>While a connection is up, each callback has been called in it, or a handler started for it is still
  to run, or its registration has yet to look.\<close>

definition connection_ok :: "'c connection \<Rightarrow> bool" where
  "connection_ok s \<longleftrightarrow>
     (\<forall>n \<in> set (cn_handlers s). n \<le> cn_number s)
     \<and> (cn_up s \<longrightarrow> (\<forall>cb \<in> set (cn_callbacks s). (cb, cn_number s) \<in> set (cn_calls s)
          \<or> cn_number s \<in> set (cn_handlers s) \<or> cn_registering s = Some cb))"

lemma connection_ok_step: "connection_step s s' \<Longrightarrow> connection_ok s \<Longrightarrow> connection_ok s'"
proof (induction rule: connection_step.induct)
  case (handle n s)
  then show ?case by (auto simp: connection_ok_def dest: set_mp [OF set_remove1_subset])
qed (auto simp: connection_ok_def)

lemma reachable_connection_ok: "connection_reachable s \<Longrightarrow> connection_ok s"
proof (induction rule: connection_reachable.induct)
  case start
  then show ?case by (simp add: connection_ok_def no_connection_def)
qed (auto intro: connection_ok_step)

text \<open>Once the handlers and registrations under way are done, every registered callback has been called in the
  current connection: subscriptions are renewed on every reconnect, whatever came in between.\<close>

lemma callbacks_reach_connection:
  assumes "connection_reachable s" "cn_up s" "cn_handlers s = []" "cn_registering s = None" "cb \<in> set (cn_callbacks s)"
  shows "(cb, cn_number s) \<in> set (cn_calls s)"
  using reachable_connection_ok [OF assms(1)] assms(2-5) by (simp add: connection_ok_def)

end
