(* ===== verification/Polling.thy ===== *)
theory Polling
  imports Scheduler
begin

text \<open>
  \<open>internal/poller/scheduler.go\<close>: \<open>Start\<close> - one goroutine per host that discovers its devices in turn and
  then starts their scrapers, a wait for all of them, the report that the poller is ready, and one
  refresher per host - as a step relation over the interleavings of the hosts. A step is the discovery
  of one device, or the end of a goroutine; what other goroutines do to the shared state (scrapers of
  hosts that are done, pushes, commands) is a step of its own. The lemmas show that the poller gets
  ready whatever happens, and that by then every configured device is polled.
\<close>

section \<open>The goroutines of the hosts\<close>

text \<open>The state of a goroutine: the devices that are left, and those found to have metrics.\<close>

record host_run =
  hr_todo :: "Device list"
  hr_found :: "discovered list"

text \<open>The running goroutines by address, the state that is shared, whether the context has ended, the
  scrapers that were started, \<open>hostDevicePairs\<close>, whether \<open>readyFunc\<close> was called, and the refreshers.\<close>

record 's starting =
  sg_hosts :: "(string, host_run) gomap"
  sg_shared :: "host_eojs \<times> Cache \<times> 's"
  sg_cancelled :: bool
  sg_scrapers :: "scraper list"
  sg_pairs :: "(string, (Device \<times> eoj) list) gomap"
  sg_ready :: bool
  sg_refreshers :: "(Device \<times> eoj) list list"

abbreviation sg_cache :: "'s starting \<Rightarrow> Cache" where
  "sg_cache st \<equiv> fst (snd (sg_shared st))"

definition Start_poller :: "(string \<rightharpoonup> DeviceSpec) \<Rightarrow> Device list \<Rightarrow> host_eojs \<times> Cache \<times> 's \<Rightarrow> 's starting" where
  "Start_poller deviceSpecs devices shared =
     \<lparr>sg_hosts = map (\<lambda>(ip, ds). (ip, \<lparr>hr_todo = ds, hr_found = []\<rparr>)) (devices_by_ip deviceSpecs devices),
      sg_shared = shared, sg_cancelled = False, sg_scrapers = [], sg_pairs = [], sg_ready = False, sg_refreshers = []\<rparr>"

text \<open>The discovery of a device, and what the goroutine keeps of it.\<close>

type_synonym 's discovery =
  "Device \<Rightarrow> DeviceSpec \<Rightarrow> host_eojs \<times> Cache \<times> 's \<Rightarrow> (eoj \<times> MetricSpec list \<times> DeviceSpec) \<times> host_eojs \<times> Cache \<times> 's"

definition add_found :: "Device \<Rightarrow> eoj \<times> MetricSpec list \<times> DeviceSpec \<Rightarrow> discovered list \<Rightarrow> discovered list" where
  "add_found dev res found =
     (case res of (activeEOJ, activeMetrics, activeSpec) \<Rightarrow>
        if activeMetrics = [] then found else found @ [(dev, activeEOJ, activeMetrics, activeSpec)])"

definition host_scrapers :: "discovered list \<Rightarrow> scraper list" where
  "host_scrapers found =
     concat (map (\<lambda>(devIdx, dev, eoj, metrics, spec). scheduleDeviceScrapers dev eoj metrics spec devIdx) (enumerate 0 found))"

definition host_pairs :: "discovered list \<Rightarrow> (Device \<times> eoj) list" where
  "host_pairs found = map (\<lambda>(dev, eoj, _). (dev, eoj)) found"

text \<open>The first five kinds of steps are the scheduler's. The context may end at any time; and only the discovery
  calls \<open>SetDeviceEOJ\<close> and \<open>SetDeviceSpecs\<close>, whatever else other goroutines do to the cache.\<close>

inductive start_step :: "'s discovery \<Rightarrow> (string \<rightharpoonup> DeviceSpec) \<Rightarrow> bool \<Rightarrow> 's starting \<Rightarrow> 's starting \<Rightarrow> bool"
  for discover deviceSpecs where
  discover_one: "map_of (sg_hosts st) ip = Some h \<Longrightarrow> hr_todo h = dev # devs \<Longrightarrow> \<not> sg_cancelled st \<Longrightarrow>
     deviceSpecs (dv_Class dev) = Some spec \<Longrightarrow> discover dev spec (sg_shared st) = (res, shared) \<Longrightarrow>
     start_step discover deviceSpecs True st (st\<lparr>sg_shared := shared,
       sg_hosts := AList.update ip (h\<lparr>hr_todo := devs, hr_found := add_found dev res (hr_found h)\<rparr>) (sg_hosts st)\<rparr>)"
| skip_unknown: "map_of (sg_hosts st) ip = Some h \<Longrightarrow> hr_todo h = dev # devs \<Longrightarrow> \<not> sg_cancelled st \<Longrightarrow>
     deviceSpecs (dv_Class dev) = None \<Longrightarrow>
     start_step discover deviceSpecs True st (st\<lparr>sg_hosts := AList.update ip (h\<lparr>hr_todo := devs\<rparr>) (sg_hosts st)\<rparr>)"
| give_up: "map_of (sg_hosts st) ip = Some h \<Longrightarrow> sg_cancelled st \<Longrightarrow>
     start_step discover deviceSpecs True st (st\<lparr>sg_hosts := AList.delete ip (sg_hosts st)\<rparr>)"
| launch: "map_of (sg_hosts st) ip = Some h \<Longrightarrow> hr_todo h = [] \<Longrightarrow> \<not> sg_cancelled st \<Longrightarrow>
     start_step discover deviceSpecs True st (st\<lparr>sg_hosts := AList.delete ip (sg_hosts st),
       sg_scrapers := sg_scrapers st @ host_scrapers (hr_found h),
       sg_pairs := AList.update ip (host_pairs (hr_found h)) (sg_pairs st)\<rparr>)"
| ready: "sg_hosts st = [] \<Longrightarrow> \<not> sg_ready st \<Longrightarrow>
     start_step discover deviceSpecs True st (st\<lparr>sg_ready := True, sg_refreshers := map snd (sg_pairs st)\<rparr>)"
| cancel: "start_step discover deviceSpecs False st (st\<lparr>sg_cancelled := True\<rparr>)"
| others: "ca_eojByDev (fst (snd shared)) = ca_eojByDev (sg_cache st) \<Longrightarrow>
     ca_specsByDev (fst (snd shared)) = ca_specsByDev (sg_cache st) \<Longrightarrow>
     start_step discover deviceSpecs False st (st\<lparr>sg_shared := shared\<rparr>)"

text \<open>An execution; the list tells which of its steps are the scheduler's.\<close>

inductive start_runs :: "'s discovery \<Rightarrow> (string \<rightharpoonup> DeviceSpec) \<Rightarrow> 's starting \<Rightarrow> bool list \<Rightarrow> 's starting \<Rightarrow> bool"
  for discover deviceSpecs where
  begin_run: "start_runs discover deviceSpecs st [] st"
| step: "start_runs discover deviceSpecs st bs st' \<Longrightarrow> start_step discover deviceSpecs b st' st'' \<Longrightarrow>
     start_runs discover deviceSpecs st (bs @ [b]) st''"

section \<open>Lemmas: the devices of a host\<close>

lemma devices_by_ip_fold:
  "set (case map_of (fold (\<lambda>dev m. if deviceSpecs (dv_Class dev) = None then m
       else AList.update (dv_IP dev) ((case map_of m (dv_IP dev) of Some ds \<Rightarrow> ds | None \<Rightarrow> []) @ [dev]) m) devices m0) ip
     of Some ds \<Rightarrow> ds | None \<Rightarrow> [])
   = set (case map_of m0 ip of Some ds \<Rightarrow> ds | None \<Rightarrow> [])
     \<union> {dev \<in> set devices. dv_IP dev = ip \<and> deviceSpecs (dv_Class dev) \<noteq> None}"
  by (induction devices arbitrary: m0) (auto split: option.splits)

lemma gomap_ok_devices_by_ip: "gomap_ok (devices_by_ip deviceSpecs devices)"
proof -
  have "gomap_ok m0 \<Longrightarrow> gomap_ok (fold (\<lambda>dev m. if deviceSpecs (dv_Class dev) = None then m
       else AList.update (dv_IP dev) ((case map_of m (dv_IP dev) of Some ds \<Rightarrow> ds | None \<Rightarrow> []) @ [dev]) m) devices m0)" for m0
    by (induction devices arbitrary: m0) auto
  then show ?thesis by (simp add: devices_by_ip_def)
qed

lemma devices_by_ip_has:
  assumes "dev \<in> set devices" "deviceSpecs (dv_Class dev) \<noteq> None"
  shows "\<exists>ds. map_of (devices_by_ip deviceSpecs devices) (dv_IP dev) = Some ds \<and> dev \<in> set ds"
proof (cases "map_of (devices_by_ip deviceSpecs devices) (dv_IP dev)")
  case None
  then show ?thesis
    using devices_by_ip_fold [of deviceSpecs devices "[]" "dv_IP dev"] assms by (auto simp: devices_by_ip_def)
next
  case (Some ds)
  then have "set ds = {d \<in> set devices. dv_IP d = dv_IP dev \<and> deviceSpecs (dv_Class d) \<noteq> None}"
    using devices_by_ip_fold [of deviceSpecs devices "[]" "dv_IP dev"] by (simp add: devices_by_ip_def)
  with assms Some show ?thesis by blast
qed

lemma Start_poller_hosts:
  "map_of (sg_hosts (Start_poller deviceSpecs devices shared)) ip
     = map_option (\<lambda>ds. \<lparr>hr_todo = ds, hr_found = []\<rparr>) (map_of (devices_by_ip deviceSpecs devices) ip)"
  "gokeys (sg_hosts (Start_poller deviceSpecs devices shared)) = gokeys (devices_by_ip deviceSpecs devices)"
  by (auto simp: Start_poller_def map_of_map image_image case_prod_beta)

section \<open>Lemmas: termination\<close>

text \<open>A bound of the steps that the scheduler has left.\<close>

definition start_steps_left :: "'s starting \<Rightarrow> nat" where
  "start_steps_left st =
     sum_list (map (\<lambda>(_, h). Suc (length (hr_todo h))) (sg_hosts st)) + (if sg_ready st then 0 else 1)"

lemma gokeys_delete: "gokeys (AList.delete k m) = gokeys m - {k}"
  by (auto simp: AList.delete_eq)

lemma some_key: "map_of m k = Some v \<Longrightarrow> k \<in> gokeys m"
  by (force dest: map_of_SomeD)

lemma sum_update:
  fixes f :: "'v \<Rightarrow> nat"
  assumes "map_of m k = Some v"
  shows "sum_list (map (\<lambda>(_, x). f x) (AList.update k v' m)) + f v = sum_list (map (\<lambda>(_, x). f x) m) + f v'"
  using assms by (induction m) (auto split: if_splits)

lemma sum_delete:
  fixes f :: "'v \<Rightarrow> nat"
  assumes "gomap_ok m" "map_of m k = Some v"
  shows "sum_list (map (\<lambda>(_, x). f x) (AList.delete k m)) + f v = sum_list (map (\<lambda>(_, x). f x) m)"
  using assms
proof (induction m)
  case (Cons p m)
  obtain a b where p: "p = (a, b)" by (cases p)
  have "AList.delete k m = m" if "a = k" "gomap_ok ((a, b) # m)"
    using that by (force simp: gomap_ok_def AList.delete_eq filter_id_conv)
  with Cons p show ?case by (auto simp: gomap_ok_def split: if_splits)
qed simp

lemma start_step_decreases:
  assumes "start_step discover deviceSpecs True st st'" "gomap_ok (sg_hosts st)"
  shows "start_steps_left st' < start_steps_left st"
  using assms(1)
proof cases
  case (discover_one ip h dev devs spec res shared)
  with sum_update [OF discover_one(2), of "\<lambda>h. Suc (length (hr_todo h))"
      "h\<lparr>hr_todo := devs, hr_found := add_found dev res (hr_found h)\<rparr>"] show ?thesis
    by (simp add: start_steps_left_def)
next
  case (skip_unknown ip h dev devs)
  with sum_update [OF skip_unknown(2), of "\<lambda>h. Suc (length (hr_todo h))" "h\<lparr>hr_todo := devs\<rparr>"] show ?thesis
    by (simp add: start_steps_left_def)
next
  case (give_up ip h)
  with sum_delete [OF assms(2) give_up(2), of "\<lambda>h. Suc (length (hr_todo h))"] show ?thesis
    by (simp add: start_steps_left_def)
next
  case (launch ip h)
  with sum_delete [OF assms(2) launch(2), of "\<lambda>h. Suc (length (hr_todo h))"] show ?thesis
    by (simp add: start_steps_left_def)
qed (simp_all add: start_steps_left_def)

section \<open>Lemmas: the goroutines\<close>

text \<open>A goroutine works on the configured devices of its host; readiness is reported when none is left.\<close>

definition host_ok :: "Device list \<Rightarrow> string \<Rightarrow> host_run \<Rightarrow> bool" where
  "host_ok devices ip h \<longleftrightarrow> (\<forall>d \<in> set (hr_found h). dv_IP (fst d) = ip)
     \<and> (\<forall>dev \<in> set (hr_todo h). dv_IP dev = ip \<and> dev \<in> set devices)"

definition hosts_ok :: "Device list \<Rightarrow> 's starting \<Rightarrow> bool" where
  "hosts_ok devices st \<longleftrightarrow> gomap_ok (sg_hosts st) \<and> gokeys (sg_hosts st) \<inter> gokeys (sg_pairs st) = {}
     \<and> (\<forall>ip h. map_of (sg_hosts st) ip = Some h \<longrightarrow> host_ok devices ip h)
     \<and> (sg_ready st \<longrightarrow> sg_hosts st = [] \<and> sg_refreshers st = map snd (sg_pairs st))"

lemma hosts_okD:
  assumes "hosts_ok devices st"
  shows "gomap_ok (sg_hosts st)" "gokeys (sg_hosts st) \<inter> gokeys (sg_pairs st) = {}"
    "map_of (sg_hosts st) ip = Some h \<Longrightarrow> host_ok devices ip h"
    "sg_ready st \<Longrightarrow> sg_hosts st = [] \<and> sg_refreshers st = map snd (sg_pairs st)"
  using assms unfolding hosts_ok_def by blast+

lemma hosts_ok_update:
  assumes "hosts_ok devices st" "map_of (sg_hosts st) ip = Some h" "host_ok devices ip h'"
    and "sg_hosts st' = AList.update ip h' (sg_hosts st)" "sg_pairs st' = sg_pairs st" "sg_ready st' = sg_ready st"
  shows "hosts_ok devices st'"
proof -
  have "gokeys (sg_hosts st') = gokeys (sg_hosts st)" "sg_hosts st \<noteq> []"
    using some_key [OF assms(2)] assms(4) by (auto simp: dom_update insert_absorb)
  moreover have "host_ok devices i g" if "map_of (sg_hosts st') i = Some g" for i g
    using that assms(3,4) hosts_okD(3) [OF assms(1), of i g] by (auto split: if_splits)
  ultimately show ?thesis using hosts_okD(1,2,4) [OF assms(1)] assms(4-6) by (auto simp: hosts_ok_def)
qed

lemma hosts_ok_delete:
  assumes "hosts_ok devices st" "map_of (sg_hosts st) ip = Some h" "sg_hosts st' = AList.delete ip (sg_hosts st)"
    and "gokeys (sg_pairs st') \<subseteq> insert ip (gokeys (sg_pairs st))" "sg_ready st' = sg_ready st"
  shows "hosts_ok devices st'"
proof -
  have "gokeys (sg_hosts st') \<inter> gokeys (sg_pairs st') = {}"
    unfolding assms(3) gokeys_delete using hosts_okD(2) [OF assms(1)] assms(4) by blast
  moreover have "host_ok devices i g" if "map_of (sg_hosts st') i = Some g" for i g
    using that assms(3) hosts_okD(3) [OF assms(1), of i g] by (auto split: if_splits)
  moreover have "\<not> sg_ready st" using hosts_okD(4) [OF assms(1)] assms(2) by auto
  ultimately show ?thesis using hosts_okD(1) [OF assms(1)] assms(3,5) by (simp add: hosts_ok_def)
qed

lemma host_ok_found: "host_ok devices ip h \<Longrightarrow> dev \<in> set (hr_todo h) \<Longrightarrow> set devs \<subseteq> set (hr_todo h) \<Longrightarrow>
    host_ok devices ip (h\<lparr>hr_todo := devs, hr_found := add_found dev res (hr_found h)\<rparr>)"
  by (cases res) (auto simp: host_ok_def add_found_def)

lemma hosts_ok_step:
  assumes "start_step discover deviceSpecs b st st'" "hosts_ok devices st"
  shows "hosts_ok devices st'"
  using assms(1)
proof cases
  case (discover_one ip h dev devs spec res shared)
  have "host_ok devices ip (h\<lparr>hr_todo := devs, hr_found := add_found dev res (hr_found h)\<rparr>)"
    using discover_one(4) by (intro host_ok_found hosts_okD(3) [OF assms(2) discover_one(3)]) auto
  then show ?thesis unfolding discover_one(2) by (rule hosts_ok_update [OF assms(2) discover_one(3)]) simp_all
next
  case (skip_unknown ip h dev devs)
  have "host_ok devices ip (h\<lparr>hr_todo := devs\<rparr>)"
    using hosts_okD(3) [OF assms(2) skip_unknown(3)] skip_unknown(4) by (simp add: host_ok_def)
  then show ?thesis unfolding skip_unknown(2) by (rule hosts_ok_update [OF assms(2) skip_unknown(3)]) simp_all
next
  case (give_up ip h)
  show ?thesis unfolding give_up(2) by (rule hosts_ok_delete [OF assms(2) give_up(3)]) auto
next
  case (launch ip h)
  show ?thesis unfolding launch(2) by (rule hosts_ok_delete [OF assms(2) launch(3)]) (simp_all add: dom_update)
qed (use assms(2) in \<open>simp_all add: hosts_ok_def\<close>)

lemma hosts_ok_runs: "start_runs discover deviceSpecs st bs st' \<Longrightarrow> hosts_ok devices st \<Longrightarrow> hosts_ok devices st'"
proof (induction rule: start_runs.induct)
  case (step st bs st' b st'')
  then show ?case using hosts_ok_step by metis
qed

lemma Start_poller_hosts_ok: "hosts_ok devices (Start_poller deviceSpecs devices shared)"
proof -
  let ?st = "Start_poller deviceSpecs devices shared"
  have "gomap_ok (sg_hosts ?st)"
    using gomap_ok_devices_by_ip [of deviceSpecs devices] by (simp add: Start_poller_def gomap_ok_def comp_def case_prod_beta)
  moreover have "host_ok devices ip h" if "map_of (sg_hosts ?st) ip = Some h" for ip h
  proof -
    from that obtain ds where ds: "map_of (devices_by_ip deviceSpecs devices) ip = Some ds" "h = \<lparr>hr_todo = ds, hr_found = []\<rparr>"
      by (auto simp: Start_poller_hosts)
    then show ?thesis
      using devices_by_ip_fold [of deviceSpecs devices "[]" ip] by (simp add: devices_by_ip_def host_ok_def)
  qed
  ultimately show ?thesis by (simp add: hosts_ok_def) (simp add: Start_poller_def)
qed

section \<open>Lemmas: every device is polled\<close>

definition waiting :: "'s starting \<Rightarrow> Device \<Rightarrow> bool" where
  "waiting st dev \<longleftrightarrow> (\<exists>h. map_of (sg_hosts st) (dv_IP dev) = Some h \<and> dev \<in> set (hr_todo h))"

definition launched :: "'s starting \<Rightarrow> discovered \<Rightarrow> bool" where
  "launched st d \<longleftrightarrow> (case d of (dev, eoj, metrics, spec) \<Rightarrow>
     (\<exists>devIdx. set (scheduleDeviceScrapers dev eoj metrics spec devIdx) \<subseteq> set (sg_scrapers st))
     \<and> (\<exists>ps. map_of (sg_pairs st) (dv_IP dev) = Some ps \<and> (dev, eoj) \<in> set ps))"

definition found_in :: "'s starting \<Rightarrow> discovered \<Rightarrow> bool" where
  "found_in st d \<longleftrightarrow> (\<exists>h. map_of (sg_hosts st) (dv_IP (fst d)) = Some h \<and> d \<in> set (hr_found h))"

text \<open>A device has an object of its class; and if the cache has metrics for it, their scrapers and its refresher
  are there, or will be when the goroutine of the host ends.\<close>

definition known :: "'s starting \<Rightarrow> Device \<Rightarrow> DeviceSpec \<Rightarrow> bool" where
  "known st dev spec0 \<longleftrightarrow> (\<exists>eoj. GetDeviceEOJ dev (sg_cache st) = Some eoj \<and> same_class eoj (d_EOJ spec0))"

definition polled :: "(string \<rightharpoonup> DeviceSpec) \<Rightarrow> 's starting \<Rightarrow> Device \<Rightarrow> DeviceSpec \<Rightarrow> MetricSpec list \<Rightarrow> bool" where
  "polled deviceSpecs st dev spec0 metrics \<longleftrightarrow> (\<exists>eoj spec cls. same_class eoj (d_EOJ spec0) \<and> deviceSpecs cls = Some spec
     \<and> (found_in st (dev, eoj, metrics, spec) \<or> launched st (dev, eoj, metrics, spec)))"

definition device_done :: "(string \<rightharpoonup> DeviceSpec) \<Rightarrow> 's starting \<Rightarrow> Device \<Rightarrow> bool" where
  "device_done deviceSpecs st dev \<longleftrightarrow> (\<forall>spec0. deviceSpecs (dv_Class dev) = Some spec0 \<longrightarrow>
     (waiting st dev \<or> known st dev spec0)
     \<and> (\<forall>metrics. GetDeviceSpecs dev (sg_cache st) = Some metrics \<longrightarrow> polled deviceSpecs st dev spec0 metrics))"

lemma device_doneD:
  assumes "device_done deviceSpecs st dev" "deviceSpecs (dv_Class dev) = Some spec0"
  shows "waiting st dev \<or> known st dev spec0"
    "GetDeviceSpecs dev (sg_cache st) = Some metrics \<Longrightarrow> polled deviceSpecs st dev spec0 metrics"
  using assms by (simp_all add: device_done_def)

lemma polled_mono:
  assumes "polled deviceSpecs st dev spec0 metrics"
    and "\<And>eoj spec. found_in st (dev, eoj, metrics, spec) \<or> launched st (dev, eoj, metrics, spec) \<Longrightarrow>
       found_in st' (dev, eoj, metrics, spec) \<or> launched st' (dev, eoj, metrics, spec)"
  shows "polled deviceSpecs st' dev spec0 metrics"
  using assms unfolding polled_def by metis

lemma device_done_mono:
  assumes "device_done deviceSpecs st dev"
    and "GetDeviceEOJ dev (sg_cache st') = GetDeviceEOJ dev (sg_cache st)"
    and "GetDeviceSpecs dev (sg_cache st') = GetDeviceSpecs dev (sg_cache st)"
    and "deviceSpecs (dv_Class dev) \<noteq> None \<Longrightarrow> waiting st dev \<Longrightarrow> waiting st' dev"
    and "\<And>eoj metrics spec. found_in st (dev, eoj, metrics, spec) \<or> launched st (dev, eoj, metrics, spec) \<Longrightarrow>
       found_in st' (dev, eoj, metrics, spec) \<or> launched st' (dev, eoj, metrics, spec)"
  shows "device_done deviceSpecs st' dev"
  unfolding device_done_def
proof (intro allI impI conjI)
  fix spec0 assume spec0: "deviceSpecs (dv_Class dev) = Some spec0"
  show "waiting st' dev \<or> known st' dev spec0"
    using device_doneD(1) [OF assms(1) spec0] assms(2,4) spec0 by (auto simp: known_def)
  show "polled deviceSpecs st' dev spec0 metrics" if "GetDeviceSpecs dev (sg_cache st') = Some metrics" for metrics
    using device_doneD(2) [OF assms(1) spec0] that assms(3) by (intro polled_mono [OF _ assms(5)]) simp_all
qed

lemma add_found_set: "d \<in> set found \<Longrightarrow> d \<in> set (add_found dev res found)"
  by (cases res) (auto simp: add_found_def)

lemma host_scrapers_of:
  assumes "(dev, eoj, metrics, spec) \<in> set found"
  shows "\<exists>devIdx. set (scheduleDeviceScrapers dev eoj metrics spec devIdx) \<subseteq> set (host_scrapers found)"
    and "(dev, eoj) \<in> set (host_pairs found)"
proof -
  obtain i where i: "i < length found" "found ! i = (dev, eoj, metrics, spec)" using assms by (auto simp: in_set_conv_nth)
  then have "(i, dev, eoj, metrics, spec) \<in> set (enumerate 0 found)" by (auto simp: in_set_enumerate_eq)
  then have "set (scheduleDeviceScrapers dev eoj metrics spec i) \<subseteq> set (host_scrapers found)"
    unfolding host_scrapers_def set_concat set_map by (cases eoj) (intro subsetI UN_I [OF imageI], auto)
  then show "\<exists>devIdx. set (scheduleDeviceScrapers dev eoj metrics spec devIdx) \<subseteq> set (host_scrapers found)" by blast
  show "(dev, eoj) \<in> set (host_pairs found)" using assms by (force simp: host_pairs_def)
qed

lemma launch_done:
  assumes st': "st' = st\<lparr>sg_hosts := AList.delete ip (sg_hosts st), sg_scrapers := sg_scrapers st @ host_scrapers (hr_found h),
       sg_pairs := AList.update ip (host_pairs (hr_found h)) (sg_pairs st)\<rparr>"
    and h: "map_of (sg_hosts st) ip = Some h" "hr_todo h = []"
    and ok: "hosts_ok devices st" "device_done deviceSpecs st x"
  shows "device_done deviceSpecs st' x"
proof -
  have "ip \<notin> gokeys (sg_pairs st)" using hosts_okD(2) [OF ok(1)] some_key [OF h(1)] by blast
  then have none: "map_of (sg_pairs st) ip = None" by (simp add: map_of_eq_None_iff)
  have old: "launched st' (z, e, ms, sp)" if "launched st (z, e, ms, sp)" for z e ms sp
    using that none by (auto simp: launched_def st')
  have new: "launched st' (z, e, ms, sp)" if "(z, e, ms, sp) \<in> set (hr_found h)" for z e ms sp
  proof -
    have "dv_IP z = ip" using hosts_okD(3) [OF ok(1) h(1)] that by (force simp: host_ok_def)
    with host_scrapers_of [OF that] show ?thesis by (auto simp: launched_def st')
  qed
  have "found_in st' (z, e, ms, sp) \<or> launched st' (z, e, ms, sp)" if "found_in st (z, e, ms, sp)" for z e ms sp
    using that new [of z e ms sp] h(1) by (cases "dv_IP z = ip") (auto simp: found_in_def st')
  with old have "found_in st' (z, e, ms, sp) \<or> launched st' (z, e, ms, sp)"
    if "found_in st (z, e, ms, sp) \<or> launched st (z, e, ms, sp)" for z e ms sp using that by blast
  moreover have "waiting st' x" if "waiting st x" using that h by (auto simp: waiting_def st')
  ultimately show ?thesis by (intro device_done_mono [OF ok(2)]) (simp_all add: st')
qed

text \<open>Until the context ends, no device is forgotten.\<close>

definition devices_done :: "(string \<rightharpoonup> DeviceSpec) \<Rightarrow> Device list \<Rightarrow> 's starting \<Rightarrow> bool" where
  "devices_done deviceSpecs devices st \<longleftrightarrow> sg_cancelled st \<or> (\<forall>dev \<in> set devices. device_done deviceSpecs st dev)"

lemma Start_poller_done:
  assumes "\<And>dev. dev \<in> set devices \<Longrightarrow> GetDeviceSpecs dev (fst (snd shared)) = None"
  shows "devices_done deviceSpecs devices (Start_poller deviceSpecs devices shared)"
proof -
  let ?st = "Start_poller deviceSpecs devices shared"
  have "device_done deviceSpecs ?st dev" if "dev \<in> set devices" for dev
  proof -
    have "waiting ?st dev" if "deviceSpecs (dv_Class dev) \<noteq> None"
      using devices_by_ip_has [where deviceSpecs = deviceSpecs, OF \<open>dev \<in> set devices\<close> that]
      by (auto simp: waiting_def Start_poller_hosts)
    moreover have "GetDeviceSpecs dev (sg_cache ?st) = None" using assms [OF that] by (simp add: Start_poller_def)
    ultimately show ?thesis by (simp add: device_done_def)
  qed
  then show ?thesis by (simp add: devices_done_def)
qed

text \<open>What the start relies on: a discovery records an object of the device's class, and the metrics if there
  are any, of a specification that was loaded; and it leaves the other devices alone.\<close>

locale host_discovery =
  fixes discover :: "'s discovery" and deviceSpecs :: "string \<rightharpoonup> DeviceSpec"
  assumes eoj: "discover dev spec (hosts, c, s) = ((eoj, metrics, active), hosts', c', s') \<Longrightarrow>
      ca_eojByDev c' = (ca_eojByDev c)(deviceKey dev \<mapsto> eoj) \<and> same_class eoj (d_EOJ spec)"
    and specs: "discover dev spec (hosts, c, s) = ((eoj, metrics, active), hosts', c', s') \<Longrightarrow>
      ca_specsByDev c' = (if metrics = [] then ca_specsByDev c else (ca_specsByDev c)(deviceKey dev \<mapsto> metrics))"
    and active: "discover dev spec (hosts, c, s) = ((eoj, metrics, active), hosts', c', s') \<Longrightarrow>
      active = spec \<or> (\<exists>cls. deviceSpecs cls = Some active)"
begin

lemma discovered:
  assumes "discover dev spec shared = (res, shared')" "deviceSpecs (dv_Class dev) = Some spec"
  obtains eoj metrics active cls where "res = (eoj, metrics, active)" "deviceSpecs cls = Some active" "same_class eoj (d_EOJ spec)"
    "GetDeviceEOJ dev (fst (snd shared')) = Some eoj"
    "GetDeviceSpecs dev (fst (snd shared')) = (if metrics = [] then GetDeviceSpecs dev (fst (snd shared)) else Some metrics)"
    "\<And>other. deviceKey other \<noteq> deviceKey dev \<Longrightarrow> GetDeviceEOJ other (fst (snd shared')) = GetDeviceEOJ other (fst (snd shared))
       \<and> GetDeviceSpecs other (fst (snd shared')) = GetDeviceSpecs other (fst (snd shared))"
proof -
  obtain hosts c s hosts' c' s' eoj metrics active where
    shared: "shared = (hosts, c, s)" "shared' = (hosts', c', s')" "res = (eoj, metrics, active)"
    by (metis prod_cases3)
  note d = assms(1) [unfolded shared]
  show ?thesis
    using that [OF shared(3)] eoj [OF d] specs [OF d] active [OF d] assms(2) shared
    by (auto simp: GetDeviceEOJ_def GetDeviceSpecs_def)
qed

lemma discover_done:
  assumes st': "st' = st\<lparr>sg_shared := shared,
       sg_hosts := AList.update ip (h\<lparr>hr_todo := devs, hr_found := add_found dev res (hr_found h)\<rparr>) (sg_hosts st)\<rparr>"
    and h: "map_of (sg_hosts st) ip = Some h" "hr_todo h = dev # devs" "deviceSpecs (dv_Class dev) = Some spec"
    and d: "discover dev spec (sg_shared st) = (res, shared)"
    and ok: "hosts_ok devices st" "inj_on deviceKey (set devices)" "x \<in> set devices" "device_done deviceSpecs st x"
  shows "device_done deviceSpecs st' x"
proof -
  obtain eoj metrics active cls where res: "res = (eoj, metrics, active)" "deviceSpecs cls = Some active"
      "same_class eoj (d_EOJ spec)" "GetDeviceEOJ dev (fst (snd shared)) = Some eoj"
      "GetDeviceSpecs dev (fst (snd shared)) = (if metrics = [] then GetDeviceSpecs dev (sg_cache st) else Some metrics)"
    and others: "\<And>other. deviceKey other \<noteq> deviceKey dev \<Longrightarrow> GetDeviceEOJ other (fst (snd shared)) = GetDeviceEOJ other (sg_cache st)
       \<and> GetDeviceSpecs other (fst (snd shared)) = GetDeviceSpecs other (sg_cache st)"
    using discovered [OF d h(3)] by blast
  have dev: "dv_IP dev = ip" "dev \<in> set devices" using hosts_okD(3) [OF ok(1) h(1)] h(2) by (simp_all add: host_ok_def)
  have found: "found_in st' y" if "found_in st y" for y
  proof -
    obtain g where "map_of (sg_hosts st) (dv_IP (fst y)) = Some g" "y \<in> set (hr_found g)"
      using \<open>found_in st y\<close> unfolding found_in_def by blast
    then show ?thesis
      using h(1) by (cases "dv_IP (fst y) = ip") (simp_all add: found_in_def st' res(1) add_found_def)
  qed
  have grows: "found_in st' (z, e, ms, sp) \<or> launched st' (z, e, ms, sp)"
    if "found_in st (z, e, ms, sp) \<or> launched st (z, e, ms, sp)" for z e ms sp
    using that found [of "(z, e, ms, sp)"] by (simp add: launched_def st' del: split_paired_All split_paired_Ex) blast
  show ?thesis
  proof (cases "x = dev")
    case True
    have "known st' dev spec" using res(3,4) by (simp add: known_def st')
    moreover have "polled deviceSpecs st' dev spec ms" if "GetDeviceSpecs dev (sg_cache st') = Some ms" for ms
    proof (cases "metrics = []")
      case True
      then have "GetDeviceSpecs dev (sg_cache st) = Some ms" using that res(5) by (simp add: st')
      with device_doneD(2) [OF ok(4), of spec] \<open>x = dev\<close> h(3) have "polled deviceSpecs st dev spec ms" by simp
      then show ?thesis by (rule polled_mono) (rule grows)
    next
      case False
      then have "ms = metrics" using that res(5) by (simp add: st')
      moreover have "found_in st' (dev, eoj, metrics, active)" using False by (simp add: found_in_def st' dev res(1) add_found_def)
      ultimately show ?thesis unfolding polled_def using res(2,3) by blast
    qed
    ultimately show ?thesis using True h(3) by (simp add: device_done_def)
  next
    case False
    then have "deviceKey x \<noteq> deviceKey dev" using inj_onD [OF ok(2) _ ok(3) dev(2)] by blast
    note same = others [OF this]
    have "waiting st' x" if "waiting st x" using that False h(1,2) by (auto simp: waiting_def st')
    with same show ?thesis by (intro device_done_mono [OF ok(4)] grows) (simp_all add: st')
  qed
qed

lemma devices_done_step:
  assumes "start_step discover deviceSpecs b st st'" "hosts_ok devices st" "inj_on deviceKey (set devices)"
    and "devices_done deviceSpecs devices st"
  shows "devices_done deviceSpecs devices st'"
proof (cases "sg_cancelled st'")
  case False
  from assms(1) have stays: "sg_cancelled st \<Longrightarrow> sg_cancelled st'" by cases auto
  have old: "device_done deviceSpecs st x" if "x \<in> set devices" for x
    using assms(4) stays that False by (auto simp: devices_done_def)
  have "device_done deviceSpecs st' x" if x: "x \<in> set devices" for x
    using assms(1)
  proof cases
    case (discover_one ip h dev devs spec res shared)
    show ?thesis by (rule discover_done [OF discover_one(2-4,6,7) assms(2,3) x old [OF x]])
  next
    case (skip_unknown ip h dev devs)
    then show ?thesis
      by (intro device_done_mono [OF old [OF x]]) (auto simp: waiting_def found_in_def launched_def)
  next
    case (launch ip h)
    show ?thesis by (rule launch_done [OF launch(2-4) assms(2) old [OF x]])
  next
    case (others shared)
    then show ?thesis
      by (intro device_done_mono [OF old [OF x]])
        (auto simp: waiting_def found_in_def launched_def GetDeviceEOJ_def GetDeviceSpecs_def)
  qed (use False old [OF x] in \<open>auto simp: device_done_def waiting_def known_def polled_def found_in_def launched_def\<close>)
  then show ?thesis by (simp add: devices_done_def)
qed (simp add: devices_done_def)

lemma devices_done_runs:
  "start_runs discover deviceSpecs st bs st' \<Longrightarrow> hosts_ok devices st \<Longrightarrow> inj_on deviceKey (set devices) \<Longrightarrow>
     devices_done deviceSpecs devices st \<Longrightarrow> devices_done deviceSpecs devices st'"
proof (induction rule: start_runs.induct)
  case (step st bs st' b st'')
  then show ?case using devices_done_step hosts_ok_runs by metis
qed

text \<open>What has been done for a configured device of a known class once the poller is ready.\<close>

lemma polled_when_ready:
  assumes "start_runs discover deviceSpecs (Start_poller deviceSpecs devices shared) bs st"
    and "sg_ready st" "\<not> sg_cancelled st"
    and "inj_on deviceKey (set devices)" "\<And>d. d \<in> set devices \<Longrightarrow> GetDeviceSpecs d (fst (snd shared)) = None"
    and "dev \<in> set devices" "deviceSpecs (dv_Class dev) = Some spec0"
  shows "\<exists>eoj. GetDeviceEOJ dev (sg_cache st) = Some eoj \<and> same_class eoj (d_EOJ spec0)"
    and "GetDeviceSpecs dev (sg_cache st) = Some metrics \<Longrightarrow> \<exists>eoj spec cls k. same_class eoj (d_EOJ spec0)
      \<and> deviceSpecs cls = Some spec \<and> set (scheduleDeviceScrapers dev eoj metrics spec k) \<subseteq> set (sg_scrapers st)
      \<and> (\<exists>ps \<in> set (sg_refreshers st). (dev, eoj) \<in> set ps)"
proof -
  have ok: "hosts_ok devices st" by (rule hosts_ok_runs [OF assms(1) Start_poller_hosts_ok])
  have "devices_done deviceSpecs devices st"
    by (rule devices_done_runs [OF assms(1) Start_poller_hosts_ok assms(4) Start_poller_done [OF assms(5)]])
  then have dev: "device_done deviceSpecs st dev" using assms(3,6) by (simp add: devices_done_def)
  have fin: "sg_hosts st = []" "sg_refreshers st = map snd (sg_pairs st)" using hosts_okD(4) [OF ok assms(2)] by auto
  show "\<exists>eoj. GetDeviceEOJ dev (sg_cache st) = Some eoj \<and> same_class eoj (d_EOJ spec0)"
    using device_doneD(1) [OF dev assms(7)] by (simp add: waiting_def known_def fin(1))
  assume "GetDeviceSpecs dev (sg_cache st) = Some metrics"
  from device_doneD(2) [OF dev assms(7) this] obtain eoj spec cls where p: "same_class eoj (d_EOJ spec0)" "deviceSpecs cls = Some spec"
    "launched st (dev, eoj, metrics, spec)" unfolding polled_def by (auto simp: found_in_def fin(1))
  then obtain k ps where "set (scheduleDeviceScrapers dev eoj metrics spec k) \<subseteq> set (sg_scrapers st)"
    "map_of (sg_pairs st) (dv_IP dev) = Some ps" "(dev, eoj) \<in> set ps" by (auto simp: launched_def)
  moreover from this have "ps \<in> set (sg_refreshers st)" using map_of_SomeD by (force simp: fin(2))
  ultimately show "\<exists>eoj spec cls k. same_class eoj (d_EOJ spec0)
      \<and> deviceSpecs cls = Some spec \<and> set (scheduleDeviceScrapers dev eoj metrics spec k) \<subseteq> set (sg_scrapers st)
      \<and> (\<exists>ps \<in> set (sg_refreshers st). (dev, eoj) \<in> set ps)"
    using p(1,2) by blast
qed

end

section \<open>Lemmas: progress\<close>

lemma start_runs_append:
  "start_runs discover deviceSpecs st' bs' st'' \<Longrightarrow> start_runs discover deviceSpecs st bs st' \<Longrightarrow>
     start_runs discover deviceSpecs st (bs @ bs') st''"
proof (induction rule: start_runs.induct)
  case (step st' bs' st1 b st2)
  then show ?case using start_runs.step [of discover deviceSpecs st "bs @ bs'"] by simp
qed simp

text \<open>While the poller is not ready, it has a step to make; other steps add none.\<close>

lemma start_step_exists:
  assumes "\<not> sg_ready st \<or> sg_hosts st \<noteq> []"
  shows "\<exists>st'. start_step discover deviceSpecs True st st'"
proof (cases "sg_hosts st")
  case Nil
  with assms have "\<not> sg_ready st" by simp
  from start_step.ready [OF Nil this] show ?thesis by blast
next
  case (Cons p hosts)
  obtain ip h where "p = (ip, h)" by (cases p)
  with Cons have h: "map_of (sg_hosts st) ip = Some h" by simp
  show ?thesis
  proof (cases "sg_cancelled st")
    case True
    from start_step.give_up [OF h True] show ?thesis by blast
  next
    case False
    show ?thesis
    proof (cases "hr_todo h")
      case Nil
      from start_step.launch [OF h Nil False] show ?thesis by blast
    next
      case dev: (Cons dev devs)
      show ?thesis
      proof (cases "deviceSpecs (dv_Class dev)")
        case None
        from start_step.skip_unknown [where deviceSpecs = deviceSpecs, OF h dev False None] show ?thesis by blast
      next
        case (Some spec)
        obtain res shared where "discover dev spec (sg_shared st) = (res, shared)" by (meson surj_pair)
        from start_step.discover_one [where deviceSpecs = deviceSpecs and discover = discover, OF h dev False Some this] show ?thesis by blast
      qed
    qed
  qed
qed

lemma start_step_bound:
  assumes "start_step discover deviceSpecs b st st'" "gomap_ok (sg_hosts st)"
  shows "(if b then 1 else 0) + start_steps_left st' \<le> start_steps_left st"
proof (cases b)
  case True
  then show ?thesis using start_step_decreases assms by fastforce
next
  case False
  with assms(1) show ?thesis by cases (auto simp: start_steps_left_def)
qed

lemma start_runs_bound:
  assumes "start_runs discover deviceSpecs st bs st'" "hosts_ok devices st"
  shows "length (filter id bs) + start_steps_left st' \<le> start_steps_left st"
  using assms
proof (induction rule: start_runs.induct)
  case (step st bs st' b st'')
  then have "gomap_ok (sg_hosts st')" using hosts_okD(1) [OF hosts_ok_runs] by metis
  from start_step_bound [OF step.hyps(2) this] step show ?case by (cases b) simp_all
qed simp

lemma start_can_finish:
  assumes "hosts_ok devices st"
  shows "\<exists>bs st'. start_runs discover deviceSpecs st bs st' \<and> list_all id bs \<and> sg_ready st'"
  using assms
proof (induction "start_steps_left st" arbitrary: st rule: less_induct)
  case less
  show ?case
  proof (cases "sg_ready st")
    case True
    then show ?thesis using start_runs.begin_run by force
  next
    case False
    then obtain st1 where st1: "start_step discover deviceSpecs True st st1" using start_step_exists by blast
    have "hosts_ok devices st1" by (rule hosts_ok_step [OF st1 less.prems])
    with less.hyps start_step_decreases [OF st1 hosts_okD(1) [OF less.prems]]
    obtain bs st' where "start_runs discover deviceSpecs st1 bs st'" "list_all id bs" "sg_ready st'" by blast
    moreover from this start_runs_append [OF _ start_runs.step [OF start_runs.begin_run st1], of bs st']
    have "start_runs discover deviceSpecs st (True # bs) st'" by simp
    ultimately show ?thesis by (intro exI [of _ "True # bs"] exI [of _ st']) simp
  qed
qed

section \<open>Lemmas: the discovery of the code\<close>

definition discovery ::
  "(string \<Rightarrow> (byte \<times> byte \<times> byte \<times> byte) option) \<Rightarrow> (string \<Rightarrow> string) option \<Rightarrow>
     's transport_ops \<Rightarrow> 's transport_ops \<Rightarrow> (string \<rightharpoonup> DeviceSpec) \<Rightarrow> bool \<Rightarrow> 's discovery" where
  "discovery v6 resolver tr probe deviceSpecs notificationsEnabled =
     (\<lambda>dev spec. discoverDeviceState v6 resolver tr probe dev spec deviceSpecs notificationsEnabled)"

lemma discovery_effect:
  assumes "discovery v6 resolver tr probe deviceSpecs notif dev spec0 (hosts, c, s) = ((eoj, metrics, spec), hosts', c', s')"
  shows "ca_eojByDev c' = (ca_eojByDev c)(deviceKey dev \<mapsto> eoj) \<and> same_class eoj (d_EOJ spec0)"
    "ca_specsByDev c' = (if metrics = [] then ca_specsByDev c else (ca_specsByDev c)(deviceKey dev \<mapsto> metrics))"
    "spec = spec0 \<or> (\<exists>cls. deviceSpecs cls = Some spec)"
proof -
  obtain e hosts1 s1 where r: "resolveEOJInstance probe (dv_IP dev) (d_EOJ spec0) (hosts, s) = (e, hosts1, s1)"
    by (metis surj_pair)
  obtain info s2 where i: "discover_info v6 resolver tr dev e s1 = (info, s2)" by (metis surj_pair)
  let ?spec = "vendor_spec deviceSpecs dev info spec0" and ?c1 = "SetDeviceEOJ dev e (UpdateInfo dev info c)"
  obtain ms s3 where m: "discover_readable tr dev e ?spec s2 = (ms, s3)" by (metis surj_pair)
  obtain c2 s4 where w: "discover_writable tr dev e (?c1, s3) = (c2, s4)" by (metis surj_pair)
  obtain c3 s5 where n: "discover_notify tr dev e notif (c2, s4) = (c3, s5)" by (metis surj_pair)
  let ?c4 = "SetDeviceLight dev (d_Light ?spec) (SetDeviceClimate dev (d_Climate ?spec) (SetDeviceSpecs dev ms c3))"
  have res: "eoj = e" "spec = ?spec" "metrics = ms" "c' = (if ms = [] then c3 else ?c4)"
    using assms unfolding discovery_def discoverDeviceState_def by (auto simp: r i m w n Let_def split: if_splits)
  have "ca_eojByDev c2 = ca_eojByDev ?c1" "ca_specsByDev c2 = ca_specsByDev ?c1"
    using w by (auto simp: discover_writable_def SetWritableEPCs_def split: prod.splits sum.splits if_splits)
  moreover have "ca_eojByDev c3 = ca_eojByDev c2" "ca_specsByDev c3 = ca_specsByDev c2"
    using n by (auto simp: discover_notify_def SetNotificationEPCs_def split: prod.splits sum.splits if_splits)
  moreover have "ca_eojByDev ?c1 = (ca_eojByDev c)(deviceKey dev \<mapsto> e)" "ca_specsByDev ?c1 = ca_specsByDev c"
    by (simp_all add: SetDeviceEOJ_def UpdateInfo_def Let_def)
  moreover have "ca_eojByDev ?c4 = ca_eojByDev c3" "ca_specsByDev ?c4 = (ca_specsByDev c3)(deviceKey dev \<mapsto> ms)"
    by (simp_all add: SetDeviceLight_def SetDeviceClimate_def SetDeviceSpecs_def split: option.splits)
  ultimately show "ca_eojByDev c' = (ca_eojByDev c)(deviceKey dev \<mapsto> eoj) \<and> same_class eoj (d_EOJ spec0)"
    "ca_specsByDev c' = (if metrics = [] then ca_specsByDev c else (ca_specsByDev c)(deviceKey dev \<mapsto> metrics))"
    using resolve_class [OF r] by (simp_all add: res)
  show "spec = spec0 \<or> (\<exists>cls. deviceSpecs cls = Some spec)"
    by (auto simp: res(2) vendor_spec_def split: option.splits)
qed

interpretation code_discovery: host_discovery "discovery v6 resolver tr probe deviceSpecs notif" deviceSpecs
  for v6 resolver tr probe deviceSpecs notif
  by unfold_locales (rule discovery_effect, assumption)+

lemma scraper_for:
  assumes "m \<in> set metrics"
  shows "\<exists>sc \<in> set (scheduleDeviceScrapers dev eoj metrics spec k). sc_dev sc = dev \<and> sc_eoj sc = eoj \<and> m \<in> set (sc_metrics sc)"
proof -
  let ?scs = "scheduleDeviceScrapers dev eoj metrics spec k"
  have "metric_interval (device_interval dev spec) m \<in> set (map sc_interval ?scs)"
    unfolding scrapers_intervals using assms by (simp add: keys_by_interval)
  then obtain sc where sc: "sc \<in> set ?scs" "sc_interval sc = metric_interval (device_interval dev spec) m" by auto
  moreover have "sc_dev sc = dev" "sc_eoj sc = eoj" using sc(1) by (auto simp: scheduleDeviceScrapers_def Let_def)
  ultimately show ?thesis using scraper_of(1) [OF sc(1)] assms by auto
qed

lemma internal_keeps_context: "start_runs discover deviceSpecs st bs st' \<Longrightarrow> list_all id bs \<Longrightarrow> sg_cancelled st' = sg_cancelled st"
proof (induction rule: start_runs.induct)
  case (step st bs st' b st'')
  then have "start_step discover deviceSpecs True st' st''" "sg_cancelled st' = sg_cancelled st" by auto
  then show ?case by (auto elim: start_step.cases)
qed simp

section \<open>Properties\<close>

text \<open>C10: the poller gets ready. From every state that the start can be in, whatever the hosts answer, whatever
  other goroutines do and even if the program is being stopped: readiness is reported only once no
  host is still being discovered; while it is not reported the start has a step to make; it makes at
  most \<open>start_steps_left\<close> more steps; and it can go on by itself until readiness is reported.\<close>

theorem start_gets_ready:
  assumes "start_runs (discovery v6 resolver tr probe deviceSpecs notif) deviceSpecs (Start_poller deviceSpecs devices shared) bs st"
  defines "runs_on \<equiv> start_runs (discovery v6 resolver tr probe deviceSpecs notif) deviceSpecs st"
  shows "(sg_ready st \<longrightarrow> sg_hosts st = [])
    \<and> (sg_ready st \<longleftrightarrow> (\<nexists>st'. start_step (discovery v6 resolver tr probe deviceSpecs notif) deviceSpecs True st st'))
    \<and> (\<forall>bs' st'. runs_on bs' st' \<longrightarrow> length (filter id bs') \<le> start_steps_left st)
    \<and> (\<exists>bs' st'. runs_on bs' st' \<and> list_all id bs' \<and> sg_ready st')"
proof -
  let ?discover = "discovery v6 resolver tr probe deviceSpecs notif"
  have ok: "hosts_ok devices st" by (rule hosts_ok_runs [OF assms(1) Start_poller_hosts_ok])
  have "\<nexists>st'. start_step ?discover deviceSpecs True st st'" if "sg_ready st"
    using hosts_okD(4) [OF ok that] that by (auto elim: start_step.cases)
  then have "sg_ready st \<longleftrightarrow> (\<nexists>st'. start_step ?discover deviceSpecs True st st')"
    using start_step_exists [of st ?discover deviceSpecs] by blast
  moreover have "length (filter id bs') \<le> start_steps_left st" if "runs_on bs' st'" for bs' st'
    using start_runs_bound [OF that [unfolded runs_on_def] ok] by simp
  ultimately show ?thesis
    using hosts_okD(4) [OF ok] start_can_finish [OF ok] unfolding runs_on_def by blast
qed

theorem start_gets_ready_witness:
  "\<exists>bs st. start_runs (discovery (\<lambda>_. None) None refusing refusing [''ac'' \<mapsto> sample_spec] False) [''ac'' \<mapsto> sample_spec]
      (Start_poller [''ac'' \<mapsto> sample_spec] [sample_device] (Map.empty, NewCache, 0)) bs st \<and> list_all id bs \<and> sg_ready st"
  using start_gets_ready [OF start_runs.begin_run] by blast

end
