(* ===== verification/Lifecycle.thy ===== *)
theory Lifecycle
  imports Startup Commander Loader PublishQueue
begin

text \<open>
  The life of the program: what \<open>main\<close> in \<open>cmd/echonetgo/main.go\<close> does before it starts anything, the
  commander's \<open>Run\<close> (\<open>internal/mqtt/commander.go\<close>), and the end - \<open>handleShutdown\<close> with the publisher's
  \<open>Disconnect\<close> (\<open>internal/mqtt/publisher.go\<close>) - as a step relation that is interleaved with the steps of
  the publish queue. The broker, the HTTP server and the signals are only the steps that they make
  possible: a signal may come at any time, and waiting for the worker may time out. The lemmas show
  that the end is reached in order and that nothing pending is lost on the way, unless the wait times
  out.
\<close>

section \<open>The start\<close>

datatype start_error = ConfigFailed config_error | SpecsFailed spec_error

text \<open>\<open>log.Fatalf\<close> ends the program: nothing has been started then.\<close>

definition main_start ::
  "string \<Rightarrow> config_error + Config \<Rightarrow> (string \<Rightarrow> spec_error + (string, DeviceSpec) gomap) \<Rightarrow>
     start_error + program \<times> Config \<times> (string, DeviceSpec) gomap" where
  "main_start version config load_specs =
     (case config of
        Inl err \<Rightarrow> Inl (ConfigFailed err)
      | Inr cfg \<Rightarrow>
          (case load_specs (cf_SpecsDir cfg) of
             Inl err \<Rightarrow> Inl (SpecsFailed err)
           | Inr deviceSpecs \<Rightarrow> Inr (start_program version cfg, cfg, deviceSpecs)))"

section \<open>The commander\<close>

record Commander =
  cm_devices :: "Device list"
  cm_topicPrefix :: string
  cm_hasReconciler :: bool

definition NewCommander :: "Config \<Rightarrow> string \<Rightarrow> Commander" where
  "NewCommander cfg topicPrefix = \<lparr>cm_devices = cf_Devices cfg, cm_topicPrefix = topicPrefix, cm_hasReconciler = False\<rparr>"

definition SetReconciler :: "Commander \<Rightarrow> Commander" where
  "SetReconciler c = c\<lparr>cm_hasReconciler := True\<rparr>"

definition setupCommander :: "Config \<Rightarrow> CapabilityReconciler option \<Rightarrow> Commander \<times> CapabilityReconciler option" where
  "setupCommander cfg reconciler =
     (let commander = NewCommander cfg (q_TopicPrefix (cf_MQTT cfg))
      in (if reconciler \<noteq> None then SetReconciler commander else commander, map_option reconciler_SetClient reconciler))"

text \<open>\<open>Run\<close>: the topics that the broker has accepted, and whether \<open>readyFunc\<close> was called. Each connection
  subscribes; the end of the context unsubscribes.\<close>

record commander_run =
  cr_subscribed :: "string list"
  cr_ready :: bool

definition Run_prefix :: "Commander \<Rightarrow> string" where
  "Run_prefix c = command_prefix (cm_topicPrefix c)"

definition on_connected :: "(string \<Rightarrow> bool) \<Rightarrow> string \<Rightarrow> commander_run \<Rightarrow> commander_run" where
  "on_connected granted topicPrefix r =
     r\<lparr>cr_subscribed := cr_subscribed r @ filter granted (subscriptions topicPrefix), cr_ready := True\<rparr>"

definition on_context_done :: "string \<Rightarrow> commander_run \<Rightarrow> commander_run" where
  "on_context_done topicPrefix r =
     r\<lparr>cr_subscribed := filter (\<lambda>topic. topic \<notin> set
        ([topicPrefix @ ''/+/climate/#'', topicPrefix @ ''/+/light/#'']
         @ map (\<lambda>entityType. topicPrefix @ ''/+/'' @ entityType @ ''/+/set'') [''switch'', ''select'', ''number'']))
        (cr_subscribed r)\<rparr>"

section \<open>The end\<close>

text \<open>How far \<open>handleShutdown\<close> and, with a publisher, \<open>Disconnect\<close> have come.\<close>

datatype progress = Serving | Stopping | Cancelled | Closing | Flushed | Offline | Disconnected | HTTPDown | Exited

record gateway =
  gw_queue :: queue
  gw_progress :: progress

datatype main_event = Queue event | Advance progress | TimedOut

text \<open>\<open>Disconnect\<close>: it closes \<open>stop\<close>, waits for the worker or for the time to run out, reports the bridge
  offline and leaves the broker.\<close>

inductive disconnect_step :: "gateway \<Rightarrow> main_event \<Rightarrow> gateway \<Rightarrow> bool" where
  close_stop: "gw_progress g = Cancelled \<Longrightarrow> queue_step (gw_queue g) Close q \<Longrightarrow>
     disconnect_step g (Advance Closing) \<lparr>gw_queue = q, gw_progress = Closing\<rparr>"
| worker_done: "gw_progress g = Closing \<Longrightarrow> pq_worker (gw_queue g) = Finished \<Longrightarrow>
     disconnect_step g (Advance Flushed) (g\<lparr>gw_progress := Flushed\<rparr>)"
| timed_out: "gw_progress g = Closing \<Longrightarrow> disconnect_step g TimedOut (g\<lparr>gw_progress := Flushed\<rparr>)"
| publish_offline: "gw_progress g = Flushed \<Longrightarrow> disconnect_step g (Advance Offline) (g\<lparr>gw_progress := Offline\<rparr>)"
| leave_broker: "gw_progress g = Offline \<Longrightarrow> disconnect_step g (Advance Disconnected) (g\<lparr>gw_progress := Disconnected\<rparr>)"

text \<open>\<open>handleShutdown\<close>, in between the steps of the queue. Without a publisher there is neither a queue nor
  anything to disconnect.\<close>

inductive main_step :: "bool \<Rightarrow> gateway \<Rightarrow> main_event \<Rightarrow> gateway \<Rightarrow> bool" for publisher where
  queue: "publisher \<Longrightarrow> gw_progress g \<noteq> Exited \<Longrightarrow> e \<noteq> Close \<Longrightarrow> queue_step (gw_queue g) e q \<Longrightarrow>
     main_step publisher g (Queue e) (g\<lparr>gw_queue := q\<rparr>)"
| stop: "gw_progress g = Serving \<Longrightarrow> main_step publisher g (Advance Stopping) (g\<lparr>gw_progress := Stopping\<rparr>)"
| cancel: "gw_progress g = Stopping \<Longrightarrow> main_step publisher g (Advance Cancelled) (g\<lparr>gw_progress := Cancelled\<rparr>)"
| disconnecting: "publisher \<Longrightarrow> disconnect_step g e g' \<Longrightarrow> main_step publisher g e g'"
| shutdown_http: "gw_progress g = (if publisher then Disconnected else Cancelled) \<Longrightarrow>
     main_step publisher g (Advance HTTPDown) (g\<lparr>gw_progress := HTTPDown\<rparr>)"
| exit: "gw_progress g = HTTPDown \<Longrightarrow> main_step publisher g (Advance Exited) (g\<lparr>gw_progress := Exited\<rparr>)"

inductive main_runs :: "bool \<Rightarrow> gateway \<Rightarrow> main_event list \<Rightarrow> gateway \<Rightarrow> bool" for publisher where
  begin_run: "main_runs publisher g [] g"
| step: "main_runs publisher g evs g' \<Longrightarrow> main_step publisher g' e g'' \<Longrightarrow> main_runs publisher g (evs @ [e]) g''"

definition serving :: gateway where
  "serving = \<lparr>gw_queue = new_queue, gw_progress = Serving\<rparr>"

text \<open>The steps of the shutdown in an execution, and those of the queue, with the close of \<open>stop\<close>.\<close>

fun advance_of :: "main_event \<Rightarrow> progress list" where
  "advance_of (Queue e) = []"
| "advance_of (Advance p) = [p]"
| "advance_of TimedOut = [Flushed]"

fun queue_events_of :: "main_event \<Rightarrow> event list" where
  "queue_events_of (Queue e) = [e]"
| "queue_events_of (Advance p) = (if p = Closing then [Close] else [])"
| "queue_events_of TimedOut = []"

definition advances :: "main_event list \<Rightarrow> progress list" where
  "advances evs = concat (map advance_of evs)"

definition queue_events :: "main_event list \<Rightarrow> event list" where
  "queue_events evs = concat (map queue_events_of evs)"

definition shutdown_plan :: "bool \<Rightarrow> progress list" where
  "shutdown_plan publisher =
     [Stopping, Cancelled] @ (if publisher then [Closing, Flushed, Offline, Disconnected] else []) @ [HTTPDown, Exited]"

section \<open>Lemmas: the start and the commander\<close>

lemma main_start_Inr:
  assumes "main_start version config load_specs = Inr (pg, cfg, deviceSpecs)"
  shows "config = Inr cfg" "load_specs (cf_SpecsDir cfg) = Inr deviceSpecs" "pg = start_program version cfg"
  using assms by (auto simp: main_start_def split: sum.splits)

text \<open>Every topic that is subscribed is unsubscribed; readiness does not depend on the subscriptions.\<close>

lemma context_done_unsubscribes:
  "set (cr_subscribed r) \<subseteq> set (subscriptions topicPrefix) \<Longrightarrow> cr_subscribed (on_context_done topicPrefix r) = []"
  unfolding on_context_done_def subscriptions_def [symmetric] by (simp add: filter_empty_conv subset_iff)

lemma on_connected_subset:
  "set (cr_subscribed r) \<subseteq> set (subscriptions topicPrefix) \<Longrightarrow>
     set (cr_subscribed (on_connected granted topicPrefix r)) \<subseteq> set (subscriptions topicPrefix)"
  by (auto simp: on_connected_def)

lemma ready_without_subscription:
  "let r = on_connected (\<lambda>_. False) topicPrefix \<lparr>cr_subscribed = [], cr_ready = False\<rparr> in cr_ready r \<and> cr_subscribed r = []"
  by (simp add: on_connected_def)

section \<open>Lemmas: the queue at the end\<close>

lemma stopped_by_close: "runs q evs q' \<Longrightarrow> \<not> pq_stop q \<Longrightarrow> pq_stop q' \<Longrightarrow> Close \<in> set evs"
proof (induction rule: runs.induct)
  case (step q evs q' e q'')
  then show ?case by (auto elim!: queue_stepE)
qed simp

text \<open>An exited worker has exited at a moment when nothing was pending; later it takes nothing.\<close>

lemma finished_at:
  "runs q evs q' \<Longrightarrow> q = new_queue \<Longrightarrow> pq_worker q' = Finished \<Longrightarrow>
     \<exists>evs1 evs2 q1. evs = evs1 @ evs2 \<and> runs new_queue evs1 q1 \<and> pq_pending q1 = Map.empty \<and> Close \<in> set evs1
       \<and> concat (map taken_of evs2) = []"
proof (induction rule: runs.induct)
  case (start q)
  then show ?case by (simp add: new_queue_def)
next
  case (step q evs q' e q'')
  show ?case
  proof (cases "pq_worker q' = Finished")
    case True
    with step obtain evs1 evs2 q1 where "evs = evs1 @ evs2" "runs new_queue evs1 q1" "pq_pending q1 = Map.empty"
      "Close \<in> set evs1" "concat (map taken_of evs2) = []" by blast
    moreover have "taken_of e = []" using step.hyps(2) True by (auto elim: queue_stepE)
    ultimately show ?thesis by (intro exI [of _ evs1] exI [of _ "evs2 @ [e]"] exI [of _ q1]) simp
  next
    case False
    with step.hyps(2) step.prems(2) have "pq_worker q' = Draining True" "pq_pending q'' = Map.empty"
      by (auto elim!: queue_stepE split: if_splits)
    moreover have "stop_ok q'" using runs_stop_ok [OF step.hyps(1)] by (simp add: step.prems(1) stop_ok_def new_queue_def)
    ultimately have "pq_stop q'" "pq_pending q'' = Map.empty" by (simp_all add: stop_ok_def)
    with stopped_by_close [OF step.hyps(1)] have "Close \<in> set evs" by (simp add: step.prems(1) new_queue_def)
    moreover have "runs new_queue (evs @ [e]) q''" using runs.step [OF step.hyps] by (simp add: step.prems(1))
    ultimately show ?thesis using \<open>pq_pending q'' = Map.empty\<close>
      by (intro exI [of _ "evs @ [e]"] exI [of _ "[]"] exI [of _ q'']) simp
  qed
qed


section \<open>Lemmas: the order of the end\<close>

lemma advances_append [simp]: "advances (evs @ [e]) = advances evs @ advance_of e" "advances [] = []"
  by (simp_all add: advances_def)

lemma queue_events_append [simp]: "queue_events (evs @ [e]) = queue_events evs @ queue_events_of e" "queue_events [] = []"
  by (simp_all add: queue_events_def)

text \<open>The steps that were made, by how far the shutdown has come.\<close>

fun advanced :: "bool \<Rightarrow> progress \<Rightarrow> progress list" where
  "advanced publisher Serving = []"
| "advanced publisher Stopping = [Stopping]"
| "advanced publisher Cancelled = [Stopping, Cancelled]"
| "advanced publisher Closing = [Stopping, Cancelled, Closing]"
| "advanced publisher Flushed = [Stopping, Cancelled, Closing, Flushed]"
| "advanced publisher Offline = [Stopping, Cancelled, Closing, Flushed, Offline]"
| "advanced publisher Disconnected = [Stopping, Cancelled, Closing, Flushed, Offline, Disconnected]"
| "advanced publisher HTTPDown = butlast (shutdown_plan publisher)"
| "advanced publisher Exited = shutdown_plan publisher"

definition after_close :: "progress \<Rightarrow> bool" where
  "after_close p \<longleftrightarrow> p \<in> {Closing, Flushed, Offline, Disconnected}"

definition gateway_ok :: "bool \<Rightarrow> main_event list \<Rightarrow> gateway \<Rightarrow> bool" where
  "gateway_ok publisher evs g \<longleftrightarrow>
     advances evs = advanced publisher (gw_progress g) \<and> runs new_queue (queue_events evs) (gw_queue g)
     \<and> (after_close (gw_progress g) \<longrightarrow> publisher)
     \<and> (gw_progress g \<in> {Flushed, Offline, Disconnected} \<and> TimedOut \<notin> set evs \<longrightarrow> pq_worker (gw_queue g) = Finished)"

lemma finished_stays: "queue_step q e q' \<Longrightarrow> pq_worker q = Finished \<Longrightarrow> pq_worker q' = Finished"
  by (induction rule: queue_step.induct) auto

lemma gateway_ok_step:
  assumes "main_step publisher g e g'" "gateway_ok publisher evs g"
  shows "gateway_ok publisher (evs @ [e]) g'"
  using assms(1)
proof cases
  case (queue e' q)
  with assms(2) show ?thesis by (auto simp: gateway_ok_def intro: runs.step finished_stays)
next
  case disconnecting
  from disconnecting(2) show ?thesis
  proof cases
    case (close_stop q)
    with assms(2) disconnecting(1) show ?thesis by (auto simp: gateway_ok_def after_close_def intro: runs.step)
  qed (use assms(2) disconnecting(1) in \<open>auto simp: gateway_ok_def after_close_def\<close>)
next
  case shutdown_http
  with assms(2) show ?thesis by (auto simp: gateway_ok_def after_close_def shutdown_plan_def split: if_splits)
qed (use assms(2) in \<open>auto simp: gateway_ok_def after_close_def shutdown_plan_def\<close>)

lemma main_runs_ok: "main_runs publisher g evs g' \<Longrightarrow> g = serving \<Longrightarrow> gateway_ok publisher evs g'"
proof (induction rule: main_runs.induct)
  case (begin_run g)
  then show ?case by (simp add: gateway_ok_def serving_def after_close_def runs.start)
qed (auto intro: gateway_ok_step)

lemma main_runs_split: "main_runs publisher g evs g' \<Longrightarrow> evs = as @ e # bs \<Longrightarrow>
    \<exists>g1 g2. main_runs publisher g as g1 \<and> main_step publisher g1 e g2"
proof (induction arbitrary: bs rule: main_runs.induct)
  case (step g evs g' e' g'')
  then show ?case by (cases bs rule: rev_cases) auto
qed simp

text \<open>Once a signal has come, the program can go on to its end by itself.\<close>

fun next_progress :: "bool \<Rightarrow> progress \<Rightarrow> main_event" where
  "next_progress publisher Serving = Advance Stopping"
| "next_progress publisher Stopping = Advance Cancelled"
| "next_progress publisher Cancelled = Advance (if publisher then Closing else HTTPDown)"
| "next_progress publisher Closing = TimedOut"
| "next_progress publisher Flushed = Advance Offline"
| "next_progress publisher Offline = Advance Disconnected"
| "next_progress publisher Disconnected = Advance HTTPDown"
| "next_progress publisher HTTPDown = Advance Exited"
| "next_progress publisher Exited = TimedOut"

fun steps_to_exit :: "progress \<Rightarrow> nat" where
  "steps_to_exit Serving = 8" | "steps_to_exit Stopping = 7" | "steps_to_exit Cancelled = 6"
| "steps_to_exit Closing = 5" | "steps_to_exit Flushed = 4" | "steps_to_exit Offline = 3"
| "steps_to_exit Disconnected = 2" | "steps_to_exit HTTPDown = 1" | "steps_to_exit Exited = 0"

definition not_closed_early :: "gateway \<Rightarrow> bool" where
  "not_closed_early g \<longleftrightarrow> (gw_progress g \<in> {Serving, Stopping, Cancelled} \<longrightarrow> \<not> pq_stop (gw_queue g))"

lemma queue_keeps_stop: "queue_step q e q' \<Longrightarrow> e \<noteq> Close \<Longrightarrow> pq_stop q' = pq_stop q"
  by (induction rule: queue_step.induct) auto

lemma not_closed_early_step: "main_step publisher g e g' \<Longrightarrow> not_closed_early g \<Longrightarrow> not_closed_early g'"
  by (induction rule: main_step.induct) (auto simp: not_closed_early_def dest: queue_keeps_stop elim: disconnect_step.cases)

lemma main_runs_not_closed: "main_runs publisher g evs g' \<Longrightarrow> not_closed_early g \<Longrightarrow> not_closed_early g'"
  by (induction rule: main_runs.induct) (auto intro: not_closed_early_step)


lemma next_step:
  assumes "gw_progress g \<noteq> Exited" "not_closed_early g" "after_close (gw_progress g) \<longrightarrow> publisher"
  shows "\<exists>g'. main_step publisher g (next_progress publisher (gw_progress g)) g'
    \<and> steps_to_exit (gw_progress g') < steps_to_exit (gw_progress g) \<and> (after_close (gw_progress g') \<longrightarrow> publisher)"
proof (cases "gw_progress g")
  case Cancelled
  show ?thesis
  proof (cases publisher)
    case True
    have "\<not> pq_stop (gw_queue g)" using assms(2) Cancelled by (simp add: not_closed_early_def)
    from main_step.disconnecting [OF True disconnect_step.close_stop [OF Cancelled queue_step.close [OF this]]] show ?thesis
      using Cancelled True by (intro exI conjI) auto
  next
    case False
    with Cancelled show ?thesis by (auto simp: after_close_def intro!: exI main_step.shutdown_http)
  qed
next
  case Disconnected
  with assms(3) have "publisher" by (simp add: after_close_def)
  with Disconnected show ?thesis by (auto intro!: exI main_step.shutdown_http)
qed (use assms(1,3) in \<open>auto simp: after_close_def intro: main_step.intros main_step.disconnecting [OF _ disconnect_step.timed_out]
    main_step.disconnecting [OF _ disconnect_step.publish_offline] main_step.disconnecting [OF _ disconnect_step.leave_broker]\<close>)

lemma main_runs_append:
  "main_runs publisher g' evs' g'' \<Longrightarrow> main_runs publisher g evs g' \<Longrightarrow> main_runs publisher g (evs @ evs') g''"
proof (induction rule: main_runs.induct)
  case (step g' evs' g1 e g2)
  then show ?case using main_runs.step [of publisher g "evs @ evs'"] by simp
qed simp

lemma runs_to_exit:
  "not_closed_early g \<Longrightarrow> after_close (gw_progress g) \<longrightarrow> publisher \<Longrightarrow>
     \<exists>evs g'. main_runs publisher g evs g' \<and> length evs \<le> steps_to_exit (gw_progress g)
       \<and> list_all (\<lambda>e. advance_of e \<noteq> []) evs \<and> gw_progress g' = Exited"
proof (induction "steps_to_exit (gw_progress g)" arbitrary: g rule: less_induct)
  case less
  show ?case
  proof (cases "gw_progress g = Exited")
    case True
    then show ?thesis using main_runs.begin_run by force
  next
    case False
    let ?e = "next_progress publisher (gw_progress g)"
    from next_step [OF False less.prems] obtain g1 where g1: "main_step publisher g ?e g1"
      "steps_to_exit (gw_progress g1) < steps_to_exit (gw_progress g)" "after_close (gw_progress g1) \<longrightarrow> publisher" by blast
    with less.hyps [OF g1(2) not_closed_early_step [OF g1(1) less.prems(1)]]
    obtain evs g' where run: "main_runs publisher g1 evs g'" "length evs \<le> steps_to_exit (gw_progress g1)"
      "list_all (\<lambda>e. advance_of e \<noteq> []) evs" "gw_progress g' = Exited" by blast
    have "main_runs publisher g (?e # evs) g'"
      using main_runs_append [OF run(1) main_runs.step [OF main_runs.begin_run g1(1)]] by simp
    moreover have "advance_of ?e \<noteq> []" by (cases "gw_progress g") auto
    ultimately show ?thesis using run g1(2) by (intro exI [of _ "?e # evs"] exI [of _ g']) simp
  qed
qed

lemma advanced_prefix: "after_close p \<longrightarrow> publisher \<Longrightarrow> \<exists>n. advanced publisher p = take n (shutdown_plan publisher)"
proof -
  assume "after_close p \<longrightarrow> publisher"
  then have "advanced publisher p = take (length (advanced publisher p)) (shutdown_plan publisher)"
    by (cases p) (auto simp: shutdown_plan_def after_close_def)
  then show ?thesis ..
qed

section \<open>An execution\<close>

text \<open>A state comes just before the signal, and is published while the program ends.\<close>

definition ending :: "queue \<Rightarrow> progress \<Rightarrow> gateway" where
  "ending q p = \<lparr>gw_queue = q, gw_progress = p\<rparr>"

abbreviation sample_end :: "main_event list" where
  "sample_end \<equiv> [Queue (Put (sample_state True)), Advance Stopping, Advance Cancelled, Advance Closing, Queue StopSeen,
     Queue (Take (sample_state True)), Queue PublishDone, Queue Empty, Advance Flushed]"

lemma main_runs_Cons: "main_step publisher g e g1 \<Longrightarrow> main_runs publisher g1 evs g' \<Longrightarrow> main_runs publisher g (e # evs) g'"
  using main_runs_append [OF _ main_runs.step [OF main_runs.begin_run], of publisher g1 evs g'] by simp

lemma sample_main_runs: "\<exists>g. main_runs True serving (sample_end @ Advance Offline # []) g"
proof -
  let ?q = "new_queue\<lparr>pq_pending := [''ac/1'' \<mapsto> sample_state True], pq_callers := 1\<rparr>"
  have name: "state_name (sample_state True) = ''ac/1''" by (simp add: sample_state_def)
  have steps:
    "main_step True serving (Queue (Put (sample_state True))) (ending ?q Serving)"
    "main_step True (ending ?q Serving) (Advance Stopping) (ending ?q Stopping)"
    "main_step True (ending ?q Stopping) (Advance Cancelled) (ending ?q Cancelled)"
    "main_step True (ending ?q Cancelled) (Advance Closing) (ending (?q\<lparr>pq_stop := True\<rparr>) Closing)"
    "main_step True (ending (?q\<lparr>pq_stop := True\<rparr>) Closing) (Queue StopSeen)
       (ending (?q\<lparr>pq_stop := True, pq_worker := Draining True\<rparr>) Closing)"
    "main_step True (ending (?q\<lparr>pq_stop := True, pq_worker := Draining True\<rparr>) Closing) (Queue (Take (sample_state True)))
       (ending (?q\<lparr>pq_stop := True, pq_worker := Publishing True, pq_pending := Map.empty\<rparr>) Closing)"
    "main_step True (ending (?q\<lparr>pq_stop := True, pq_worker := Publishing True, pq_pending := Map.empty\<rparr>) Closing) (Queue PublishDone)
       (ending (?q\<lparr>pq_stop := True, pq_worker := Draining True, pq_pending := Map.empty\<rparr>) Closing)"
    "main_step True (ending (?q\<lparr>pq_stop := True, pq_worker := Draining True, pq_pending := Map.empty\<rparr>) Closing) (Queue Empty)
       (ending (?q\<lparr>pq_stop := True, pq_worker := Finished, pq_pending := Map.empty\<rparr>) Closing)"
    "main_step True (ending (?q\<lparr>pq_stop := True, pq_worker := Finished, pq_pending := Map.empty\<rparr>) Closing) (Advance Flushed)
       (ending (?q\<lparr>pq_stop := True, pq_worker := Finished, pq_pending := Map.empty\<rparr>) Flushed)"
    "main_step True (ending (?q\<lparr>pq_stop := True, pq_worker := Finished, pq_pending := Map.empty\<rparr>) Flushed) (Advance Offline)
       (ending (?q\<lparr>pq_stop := True, pq_worker := Finished, pq_pending := Map.empty\<rparr>) Offline)"
    by (auto simp: main_step.simps disconnect_step.simps queue_step_simps ending_def serving_def new_queue_def name)
  show ?thesis
    using steps(1-10) main_runs.begin_run by (auto intro!: exI main_runs_Cons)
qed

section \<open>Properties\<close>

text \<open>C8: nothing that was enqueued before the shutdown closed the queue is lost. When the bridge is reported
  offline, and the wait for the worker did not time out, the worker has exited, at a moment when, for
  every device, the last state published was the last one enqueued; what it published is exactly
  what it had published then, and states that came later are never published.\<close>

theorem shutdown_flushes:
  assumes "main_runs publisher serving (before @ Advance Offline # after) g" "TimedOut \<notin> set before"
  shows "\<exists>evs1 evs2. queue_events before = evs1 @ evs2 \<and> Close \<in> set evs1
    \<and> (\<forall>name. latest (published name evs1) = latest (enqueued name evs1)
         \<and> published name (queue_events before) = published name evs1)"
proof -
  obtain g1 g2 where g1: "main_runs publisher serving before g1" "main_step publisher g1 (Advance Offline) g2"
    using main_runs_split [OF assms(1) refl] by blast
  from g1(2) have "gw_progress g1 = Flushed" by (auto elim!: main_step.cases disconnect_step.cases)
  with main_runs_ok [OF g1(1) refl] assms(2)
  have "runs new_queue (queue_events before) (gw_queue g1)" "pq_worker (gw_queue g1) = Finished"
    by (simp_all add: gateway_ok_def)
  from finished_at [OF this(1) refl this(2)] obtain evs1 evs2 q1
    where q: "queue_events before = evs1 @ evs2" "runs new_queue evs1 q1" "pq_pending q1 = Map.empty" "Close \<in> set evs1"
      "concat (map taken_of evs2) = []" by blast
  have "latest (published name evs1) = latest (enqueued name evs1)" for name
    using runs_history [OF q(2) refl, of name] q(3) by (simp add: history_def)
  moreover have "published name (queue_events before) = published name evs1" for name
    using q(1,5) by (simp add: published_def)
  ultimately show ?thesis using q(1,4) by blast
qed

theorem shutdown_flushes_witness:
  "\<exists>evs1 evs2. queue_events sample_end = evs1 @ evs2 \<and> Close \<in> set evs1
    \<and> latest (published ''ac/1'' evs1) = latest (enqueued ''ac/1'' evs1)"
proof -
  obtain g where "main_runs True serving (sample_end @ Advance Offline # []) g" using sample_main_runs by blast
  from shutdown_flushes [OF this] show ?thesis by auto
qed

text \<open>C9: the shutdown goes in order and ends. Whatever the queue and its callers do in between, the steps of
  the shutdown are made in the order of the plan - the context is cancelled before the queue is
  closed, the worker's exit or the end of the wait comes before the bridge is reported offline, the
  broker is left before the HTTP server goes down - and from every state the program can go on to its
  exit in at most eight steps of its own, even if the worker never finishes.\<close>

theorem shutdown_in_order:
  assumes "main_runs publisher serving evs g"
  shows "(\<exists>n. advances evs = take n (shutdown_plan publisher))
    \<and> (\<exists>evs' g'. main_runs publisher g evs' g' \<and> length evs' \<le> 8 \<and> list_all (\<lambda>e. advance_of e \<noteq> []) evs'
         \<and> gw_progress g' = Exited)"
proof -
  have ok: "gateway_ok publisher evs g" by (rule main_runs_ok [OF assms refl])
  then have p: "after_close (gw_progress g) \<longrightarrow> publisher" by (simp add: gateway_ok_def)
  have "not_closed_early g" by (rule main_runs_not_closed [OF assms]) (simp add: not_closed_early_def serving_def new_queue_def)
  from runs_to_exit [OF this p] obtain evs' g' where "main_runs publisher g evs' g'" "length evs' \<le> steps_to_exit (gw_progress g)"
    "list_all (\<lambda>e. advance_of e \<noteq> []) evs'" "gw_progress g' = Exited" by blast
  moreover have "steps_to_exit (gw_progress g) \<le> 8" by (cases "gw_progress g") simp_all
  ultimately show ?thesis using ok advanced_prefix [OF p] by (fastforce simp: gateway_ok_def)
qed

theorem shutdown_in_order_witness:
  "\<exists>evs g. main_runs True serving evs g \<and> length evs \<le> 8 \<and> gw_progress g = Exited"
  using shutdown_in_order [OF main_runs.begin_run] by blast

end
