(* ===== verification/Spec2Isabelle.thy ===== *)
theory Spec2Isabelle
  imports Client Notification Config Cache Reconciler Scheduler Loader Commander Publisher PublishQueue Collector Api Startup Logging Multicast Connection Polling Lifecycle
begin

text \<open>
  EchonetGO is a gateway between ECHONET Lite devices on the local network and two readers: an MQTT
  broker, from which Home Assistant shows and controls the devices, and Prometheus. It asks devices for
  their properties over UDP port 3610, takes what they push, keeps the decoded values in a cache,
  publishes every change, and turns MQTT commands into SET requests. This development models the Go code
  under \<open>src/\<close>, component by component; every definition carries the name of the function or type it
  translates, or is one of the parts that a long function was split into.

  \<^bold>\<open>How the parts interact.\<close> The configuration names the devices and the specification loader gives the
  metrics of each device class. Per host the scheduler finds the object code and the property maps of
  each device, stores them in the cache and starts one scraper per interval; a scrape asks the client,
  the client splits and repeats requests over the transport, and the decoded values go into the cache.
  The transport's shared receiver gives frames nobody waits for to the notification handler, whose
  callback merges pushed values into the cache. Each change of the cache hands a snapshot of the device
  to the publisher's queue, whose worker publishes discovery and state; the collector reads the cache on
  demand. The commander turns command messages into SET requests and reads the result back into the
  cache. The reconciler fetches property maps and identities that are still missing.

  \<^bold>\<open>The theories.\<close>
  \<^item> Shared: \<open>Prelude\<close> (types, maps, 64-bit integers, trimming), \<open>GoText\<close> (split, join, numbers, UTF-8),
    \<open>GoFloat\<close> (\<open>float64\<close> as a datatype with exact rational values, signed zeros, infinities and NaN;
    rounding to nearest, ties to even), \<open>GoTime\<close> (durations), \<open>GoNumber\<close> (\<open>strconv.ParseFloat\<close> and
    \<open>FormatFloat\<close>, case conversion). They model the standard library where the code uses it.
  \<^item> \<open>Protocol\<close>: \<open>internal/echonet/protocol.go\<close> - frames, property maps, identity data. Round trips of
    builders and parsers, and what the parser does with a truncated frame.
  \<^item> \<open>Encoder\<close>: \<open>encoder.go\<close> - decoding property data to a number and back, clamping included. Decoding is
    equal to the plain reading of a big-endian integer, encoding inverts it and goes to the nearest number
    the metric can hold.
  \<^item> \<open>Manufacturers\<close>: \<open>manufacturers.go\<close>, the table as data.
  \<^item> \<open>Transport\<close>: \<open>transport.go\<close> - one request with its retries and the fallback to another port, the
    shared receiver, the waiters and their expiry, the lock of a host; and a step relation in which any
    number of requests interleave. A response matches its request, hosts are exclusive, requests can end.
  \<^item> \<open>Client\<close>: \<open>client.go\<close> - the requests, the adaptive splitting of a GET, the property maps, decoding to
    metrics. The locale \<open>transport_service\<close> is its interface to the transport.
  \<^item> \<open>Notification\<close>: \<open>notification.go\<close>; \<open>Specs\<close>, \<open>SpecTables\<close>, \<open>Loader\<close>: \<open>internal/specs\<close> - the types, the
    tables of the super class and of the property names, and the loader with all its checks.
  \<^item> \<open>Config\<close>: \<open>internal/config/config.go\<close> - defaults, environment, device file, sanitising, validation.
  \<^item> \<open>Cache\<close>, \<open>Reconciler\<close>, \<open>Scheduler\<close>: \<open>internal/poller\<close> - the cache is a record of maps keyed by device,
    its methods are functions on it; the skip rule for pushed properties refines a specification over
    the history of events, and a sequence of any writes keeps devices apart (the locale \<open>device_attribute\<close>
    states it for each attribute).
  \<^item> \<open>Commander\<close>: \<open>internal/mqtt/commander.go\<close> - the topics, the guard of writable properties, every
    handler, the read-back; a goroutine it starts is a task in the state. The locale \<open>set_service\<close>
    states what a handler may do to the transport, and an interpretation on a transport that records
    its requests gives the safety of commands.
  \<^item> \<open>Discovery\<close>, \<open>Publisher\<close>: \<open>discovery.go\<close>, \<open>publisher.go\<close> - the messages in the order they are handed
    to the MQTT client. The lemmas follow what the broker retains, and connect the advertised controls
    with the commander.
  \<^item> \<open>PublishQueue\<close>: \<open>EnqueueDeviceState\<close>, \<open>publishWorker\<close>, \<open>drainPending\<close> of \<open>publisher.go\<close> as an inductive
    step relation over interleavings: order, coalescing, no lost wake-up, termination. \<open>Connection\<close>: the
    callbacks of a connection, none of which misses a reconnect.
  \<^item> \<open>Polling\<close>: \<open>Scheduler.Start\<close>, whose hosts are discovered in parallel, as a step relation that marks which
    steps are the scheduler's own: it gets ready whatever the other goroutines do, and by then every
    configured device is polled. The locale \<open>host_discovery\<close> states what it relies on of a discovery; it is
    interpreted on \<open>discoverDeviceState\<close>. \<open>Multicast\<close>: the groups that the transport joins, and its closing.
  \<^item> \<open>Lifecycle\<close>: \<open>main\<close> before it starts anything, the commander's \<open>Run\<close>, and \<open>handleShutdown\<close> with
    \<open>Disconnect\<close> interleaved with the publish queue: the shutdown goes in order, ends, and flushes.
  \<^item> \<open>Collector\<close>: \<open>internal/metrics/collector.go\<close>; \<open>Api\<close>: \<open>internal/api\<close>; \<open>Logging\<close>:
    \<open>internal/logging/logger.go\<close>; \<open>Startup\<close>: the wiring in \<open>cmd/echonetgo/main.go\<close>.
  \<^item> This theory: the properties that span components - from a pushed datagram to the two readers, and from a
    specification file to the scrapers that keep polling.

  \<^bold>\<open>Conventions.\<close> A Go map that is ranged over is an association list, so a theorem about it holds for every
  iteration order. Operations on shared state are functions of the state, one per critical section;
  where interleavings matter (requests on the transport, the publish queue, the callbacks of a connection,
  the start of the poller, the shutdown) there is a step relation and the theorems are about all its
  runs. In the start, one step is the whole discovery of one device. A goroutine that repeats something
  at a timer is a function of the list of what happens to it. Errors are values of a sum type. The clock, the network, sleeping
  and the cancellation of contexts are parameters or steps; \<open>oor\<close> is what converting a float outside the
  range of \<open>int64\<close> gives, \<open>log10f\<close> is \<open>math.Log10\<close>, \<open>title\<close> the title casing of \<open>golang.org/x/text\<close>; the
  YAML and JSON decoders, the file system and IPv6 addresses are parameters, too. Structures given to
  \<open>json.Marshal\<close> are modelled as values, as are the arguments given to the Prometheus library.

  \<^bold>\<open>Bounds.\<close> No fuel is used for the program's loops: the splitting of a GET recurses on halves of the list
  of codes to the depth the code allows, a verification makes the three attempts of the code, scans
  recurse on their input. The shortest decimal of a float is searched among at most 1074 digits after
  the point, which is enough because every finite \<open>float64\<close> is a multiple of \<open>2\<close> to the power \<open>-1074\<close>.

  \<^bold>\<open>What the theorems show.\<close> Encoders and parsers invert each other and clamp instead of wrapping; a response
  is only taken for the request it answers (up to the collision of transaction ids, which is shown);
  the client finds everything a device answers for single codes; the cache returns what was stored;
  scrapers cover exactly the metrics; property maps are only added; every loaded specification and
  configuration satisfies the invariants the rest relies on; commands set only writable properties of the
  device they name; advertised controls work and what they publish can be sent back; the queue loses no
  latest state, also when the program ends; what is collected was described and, under conditions that are
  stated, fulfils what the Prometheus library asks of labels; a pushed value reaches MQTT
  and Prometheus; the poller gets ready and then polls every metric that a configured device has.
  Some lemmas prove what looks like a defect of the code, for instance \<open>unknown_mode_turns_on\<close>,
  \<open>nested_prefix_ignored\<close>, \<open>invalid_payload_still_presets\<close>, \<open>discovery_not_renewed\<close>,
  \<open>suffixed_label_collides\<close>, \<open>clashing_label_key\<close>, \<open>raw_product_code\<close>, \<open>unsupported_map_stays_missing\<close> and \<open>ready_without_subscription\<close>.

  \<^bold>\<open>Not modelled.\<close> Opening a socket (\<open>openUDPConn\<close>) and the system call that joins a group, which are the
  operating system's; the options of the connection to the broker and its acknowledgements, whose
  failures are only log lines; the HTTP listener and the delivery of signals; \<open>singleflight\<close>, a package of
  its own, which joins concurrent cycles of the reconciler; panics, which every goroutine recovers; the
  texts of log lines.
\<close>

section \<open>A pushed value\<close>

text \<open>C1: a value that a device pushes reaches every reader. An INF datagram of a registered device makes the
  handler call back, the ingestion of the properties hands the publisher a state, and the metric's
  decoded value is in the state object that is published over MQTT and in the metrics that Prometheus
  collects from then on. It supposes at least one and at most 255 properties and a callback that is set;
  that the class's spec has the metric, that the names of its metrics and of the device's are distinct,
  and that the metric has no multiplier property; and that its name does not end in \<open>_str\<close>, which is the
  suffix of the labels in the state object.\<close>

theorem push_end_to_end:
  assumes "ip \<in> h_devices h" "h_hasCallback h" "ps \<noteq> []" "length ps < 256" "list_all prop_ok ps"
    and "FindDeviceByIPAndEOJ ip seoj devices c = Some dev" "GetDeviceSpecs dev c = Some ms"
    and "distinct (map m_Name ms)" "m \<in> set ms" "find_prop ps (m_EPC m) = Some edt"
    and "parseEDTWithReason oor log10f edt m = Inr v" "m_MultiplierEPC m = 0" "cache_ok c" "ca_onUpdate c"
    and "\<not> has_suffix (m_Name m) ''_str''"
    and "gomap_ok specs" "map_of specs (dv_Class dev) = Some (Some spec)" "distinct (map m_Name (d_Metrics spec))"
      "m \<in> set (d_Metrics spec)"
  shows "\<exists>c' st payload.
    handleFrame h conn \<lparr>u_From = Some \<lparr>a_IP = Some ip, a_Port = port\<rparr>, u_Data = frame_of tid seoj deoj esvINF ps\<rparr>
      = [Callback ip seoj ps]
    \<and> IngestNotification oor log10f now ip seoj ps devices c = (c', Some st) \<and> st_Device st = dev \<and> st_Success st
    \<and> publishState p dev (st_Metrics st) = publish_json (pub_topicPrefix p @ ''/'' @ dv_Name dev @ ''/state'') False (Object payload)
    \<and> map_of payload (m_Name m) = Some (AFloat v)
    \<and> const_metric (metric_desc (dv_Class dev) ([''device'', ''ip'', ''class''] @ collectExtraLabelKeys devices) m)
        (if m_Type m = ''counter'' then CounterValue else GaugeValue) v (labelValues (NewCollector devices specs) dev)
      \<in> set (Collect_metrics oor t c' (NewCollector devices specs))"
proof -
  obtain metrics where i: "IngestNotification oor log10f now ip seoj ps devices c
      = MergeMetrics dev metrics (RecordPush now dev (map p_EPC ps) c)" "gomap_ok metrics"
    and mv: "map_of metrics (m_Name m) = Some \<lparr>mv_Value = v, mv_Type = m_Type m, mv_EnumLabel = enum_label oor m v\<rparr>"
    using ingest_metric [OF assms(6-12)] by blast
  let ?c1 = "RecordPush now dev (map p_EPC ps) c"
  have c1: "cache_ok ?c1" "ca_onUpdate ?c1"
    using assms(13,14) by (auto simp: RecordPush_def Let_def cache_ok_def)
  obtain st where st: "snd (MergeMetrics dev metrics ?c1) = Some st" "st_Device st = dev" "st_Success st"
    "gomap_ok (st_Metrics st)" "map_of (st_Metrics st) (m_Name m)
      = Some \<lparr>mv_Value = v, mv_Type = m_Type m, mv_EnumLabel = enum_label oor m v\<rparr>"
    using merge_update [OF c1(1) i(2) mv c1(2)] by blast
  have dev: "dev \<in> set devices"
    using assms(6) by (auto simp: FindDeviceByIPAndEOJ_def find_Some_iff)
  obtain cur where cur: "snd (snd (snd (Get t dev (fst (MergeMetrics dev metrics ?c1))))) = Some cur"
    "map_of cur (m_Name m) = Some \<lparr>mv_Value = v, mv_Type = m_Type m, mv_EnumLabel = enum_label oor m v\<rparr>"
    using merge_then_get [OF c1(1) i(2) mv] by blast
  have suffix: "k @ ''_str'' \<noteq> m_Name m" for k
  proof -
    have "has_suffix (k @ ''_str'') ''_str''" by (simp add: has_suffix_def)
    with assms(15) show ?thesis by metis
  qed
  have "map_of (state_object (st_Metrics st)) (m_Name m) = Some (AFloat v)"
    using state_object_value [OF st(4,5)] suffix by simp
  moreover have "handleFrame h conn \<lparr>u_From = Some \<lparr>a_IP = Some ip, a_Port = port\<rparr>, u_Data = frame_of tid seoj deoj esvINF ps\<rparr>
      = [Callback ip seoj ps]"
    using handleFrame_frame_of [OF assms(1,4), of esvINF conn port tid seoj deoj] assms(2,3,5) by (simp add: list_all_iff)
  ultimately show ?thesis
    using i(1) st collected_value [OF dev assms(16-19) cur]
    by (intro exI [of _ "fst (MergeMetrics dev metrics ?c1)"] exI [of _ st] exI [of _ "state_object (st_Metrics st)"])
      (simp add: publishState_def prod_eq_iff)
qed


definition ac_spec :: DeviceSpec where
  "ac_spec = \<lparr>d_EOJ = (1, 0x30, 1), d_Description = [], d_DefaultScrapeInterval = minute, d_Metrics = [mode_metric],
     d_Climate = None, d_Light = None\<rparr>"

theorem push_end_to_end_witness:
  "\<exists>c' st payload.
    IngestNotification (\<lambda>_. 0) (\<lambda>_. NaN) 5 ''h'' (1, 0x30, 1) [\<lparr>p_EPC = 0xB0, p_PDC = 1, p_EDT = [0x42]\<rparr>] [ac_device]
        (SetOnUpdate True (ac_cache None)) = (c', Some st)
    \<and> publishState sample_publisher ac_device (st_Metrics st)
        = publish_json (pub_topicPrefix sample_publisher @ ''/'' @ dv_Name ac_device @ ''/state'') False (Object payload)
    \<and> map_of payload (m_Name mode_metric) = Some (AFloat (Fin 66))"
proof -
  let ?c = "SetOnUpdate True (ac_cache None)"
  let ?ps = "[\<lparr>p_EPC = 0xB0, p_PDC = 1, p_EDT = [0x42]\<rparr>] :: Property list"
  have "parseInteger [0x42] False = Inr 66" by (simp add: parseInteger_narrow)
  then have val: "parseEDTWithReason (\<lambda>_. 0) (\<lambda>_. NaN) [0x42] mode_metric = Inr (Fin 66)"
    by (simp add: parseEDTWithReason_def mode_metric_def zero_metric_def go_slice_def wrap64_def scale_value_def
        f_of_int_small f_mul_def f_less_def round64_numeral)
  have cache: "FindDeviceByIPAndEOJ ''h'' (1, 0x30, 1) [ac_device] ?c = Some ac_device"
    "GetDeviceSpecs ac_device ?c = Some [mode_metric]" "cache_ok ?c" "ca_onUpdate ?c"
    by (simp_all add: ac_cache_def cache_ok_def SetDeviceClimate_def SetDeviceSpecs_def SetDeviceEOJ_def NewCache_def GetDeviceSpecs_def
        SetOnUpdate_def FindDeviceByIPAndEOJ_def ac_device_def)
  have metric: "m_EPC mode_metric = 0xB0" "m_MultiplierEPC mode_metric = 0" "\<not> has_suffix (m_Name mode_metric) ''_str''"
    by (simp_all add: mode_metric_def zero_metric_def has_suffix_def)
  have handler: "''h'' \<in> h_devices (RegisterDevice ''h'' (NewNotificationHandler True))"
    "h_hasCallback (RegisterDevice ''h'' (NewNotificationHandler True))"
    by (simp_all add: RegisterDevice_def NewNotificationHandler_def)
  note e2e = push_end_to_end [OF handler, where ps = ?ps, OF _ _ _ cache(1,2) _ _ _ val metric(2) cache(3,4) metric(3),
      where p = sample_publisher and specs = "[(dv_Class ac_device, Some ac_spec)]" and spec = ac_spec]
  show ?thesis
    using e2e [where conn = None and port = 3610 and tid = 1 and deoj = controller and now = 5 and t = 5]
    by (simp add: metric(1) prop_ok_def find_prop_def gomap_ok_def ac_spec_def) blast
qed

section \<open>Polling\<close>

lemma program_cache_empty: "ca_specsByDev (pg_cache (start_program version cfg)) = Map.empty"
  by (simp add: start_program_def setupMQTT_def setupEchonetTransport_def Let_def NewCache_def SetOnUpdate_def SetForcePolling_def)

text \<open>C2: what is configured keeps being polled. When the program has started from valid files and the poller
  has reported that it is ready - whatever the devices have answered and other goroutines have done in
  between -, every configured device of a known class has an object of that class, and every metric
  that the cache has for it has a scraper: the scraper asks an object of the class, its interval is
  positive, so that its ticker does not panic, it starts within half of it, and it scrapes once for
  each timer that fires until the program ends. It supposes that the configured devices have distinct
  keys and that the program is not being stopped when the poller gets ready.\<close>

theorem loaded_devices_keep_polling:
  assumes "main_start version config (Load_specs oor log10f unmarshal readDir) = Inr (pg, cfg, specs)"
    and "start_runs (discovery v6 resolver tr probe (map_of specs) (cf_NotificationsEnabled cfg)) (map_of specs)
      (Start_poller (map_of specs) (cf_Devices cfg) (Map.empty, pg_cache pg, s)) bs st" "sg_ready st" "\<not> sg_cancelled st"
    and "inj_on deviceKey (set (cf_Devices cfg))" "dev \<in> set (cf_Devices cfg)" "map_of specs (dv_Class dev) = Some spec0"
  shows "(\<exists>eoj. GetDeviceEOJ dev (sg_cache st) = Some eoj \<and> same_class eoj (d_EOJ spec0))
    \<and> (\<forall>metrics m. GetDeviceSpecs dev (sg_cache st) = Some metrics \<and> m \<in> set metrics \<longrightarrow>
        (\<exists>sc \<in> set (sg_scrapers st). sc_dev sc = dev \<and> same_class (sc_eoj sc) (d_EOJ spec0) \<and> m \<in> set (sc_metrics sc)
           \<and> 0 < sc_interval sc \<and> sc_delay sc \<le> sc_interval sc div 2
           \<and> (\<forall>scrape start evs (w :: 'w). length (snd (runScraper scrape (sc_interval sc) (sc_delay sc) start evs w))
                = timers evs + (if 0 < sc_delay sc then 0 else 1))))"
proof (intro conjI allI impI)
  note load = main_start_Inr(2) [OF assms(1)] and pg = main_start_Inr(3) [OF assms(1)]
  have "GetDeviceSpecs d (fst (snd (Map.empty :: host_eojs, pg_cache pg, s))) = None" for d
    by (simp add: GetDeviceSpecs_def pg program_cache_empty)
  note polled = code_discovery.polled_when_ready [OF assms(2-5) this assms(6,7)]
  show "\<exists>eoj. GetDeviceEOJ dev (sg_cache st) = Some eoj \<and> same_class eoj (d_EOJ spec0)" by (rule polled(1))
  fix metrics m assume m: "GetDeviceSpecs dev (sg_cache st) = Some metrics \<and> m \<in> set metrics"
  then obtain eoj spec cls k where spec: "same_class eoj (d_EOJ spec0)" "map_of specs cls = Some spec"
    and scrapers: "set (scheduleDeviceScrapers dev eoj metrics spec k) \<subseteq> set (sg_scrapers st)"
    using polled(2) by metis
  obtain sc where sc: "sc \<in> set (scheduleDeviceScrapers dev eoj metrics spec k)" "sc_dev sc = dev" "sc_eoj sc = eoj"
    "m \<in> set (sc_metrics sc)" using scraper_for m by metis
  have "0 < d_DefaultScrapeInterval spec" using loaded_spec_ok [OF load spec(2)] by (simp add: spec_ok_def)
  from scraper_interval_pos [OF sc(1) this] scraper_of(3) [OF sc(1)] sc spec(1) scrapers
  show "\<exists>sc \<in> set (sg_scrapers st). sc_dev sc = dev \<and> same_class (sc_eoj sc) (d_EOJ spec0) \<and> m \<in> set (sc_metrics sc)
      \<and> 0 < sc_interval sc \<and> sc_delay sc \<le> sc_interval sc div 2
      \<and> (\<forall>scrape start evs (w :: 'w). length (snd (runScraper scrape (sc_interval sc) (sc_delay sc) start evs w))
           = timers evs + (if 0 < sc_delay sc then 0 else 1))"
    by (intro bexI [of _ sc]) (auto simp: runScraper_length)
qed

theorem loaded_devices_keep_polling_witness:
  "\<exists>pg cfg specs (st :: 16 word starting) eoj. main_start ''dev'' (Inr cfg) (Load_specs (\<lambda>_. 0) (\<lambda>x. x) (\<lambda>_. Inr sample_deviceYAML) sample_dir)
      = Inr (pg, cfg, specs) \<and> sg_ready st \<and> GetDeviceEOJ (sample_device\<lparr>dv_Class := ''ac''\<rparr>) (sg_cache st) = Some eoj"
proof -
  let ?dev = "sample_device\<lparr>dv_Class := ''ac''\<rparr>" and ?load = "Load_specs (\<lambda>_. 0) (\<lambda>x. x) (\<lambda>_. Inr sample_deviceYAML) sample_dir"
  let ?cfg = "(default_config (\<lambda>_. []))\<lparr>cf_Devices := [?dev]\<rparr>"
  obtain specs spec where load: "?load [] = Inr specs" "map_of specs ''ac'' = Some spec" using sample_loads by blast
  have main: "main_start ''dev'' (Inr ?cfg) ?load = Inr (start_program ''dev'' ?cfg, ?cfg, specs)"
    by (simp add: main_start_def default_config_def load(1))
  let ?start = "Start_poller (map_of specs) (cf_Devices ?cfg) (Map.empty, pg_cache (start_program ''dev'' ?cfg), 0 :: 16 word)"
  obtain bs st where run: "start_runs (discovery (\<lambda>_. None) None refusing refusing (map_of specs) (cf_NotificationsEnabled ?cfg))
      (map_of specs) ?start bs st" "list_all id bs" "sg_ready st"
    using start_can_finish [OF Start_poller_hosts_ok] by blast
  then have "\<not> sg_cancelled st" using internal_keeps_context by (fastforce simp: Start_poller_def)
  from loaded_devices_keep_polling [OF main run(1,3) this, of ?dev spec] load(2) main run(3) show ?thesis by auto
qed

end
